(* ===== verification/Encoding.thy ===== *)
theory Encoding
  imports Atho_Prelude
begin

text \<open>
  Byte encodings shared by every wire and storage format of the program.

  \<^item> Little- and big-endian images of integers (\<open>to_le_bytes\<close>, \<open>from_le_bytes\<close> and
    their big-endian counterparts of the Rust standard library).
  \<^item> The compact-size prefix of \<^verbatim>\<open>crates/atho-core/src/encoding.rs\<close>.
  \<^item> The cursor readers (\<open>read_u16\<close>, \<open>read_u32\<close>, \<open>read_u64\<close>, \<open>read_array\<close>,
    \<open>read_vec\<close>) that the decoders of \<^verbatim>\<open>block.rs\<close> and \<^verbatim>\<open>transaction.rs\<close>
    define locally, over an explicit offset.
  \<^item> The locale \<open>codec\<close>: what an encoder and a cursor decoder owe each other. The list
    decoder is proved correct once, inside the locale.
\<close>

section \<open>Integers as bytes\<close>

fun le_of_nat :: "nat \<Rightarrow> nat \<Rightarrow> bytes" where
  "le_of_nat 0 v = []"
| "le_of_nat (Suc n) v = word_of_nat v # le_of_nat n (v div 256)"

fun le_to_nat :: "bytes \<Rightarrow> nat" where
  "le_to_nat [] = 0"
| "le_to_nat (b # bs) = unat b + 256 * le_to_nat bs"

definition be_to_nat :: "bytes \<Rightarrow> nat" where
  "be_to_nat bs = le_to_nat (rev bs)"

definition be_of_nat :: "nat \<Rightarrow> nat \<Rightarrow> bytes" where
  "be_of_nat n v = rev (le_of_nat n v)"

definition u16_le :: "u16 \<Rightarrow> bytes" where
  "u16_le v = le_of_nat 2 (unat v)"

definition u32_le :: "u32 \<Rightarrow> bytes" where
  "u32_le v = le_of_nat 4 (unat v)"

definition u64_le :: "u64 \<Rightarrow> bytes" where
  "u64_le v = le_of_nat 8 (unat v)"

definition u32_be :: "u32 \<Rightarrow> bytes" where
  "u32_be v = be_of_nat 4 (unat v)"

definition u64_be :: "u64 \<Rightarrow> bytes" where
  "u64_be v = be_of_nat 8 (unat v)"

text \<open>The cast \<open>len as u32\<close> of a length: it keeps the low 32 bits.\<close>

definition len_u32 :: "usize \<Rightarrow> u32" where
  "len_u32 n = word_of_nat n"

lemma length_le_of_nat [simp]: "length (le_of_nat n v) = n"
  by (induction n arbitrary: v) auto

lemma unat_byte_of_nat: "unat (word_of_nat v :: byte) = v mod 256"
  by (simp add: unat_of_nat)

lemma le_to_nat_of_nat: "le_to_nat (le_of_nat n v) = v mod 256 ^ n"
proof (induction n arbitrary: v)
  case 0
  then show ?case by simp
next
  case (Suc n)
  have "v mod 256 ^ Suc n = v mod 256 + 256 * (v div 256 mod 256 ^ n)"
    by (simp add: mod_mult2_eq mult.commute)
  with Suc show ?case by (simp add: unat_byte_of_nat)
qed

lemma le_to_nat_bound: "le_to_nat bs < 256 ^ length bs"
proof (induction bs)
  case Nil
  then show ?case by simp
next
  case (Cons b bs)
  with byte_unat_bound [of b] show ?case by simp
qed

lemma le_of_nat_to_nat: "le_of_nat (length bs) (le_to_nat bs) = bs"
proof (induction bs)
  case Nil
  then show ?case by simp
next
  case (Cons b bs)
  have "(unat b + 256 * le_to_nat bs) div 256 = le_to_nat bs"
    using byte_unat_bound [of b] by simp
  moreover have "(word_of_nat (unat b + 256 * le_to_nat bs) :: byte) = b"
    using byte_unat_bound [of b] by (simp add: word_unat_eq_iff unat_byte_of_nat del: of_nat_add of_nat_mult)
  ultimately show ?case using Cons by simp
qed

lemma le_to_nat_inject:
  "length xs = length ys \<Longrightarrow> le_to_nat xs = le_to_nat ys \<longleftrightarrow> xs = ys"
  by (metis le_of_nat_to_nat)

lemma le_to_nat_append: "le_to_nat (xs @ ys) = le_to_nat xs + 256 ^ length xs * le_to_nat ys"
  by (induction xs) (auto simp: algebra_simps)

lemma be_to_nat_Nil [simp]: "be_to_nat [] = 0"
  by (simp add: be_to_nat_def)

lemma be_to_nat_Cons: "be_to_nat (b # bs) = unat b * 256 ^ length bs + be_to_nat bs"
  by (simp add: be_to_nat_def le_to_nat_append)

lemma be_to_nat_snoc: "be_to_nat (bs @ [b]) = be_to_nat bs * 256 + unat b"
  by (simp add: be_to_nat_def)

lemma be_to_nat_bound: "be_to_nat bs < 256 ^ length bs"
  using le_to_nat_bound [of "rev bs"] by (simp add: be_to_nat_def)

lemma be_to_nat_inject:
  "length xs = length ys \<Longrightarrow> be_to_nat xs = be_to_nat ys \<longleftrightarrow> xs = ys"
  using le_to_nat_inject [of "rev xs" "rev ys"] by (simp add: be_to_nat_def)

lemma be_to_nat_of_nat: "be_to_nat (be_of_nat n v) = v mod 256 ^ n"
  by (simp add: be_to_nat_def be_of_nat_def le_to_nat_of_nat)

lemma length_be_of_nat [simp]: "length (be_of_nat n v) = n"
  by (simp add: be_of_nat_def)

lemma be_to_nat_zeros [simp]: "be_to_nat (replicate n 0) = 0"
  by (induction n) (auto simp: be_to_nat_Cons)

lemma be_to_nat_append: "be_to_nat (xs @ ys) = be_to_nat xs * 256 ^ length ys + be_to_nat ys"
  by (simp add: be_to_nat_def le_to_nat_append)

text \<open>The order of the code on byte arrays is lexicographic; on arrays of one length it is
  the order of the big-endian numbers they stand for.\<close>

lemma lex_less_iff_be:
  "length xs = length ys \<Longrightarrow> xs < ys \<longleftrightarrow> be_to_nat xs < be_to_nat ys"
proof (induction xs ys rule: list_induct2)
  case Nil
  then show ?case by simp
next
  case (Cons x xs y ys)
  let ?m = "256 ^ length ys :: nat"
  have bx: "be_to_nat xs < ?m" and yb: "be_to_nat ys < ?m"
    using be_to_nat_bound [of xs] be_to_nat_bound [of ys] Cons.hyps by simp_all
  have lt: "unat a * ?m + be_to_nat us < unat b * ?m + be_to_nat vs"
    if "unat a < unat b" "be_to_nat us < ?m" for a b :: byte and us vs
  proof -
    from that(1) have "(unat a + 1) * ?m \<le> unat b * ?m" by (intro mult_le_mono1) simp
    with that(2) show ?thesis by simp
  qed
  consider "unat x < unat y" | "unat y < unat x" | "x = y"
    by (metis linorder_neqE_nat word_unat_eq_iff)
  then show ?case
  proof cases
    case 1
    with lt [OF 1 bx, of ys] Cons.hyps show ?thesis
      by (simp add: be_to_nat_Cons word_less_nat_alt)
  next
    case 2
    with lt [OF 2 yb, of xs] Cons.hyps show ?thesis
      by (auto simp: be_to_nat_Cons word_less_nat_alt)
  next
    case 3
    with Cons show ?thesis by (simp add: be_to_nat_Cons)
  qed
qed

lemma lex_le_iff_be:
  "length xs = length ys \<Longrightarrow> xs \<le> ys \<longleftrightarrow> be_to_nat xs \<le> be_to_nat ys"
  using lex_less_iff_be [of ys xs] by (simp add: linorder_not_less [symmetric])

lemma length_int_bytes [simp, size_simps]:
  "length (u16_le a) = 2" "length (u32_le b) = 4" "length (u64_le c) = 8"
  "length (u32_be b) = 4" "length (u64_be c) = 8"
  by (simp_all add: u16_le_def u32_le_def u64_le_def u32_be_def u64_be_def)

lemma len_u32_small: "n < u32_bound \<Longrightarrow> unat (len_u32 n) = n"
  by (simp add: len_u32_def unat_of_nat)

section \<open>Compact sizes\<close>

definition compact_size_len :: "usize \<Rightarrow> usize" where
  "compact_size_len value =
     (if value \<le> 0xfc then 1
      else if value \<le> 0xffff then 3
      else if value \<le> 0xffffffff then 5
      else 9)"

definition write_compact_size :: "bytes \<Rightarrow> usize \<Rightarrow> bytes" where
  "write_compact_size out value =
     (if value \<le> 0xfc then out @ [word_of_nat value]
      else if value \<le> 0xffff then out @ [0xfd] @ u16_le (word_of_nat value)
      else if value \<le> 0xffffffff then out @ [0xfe] @ u32_le (word_of_nat value)
      else out @ [0xff] @ u64_le (word_of_nat value))"

lemma length_write_compact_size [simp, size_simps]:
  "length (write_compact_size out value) = length out + compact_size_len value"
  by (simp add: write_compact_size_def compact_size_len_def)

lemma unat_small_word:
  "n < 2 ^ LENGTH('a) \<Longrightarrow> unat (word_of_nat n :: 'a::len word) = n"
  by (simp add: unat_of_nat)

lemma small_word_inject:
  "a < 2 ^ LENGTH('a) \<Longrightarrow> b < 2 ^ LENGTH('a) \<Longrightarrow>
     (word_of_nat a :: 'a::len word) = word_of_nat b \<longleftrightarrow> a = b"
  by (metis unat_small_word)

lemma int_bytes_inject:
  "u16_le a = u16_le a' \<longleftrightarrow> a = a'" "u32_le b = u32_le b' \<longleftrightarrow> b = b'"
  "u64_le c = u64_le c' \<longleftrightarrow> c = c'"
proof -
  have inj: "le_of_nat n (unat x) = le_of_nat n (unat y) \<longleftrightarrow> x = y"
    if "2 ^ LENGTH('a) = (256::nat) ^ n" for x y :: "'a::len word" and n
  proof
    assume "le_of_nat n (unat x) = le_of_nat n (unat y)"
    then have "unat x mod 256 ^ n = unat y mod 256 ^ n" by (metis le_to_nat_of_nat)
    with that show "x = y"
      by (metis mod_less unat_lt2p word_unat_eq_iff)
  qed simp
  show "u16_le a = u16_le a' \<longleftrightarrow> a = a'" "u32_le b = u32_le b' \<longleftrightarrow> b = b'"
    "u64_le c = u64_le c' \<longleftrightarrow> c = c'"
    by (simp_all add: u16_le_def u32_le_def u64_le_def inj)
qed

text \<open>The prefixes form a prefix code: the encoded size is determined by the bytes that
  start with it, whatever follows.\<close>

lemma compact_size_prefix_code:
  assumes "a < u64_bound" and "b < u64_bound"
    and "write_compact_size [] a @ xs = write_compact_size [] b @ ys"
  shows "a = b \<and> xs = ys"
proof -
  have first: "unat (hd (write_compact_size [] v)) =
      (if v \<le> 0xfc then v else if v \<le> 0xffff then 0xfd else if v \<le> 0xffffffff then 0xfe else 0xff)"
    for v by (simp add: write_compact_size_def unat_small_word)
  have ne: "write_compact_size [] v \<noteq> []" for v by (simp add: write_compact_size_def)
  from assms(3) ne have "hd (write_compact_size [] a) = hd (write_compact_size [] b)"
    by (metis hd_append2)
  then have same_class: "(a \<le> 0xfc \<longleftrightarrow> b \<le> 0xfc) \<and> (a \<le> 0xffff \<longleftrightarrow> b \<le> 0xffff)
      \<and> (a \<le> 0xffffffff \<longleftrightarrow> b \<le> 0xffffffff)"
    unfolding word_unat_eq_iff first by (simp split: if_splits)
  then have "compact_size_len a = compact_size_len b"
    by (simp add: compact_size_len_def)
  then have "length (write_compact_size [] a) = length (write_compact_size [] b)" by simp
  with assms(3) have same: "write_compact_size [] a = write_compact_size [] b" "xs = ys"
    by simp_all
  consider "a \<le> 0xfc" "b \<le> 0xfc" | "0xfc < a" "a \<le> 0xffff" "0xfc < b" "b \<le> 0xffff"
    | "0xffff < a" "a \<le> 0xffffffff" "0xffff < b" "b \<le> 0xffffffff"
    | "0xffffffff < a" "0xffffffff < b"
    using same_class by linarith
  then have "a = b"
  proof cases
    case 1
    with same(1) show ?thesis by (simp add: write_compact_size_def small_word_inject)
  next
    case 2
    with same(1) show ?thesis
      by (simp add: write_compact_size_def int_bytes_inject small_word_inject)
  next
    case 3
    with same(1) show ?thesis
      by (simp add: write_compact_size_def int_bytes_inject small_word_inject)
  next
    case 4
    with same(1) assms(1,2) show ?thesis
      by (simp add: write_compact_size_def int_bytes_inject small_word_inject)
  qed
  with same(2) show ?thesis by simp
qed

section \<open>Cursor readers\<close>

definition read_array :: "usize \<Rightarrow> bytes \<Rightarrow> usize \<Rightarrow> (bytes \<times> usize) option" where
  "read_array n bs offset = do {
     upto \<leftarrow> usize_checked_add offset n;
     part \<leftarrow> get_range bs offset upto;
     Some (part, upto)
   }"

definition read_vec :: "bytes \<Rightarrow> usize \<Rightarrow> usize \<Rightarrow> (bytes \<times> usize) option" where
  "read_vec bs offset len = do {
     upto \<leftarrow> usize_checked_add offset len;
     part \<leftarrow> get_range bs offset upto;
     Some (part, upto)
   }"

definition read_u16 :: "bytes \<Rightarrow> usize \<Rightarrow> (u16 \<times> usize) option" where
  "read_u16 bs offset = do {
     upto \<leftarrow> usize_checked_add offset 2;
     part \<leftarrow> get_range bs offset upto;
     Some (word_of_nat (le_to_nat part), upto)
   }"

definition read_u32 :: "bytes \<Rightarrow> usize \<Rightarrow> (u32 \<times> usize) option" where
  "read_u32 bs offset = do {
     upto \<leftarrow> usize_checked_add offset 4;
     part \<leftarrow> get_range bs offset upto;
     Some (word_of_nat (le_to_nat part), upto)
   }"

definition read_u64 :: "bytes \<Rightarrow> usize \<Rightarrow> (u64 \<times> usize) option" where
  "read_u64 bs offset = do {
     upto \<leftarrow> usize_checked_add offset 8;
     part \<leftarrow> get_range bs offset upto;
     Some (word_of_nat (le_to_nat part), upto)
   }"

text \<open>\<open>*bytes.get(offset)?\<close> followed by \<open>offset += 1\<close>.\<close>

definition read_byte :: "bytes \<Rightarrow> usize \<Rightarrow> (byte \<times> usize) option" where
  "read_byte bs offset = (if offset < length bs then Some (bs ! offset, offset + 1) else None)"

text \<open>\<open>for _ in 0..count { items.push(read(bytes, &mut offset)?) }\<close>\<close>

fun read_many :: "nat \<Rightarrow> (bytes \<Rightarrow> usize \<Rightarrow> ('a \<times> usize) option) \<Rightarrow>
    bytes \<Rightarrow> usize \<Rightarrow> ('a list \<times> usize) option" where
  "read_many 0 rd bs offset = Some ([], offset)"
| "read_many (Suc n) rd bs offset = do {
     (x, offset1) \<leftarrow> rd bs offset;
     (xs, offset2) \<leftarrow> read_many n rd bs offset1;
     Some (x # xs, offset2)
   }"

section \<open>What an encoder and a decoder owe each other\<close>

locale codec =
  fixes enc :: "'a \<Rightarrow> bytes"
    and dec :: "bytes \<Rightarrow> usize \<Rightarrow> ('a \<times> usize) option"
    and ok :: "'a \<Rightarrow> bool"
  assumes decode_encoded:
      "\<lbrakk> ok x; length bs < u64_bound; off \<le> length bs; drop off bs = enc x @ suf \<rbrakk>
       \<Longrightarrow> dec bs off = Some (x, off + length (enc x))"
    and decoded_is_encoding:
      "\<lbrakk> dec bs off = Some (x, off'); off \<le> length bs \<rbrakk>
       \<Longrightarrow> ok x \<and> off' = off + length (enc x) \<and> off' \<le> length bs
         \<and> drop off bs = enc x @ drop off' bs"
begin

lemma decode_then:
  assumes "ok x" and "length bs < u64_bound" and "off \<le> length bs"
    and "drop off bs = enc x @ suf"
  shows "dec bs off = Some (x, off + length (enc x))
    \<and> off + length (enc x) \<le> length bs \<and> drop (off + length (enc x)) bs = suf"
proof -
  have "length (drop off bs) = length (enc x @ suf)" using assms(4) by simp
  then have "off + length (enc x) \<le> length bs" using assms(3) by simp
  moreover have "drop (off + length (enc x)) bs = drop (length (enc x)) (drop off bs)"
    by (simp add: add.commute)
  ultimately show ?thesis using decode_encoded [OF assms] assms(4) by simp
qed

lemma read_many_encoded:
  assumes "list_all ok xs" and "length bs < u64_bound" and "off \<le> length bs"
    and "drop off bs = concat (map enc xs) @ suf"
  shows "read_many (length xs) dec bs off = Some (xs, off + length (concat (map enc xs)))"
  using assms(1,3,4)
proof (induction xs arbitrary: off)
  case Nil
  then show ?case by simp
next
  case (Cons x xs)
  then have "ok x" and drop: "drop off bs = enc x @ concat (map enc xs) @ suf" by simp_all
  from decode_then [OF \<open>ok x\<close> assms(2) Cons.prems(2) drop]
  have step: "dec bs off = Some (x, off + length (enc x))" "off + length (enc x) \<le> length bs"
    "drop (off + length (enc x)) bs = concat (map enc xs) @ suf" by simp_all
  from Cons.IH [OF _ step(2,3)] Cons.prems(1) step(1) show ?case by (simp add: add.assoc)
qed

lemma read_many_decoded:
  assumes "read_many n dec bs off = Some (xs, off')" and "off \<le> length bs"
  shows "length xs = n \<and> list_all ok xs \<and> off' = off + length (concat (map enc xs))
    \<and> off' \<le> length bs \<and> drop off bs = concat (map enc xs) @ drop off' bs"
  using assms
proof (induction n arbitrary: off xs)
  case 0
  then show ?case by auto
next
  case (Suc n)
  then obtain x off1 ys where first: "dec bs off = Some (x, off1)"
    and rest: "read_many n dec bs off1 = Some (ys, off')" and xs: "xs = x # ys"
    by (auto split: bind_splits)
  from decoded_is_encoding [OF first Suc.prems(2)]
  have step: "ok x" "off1 = off + length (enc x)" "off1 \<le> length bs"
    "drop off bs = enc x @ drop off1 bs" by simp_all
  from Suc.IH [OF rest step(3)] step xs show ?case by simp
qed

end

lemma get_range_drop:
  "get_range bs off e = Some s \<longleftrightarrow> off \<le> e \<and> e \<le> length bs \<and> s = take (e - off) (drop off bs)"
  by (rule get_range_Some_iff)

lemma read_vec_eq_array: "read_vec bs off n = read_array n bs off"
  by (simp add: read_vec_def read_array_def)

lemma read_array_Some:
  "read_array n bs off = Some (s, off') \<longleftrightarrow>
     off + n < u64_bound \<and> off + n \<le> length bs \<and> off' = off + n \<and> s = take n (drop off bs)"
  by (auto simp: read_array_def usize_checked_add_def get_range_def split: bind_splits if_splits)

interpretation array: codec "\<lambda>s. s" "read_array n" "\<lambda>s. length s = n" for n
proof
  fix x bs suf :: bytes and off
  assume "length x = n" "length bs < u64_bound" "off \<le> length bs" "drop off bs = x @ suf"
  moreover from this have "off + n \<le> length bs"
    by (metis add_le_cancel_left length_append length_drop le_add1 le_add_diff_inverse)
  ultimately show "read_array n bs off = Some (x, off + length x)"
    by (simp add: read_array_Some)
next
  fix bs x :: bytes and off off'
  assume "read_array n bs off = Some (x, off')" "off \<le> length bs"
  then show "length x = n \<and> off' = off + length x \<and> off' \<le> length bs \<and> drop off bs = x @ drop off' bs"
    by (auto simp: read_array_Some) (metis add.commute append_take_drop_id drop_drop)
qed

lemma read_word_codec:
  assumes rd: "\<And>bs off. rd bs off =
      Option.bind (read_array k bs off) (\<lambda>(s, e). Some (word_of_nat (le_to_nat s) :: 'a::len word, e))"
    and width: "2 ^ LENGTH('a) = (256::nat) ^ k"
  shows "codec (\<lambda>v. le_of_nat k (unat v)) rd (\<lambda>_. True)"
proof
  fix x :: "'a word" and bs off suf
  assume "length bs < u64_bound" "off \<le> length bs" "drop off bs = le_of_nat k (unat x) @ suf"
  then have "read_array k bs off = Some (le_of_nat k (unat x), off + k)"
    using array.decode_encoded [of "le_of_nat k (unat x)" k] by simp
  moreover have "unat x mod 256 ^ k = unat x" using unat_lt2p [of x] width by simp
  ultimately show "rd bs off = Some (x, off + length (le_of_nat k (unat x)))"
    by (simp add: rd le_to_nat_of_nat)
next
  fix x :: "'a word" and bs off off'
  assume "rd bs off = Some (x, off')" "off \<le> length bs"
  then obtain s where s: "read_array k bs off = Some (s, off')" and x: "x = word_of_nat (le_to_nat s)"
    by (auto simp: rd split: bind_splits)
  from array.decoded_is_encoding [OF s \<open>off \<le> length bs\<close>]
  have arr: "length s = k" "off' = off + length s" "off' \<le> length bs" "drop off bs = s @ drop off' bs"
    by simp_all
  have "unat x = le_to_nat s"
    using le_to_nat_bound [of s] arr(1) width by (simp add: x unat_small_word)
  then have "le_of_nat k (unat x) = s" using le_of_nat_to_nat [of s] arr(1) by simp
  with arr show "True \<and> off' = off + length (le_of_nat k (unat x)) \<and> off' \<le> length bs \<and>
      drop off bs = le_of_nat k (unat x) @ drop off' bs" by simp
qed

interpretation u16c: codec u16_le read_u16 "\<lambda>_. True"
  unfolding u16_le_def [abs_def]
  by (rule read_word_codec) (auto simp: read_u16_def read_array_def split: bind_splits)

interpretation u32c: codec u32_le read_u32 "\<lambda>_. True"
  unfolding u32_le_def [abs_def]
  by (rule read_word_codec) (auto simp: read_u32_def read_array_def split: bind_splits)

interpretation u64c: codec u64_le read_u64 "\<lambda>_. True"
  unfolding u64_le_def [abs_def]
  by (rule read_word_codec) (auto simp: read_u64_def read_array_def split: bind_splits)

interpretation bytec: codec "\<lambda>b. [b]" read_byte "\<lambda>_. True"
proof
  fix x :: byte and bs suf off
  assume "drop off bs = [x] @ suf" "off \<le> length bs"
  then show "read_byte bs off = Some (x, off + length [x])"
    by (metis Cons_eq_appendI One_nat_def drop_all length_Cons list.distinct(1) list.size(3)
        nth_via_drop read_byte_def self_append_conv2 not_le)
next
  fix bs off off' and x :: byte
  assume "read_byte bs off = Some (x, off')" "off \<le> length bs"
  then show "True \<and> off' = off + length [x] \<and> off' \<le> length bs \<and> drop off bs = [x] @ drop off' bs"
    by (auto simp: read_byte_def Cons_nth_drop_Suc split: if_splits)
qed

section \<open>Composing codecs\<close>

text \<open>A decoder is a sequence of reads, guards and a final constructor call; the rules below
  follow that shape. In \<open>codec_bind\<close> the value \<open>x\<close> that the first read returns is the part
  \<open>f z\<close> of the decoded value \<open>z\<close>.\<close>

lemma codec_return: "codec (\<lambda>z. []) (\<lambda>bs off. Some (v, off)) (\<lambda>z. z = v)"
  by unfold_locales auto

lemma codec_bind:
  assumes fst: "codec e1 d1 ok1"
    and snd: "\<And>x. codec (e2 x) (d2 x) (ok2 x)"
    and part: "\<And>x z. ok2 x z \<Longrightarrow> f z = x"
  shows "codec (\<lambda>z. e1 (f z) @ e2 (f z) z)
    (\<lambda>bs off. Option.bind (d1 bs off) (\<lambda>(x, off1). d2 x bs off1))
    (\<lambda>z. ok1 (f z) \<and> ok2 (f z) z)"
proof
  fix z bs off suf
  assume ok: "ok1 (f z) \<and> ok2 (f z) z" and len: "length bs < u64_bound"
    and off: "off \<le> length bs" and drop: "drop off bs = (e1 (f z) @ e2 (f z) z) @ suf"
  from drop have "drop off bs = e1 (f z) @ (e2 (f z) z @ suf)" by simp
  from codec.decode_then [OF fst _ len off this] ok
  have step: "d1 bs off = Some (f z, off + length (e1 (f z)))"
    "off + length (e1 (f z)) \<le> length bs" "drop (off + length (e1 (f z))) bs = e2 (f z) z @ suf"
    by simp_all
  from codec.decode_encoded [OF snd _ len step(2,3)] ok step(1)
  show "Option.bind (d1 bs off) (\<lambda>(x, off1). d2 x bs off1) =
      Some (z, off + length (e1 (f z) @ e2 (f z) z))"
    by (simp add: add.assoc)
next
  fix z bs off off'
  assume "Option.bind (d1 bs off) (\<lambda>(x, off1). d2 x bs off1) = Some (z, off')"
    and off: "off \<le> length bs"
  then obtain x off1 where d1: "d1 bs off = Some (x, off1)" and d2: "d2 x bs off1 = Some (z, off')"
    by (auto split: bind_splits)
  from codec.decoded_is_encoding [OF fst d1 off]
  have a: "ok1 x" "off1 = off + length (e1 x)" "off1 \<le> length bs" "drop off bs = e1 x @ drop off1 bs"
    by simp_all
  from codec.decoded_is_encoding [OF snd d2 a(3)]
  have b: "ok2 x z" "off' = off1 + length (e2 x z)" "off' \<le> length bs"
    "drop off1 bs = e2 x z @ drop off' bs" by simp_all
  from part [OF b(1)] a b
  show "(ok1 (f z) \<and> ok2 (f z) z) \<and> off' = off + length (e1 (f z) @ e2 (f z) z) \<and>
      off' \<le> length bs \<and> drop off bs = (e1 (f z) @ e2 (f z) z) @ drop off' bs"
    by simp
qed

lemma codec_guard:
  assumes "codec e d ok"
  shows "codec e (\<lambda>bs off. if P then None else d bs off) (\<lambda>z. \<not> P \<and> ok z)"
proof (cases P)
  case True
  then show ?thesis by unfold_locales simp_all
next
  case False
  with assms show ?thesis by simp
qed

lemma codec_require:
  assumes "\<And>x. codec (e x) (d x) (ok x)" and part: "\<And>z. ok v z \<Longrightarrow> f z = v"
  shows "codec (\<lambda>z. e (f z) z)
    (\<lambda>bs off. Option.bind (if P then Some v else None) (\<lambda>x. d x bs off))
    (\<lambda>z. P \<and> f z = v \<and> ok v z)"
proof (cases P)
  case False
  then show ?thesis by unfold_locales simp_all
next
  case True
  show ?thesis
  proof
    fix z bs off suf
    assume "P \<and> f z = v \<and> ok v z" "length bs < u64_bound" "off \<le> length bs"
      "drop off bs = e (f z) z @ suf"
    with codec.decode_encoded [OF assms(1) [of v]]
    show "Option.bind (if P then Some v else None) (\<lambda>x. d x bs off) =
        Some (z, off + length (e (f z) z))" by simp
  next
    fix z bs off off'
    assume "Option.bind (if P then Some v else None) (\<lambda>x. d x bs off) = Some (z, off')"
      and off: "off \<le> length bs"
    with True have "d v bs off = Some (z, off')" by simp
    from codec.decoded_is_encoding [OF assms(1) this off] part [of z] True
    show "(P \<and> f z = v \<and> ok v z) \<and> off' = off + length (e (f z) z) \<and> off' \<le> length bs \<and>
        drop off bs = e (f z) z @ drop off' bs" by auto
  qed
qed

lemma codec_lookup:
  assumes "\<And>x. codec (e x) (d x) (ok x)" and part: "\<And>x z. ok x z \<Longrightarrow> f z = x"
  shows "codec (\<lambda>z. e (f z) z) (\<lambda>bs off. Option.bind opt (\<lambda>x. d x bs off))
    (\<lambda>z. opt = Some (f z) \<and> ok (f z) z)"
proof
  fix z bs off suf
  assume "opt = Some (f z) \<and> ok (f z) z" "length bs < u64_bound" "off \<le> length bs"
    "drop off bs = e (f z) z @ suf"
  with codec.decode_encoded [OF assms(1) [of "f z"]]
  show "Option.bind opt (\<lambda>x. d x bs off) = Some (z, off + length (e (f z) z))" by simp
next
  fix z bs off off'
  assume "Option.bind opt (\<lambda>x. d x bs off) = Some (z, off')" and off: "off \<le> length bs"
  then obtain x where x: "opt = Some x" and d: "d x bs off = Some (z, off')"
    by (auto split: bind_splits)
  from codec.decoded_is_encoding [OF assms(1) d off] part [of x z] x
  show "(opt = Some (f z) \<and> ok (f z) z) \<and> off' = off + length (e (f z) z) \<and> off' \<le> length bs \<and>
      drop off bs = e (f z) z @ drop off' bs" by auto
qed

text \<open>A capacity check before a loop rejects nothing that the loop would accept.\<close>

lemma codec_capacity:
  assumes c: "codec e d ok" and k: "0 < k" and cap: "\<And>z. ok z \<Longrightarrow> n * k \<le> length (e z)"
  shows "codec e (\<lambda>bs off. if n > (length bs - off) div k then None else d bs off) ok"
proof
  fix z bs off suf
  assume a: "ok z" "length bs < u64_bound" "off \<le> length bs" "drop off bs = e z @ suf"
  have "length (drop off bs) = length (e z @ suf)" using a(4) by simp
  then have "n * k \<le> length bs - off" using cap [OF a(1)] by simp
  then have "\<not> n > (length bs - off) div k"
    using k div_le_mono [of "n * k" "length bs - off" k] by simp
  with codec.decode_encoded [OF c a]
  show "(if n > (length bs - off) div k then None else d bs off) = Some (z, off + length (e z))"
    by simp
next
  fix z bs off off'
  assume "(if n > (length bs - off) div k then None else d bs off) = Some (z, off')"
    "off \<le> length bs"
  with codec.decoded_is_encoding [OF c]
  show "ok z \<and> off' = off + length (e z) \<and> off' \<le> length bs \<and> drop off bs = e z @ drop off' bs"
    by (auto split: if_splits)
qed

lemma codec_read_many:
  assumes "codec e d ok"
  shows "codec (\<lambda>xs. concat (map e xs)) (read_many n d) (\<lambda>xs. length xs = n \<and> list_all ok xs)"
proof
  fix xs bs off suf
  assume "length xs = n \<and> list_all ok xs" "length bs < u64_bound" "off \<le> length bs"
    "drop off bs = concat (map e xs) @ suf"
  with codec.read_many_encoded [OF assms, of xs bs off suf]
  show "read_many n d bs off = Some (xs, off + length (concat (map e xs)))" by simp
next
  fix xs bs off off'
  assume "read_many n d bs off = Some (xs, off')" "off \<le> length bs"
  from codec.read_many_decoded [OF assms this]
  show "(length xs = n \<and> list_all ok xs) \<and> off' = off + length (concat (map e xs)) \<and>
      off' \<le> length bs \<and> drop off bs = concat (map e xs) @ drop off' bs" by simp
qed

lemma codec_read_vec: "codec (\<lambda>s. s) (\<lambda>bs off. read_vec bs off n) (\<lambda>s. length s = n)"
  unfolding read_vec_eq_array by (rule array.codec_axioms)

lemma codec_cong:
  assumes "codec e d ok" and "\<And>z. ok z = ok' z" and "\<And>z. ok' z \<Longrightarrow> e z = e' z"
  shows "codec e' d ok'"
proof
  fix z bs off suf
  assume "ok' z" "length bs < u64_bound" "off \<le> length bs" "drop off bs = e' z @ suf"
  with codec.decode_encoded [OF assms(1), of z bs off suf] assms(2,3)
  show "d bs off = Some (z, off + length (e' z))" by simp
next
  fix z bs off off'
  assume "d bs off = Some (z, off')" "off \<le> length bs"
  from codec.decoded_is_encoding [OF assms(1) this] assms(2) [of z] assms(3) [of z]
  show "ok' z \<and> off' = off + length (e' z) \<and> off' \<le> length bs \<and> drop off bs = e' z @ drop off' bs"
    by auto
qed

text \<open>A decoder that must consume its whole input accepts exactly the encodings.\<close>

lemma codec_exact:
  assumes c: "codec e d ok" and len: "length bs < u64_bound"
  shows "Option.bind (d bs 0) (\<lambda>(x, off). if off \<noteq> length bs then None else Some x) = Some z
    \<longleftrightarrow> ok z \<and> bs = e z"
proof
  assume "Option.bind (d bs 0) (\<lambda>(x, off). if off \<noteq> length bs then None else Some x) = Some z"
  then have "d bs 0 = Some (z, length bs)" by (auto split: bind_splits if_splits)
  from codec.decoded_is_encoding [OF c this] show "ok z \<and> bs = e z" by simp
next
  assume "ok z \<and> bs = e z"
  with codec.decode_encoded [OF c, of z bs 0 "[]"] len
  show "Option.bind (d bs 0) (\<lambda>(x, off). if off \<noteq> length bs then None else Some x) = Some z"
    by simp
qed

lemma len_u32_unat [simp]: "len_u32 (unat n) = n"
  by (simp add: len_u32_def)

lemma len_u32_eq_iff [simp]: "unat (len_u32 n) = n \<longleftrightarrow> n < u32_bound"
  by (metis len_u32_small u32_unat_bound)

lemma eq_len_u32_iff [simp]: "n = unat (len_u32 n) \<longleftrightarrow> n < u32_bound"
  by (metis len_u32_eq_iff)

lemma len_u32_eqI: "n = unat x \<Longrightarrow> len_u32 n = x"
  by simp

end
