(* ===== verification/Network.thy ===== *)
theory Network
  imports Encoding
begin

text \<open>
  Network identity, protocol constants and consensus parameters
  (\<^verbatim>\<open>network.rs\<close>, \<^verbatim>\<open>constants.rs\<close>, \<^verbatim>\<open>consensus/params.rs\<close>,
  \<^verbatim>\<open>crypto/hash.rs\<close> of \<^verbatim>\<open>crates/atho-core/src\<close>), and the record
  \<open>primitives\<close> of the cryptographic code that the program only calls: the SHA-3
  functions of the \<^verbatim>\<open>sha3\<close> crate and the Falcon-512 verification of the
  vendored \<^verbatim>\<open>fn-dsa\<close> library. A streaming hasher is modelled by the bytes it has
  been given so far: updating appends and finalising applies the hash function.
\<close>

section \<open>Cryptographic primitives\<close>

record primitives =
  sha3_256 :: "bytes \<Rightarrow> bytes"
  sha3_384 :: "bytes \<Rightarrow> bytes"
  vk_decodes :: "bytes \<Rightarrow> bool"
  vk_verify :: "bytes \<Rightarrow> bytes \<Rightarrow> bytes \<Rightarrow> bytes \<Rightarrow> bool"

text \<open>What the code relies on: the widths of the digests.\<close>

definition digest_widths :: "primitives \<Rightarrow> bool" where
  "digest_widths P \<longleftrightarrow> (\<forall>m. length (sha3_256 P m) = 32) \<and> (\<forall>m. length (sha3_384 P m) = 48)"

lemma length_sha3_256 [simp]: "digest_widths P \<Longrightarrow> length (sha3_256 P m) = 32"
  by (simp add: digest_widths_def)

lemma length_sha3_384 [simp]: "digest_widths P \<Longrightarrow> length (sha3_384 P m) = 48"
  by (simp add: digest_widths_def)

text \<open>Concrete primitives with these widths, for the examples of the development: a digest
  keeps the first bytes of the padded message.\<close>

definition example_primitives :: primitives where
  "example_primitives = \<lparr>sha3_256 = (\<lambda>m. take 32 (m @ replicate 32 0)),
     sha3_384 = (\<lambda>m. take 48 (m @ replicate 48 0)),
     vk_decodes = (\<lambda>key. length key = 897),
     vk_verify = (\<lambda>key sig domain msg. take 2 sig = take 2 key)\<rparr>"

lemma example_primitives_widths [simp]: "digest_widths example_primitives"
  by (auto simp: example_primitives_def digest_widths_def min_def)

definition sha3_384_chunks :: "primitives \<Rightarrow> bytes list \<Rightarrow> bytes" where
  "sha3_384_chunks P chunks = sha3_384 P (foldl (\<lambda>hasher chunk. hasher @ chunk) [] chunks)"

lemma sha3_384_chunks_concat: "sha3_384_chunks P chunks = sha3_384 P (concat chunks)"
proof -
  have "foldl (@) acc chunks = acc @ concat chunks" for acc :: bytes
    by (induction chunks arbitrary: acc) auto
  then show ?thesis by (simp add: sha3_384_chunks_def)
qed

definition as_bytes :: "string \<Rightarrow> bytes" where
  "as_bytes s = map of_char s"

lemma length_as_bytes [simp]: "length (as_bytes s) = length s"
  by (simp add: as_bytes_def)

section \<open>Protocol constants\<close>

definition DECIMALS :: usize where [simp]: "DECIMALS = 8"
definition ATOMS_PER_ATHO :: u64 where [simp]: "ATOMS_PER_ATHO = 100000000"
definition HALVING_INTERVAL_BLOCKS :: u64 where [simp]: "HALVING_INTERVAL_BLOCKS = 1260000"
definition COINBASE_MATURITY_BLOCKS :: u64 where [simp]: "COINBASE_MATURITY_BLOCKS = 100"
definition NORMAL_TX_VALID_AFTER_CONFIRMATIONS :: u64
  where [simp]: "NORMAL_TX_VALID_AFTER_CONFIRMATIONS = 1"
definition DEFAULT_WALLET_MIN_CONFIRMATIONS :: u64
  where [simp]: "DEFAULT_WALLET_MIN_CONFIRMATIONS = 3"
definition DEFAULT_SAFE_CONFIRMATIONS :: u64 where [simp]: "DEFAULT_SAFE_CONFIRMATIONS = 6"
definition HIGH_VALUE_CONFIRMATIONS :: u64 where [simp]: "HIGH_VALUE_CONFIRMATIONS = 20"
definition MIN_RELAY_FEE_RATE_ATOMS_PER_VBYTE :: u64
  where [simp]: "MIN_RELAY_FEE_RATE_ATOMS_PER_VBYTE = 1"
definition MIN_TX_FEE_ATOMS :: u64
  where [simp]: "MIN_TX_FEE_ATOMS = MIN_RELAY_FEE_RATE_ATOMS_PER_VBYTE"
definition DUST_RELAY_VALUE_ATOMS :: u64 where [simp]: "DUST_RELAY_VALUE_ATOMS = 100"
definition MAX_STANDARD_INPUTS :: usize where [simp]: "MAX_STANDARD_INPUTS = 1024"
definition MAX_STANDARD_OUTPUTS :: usize where [simp]: "MAX_STANDARD_OUTPUTS = 64"
definition TX_POW_MIN_BITS :: byte where [simp]: "TX_POW_MIN_BITS = 16"
definition TX_POW_MAX_BITS :: byte where [simp]: "TX_POW_MAX_BITS = 28"
definition TX_POW_NONCE_BYTES :: usize where [simp]: "TX_POW_NONCE_BYTES = 8"
definition TX_POW_BITS_BYTES :: usize where [simp]: "TX_POW_BITS_BYTES = 1"
definition TX_POW_DOMAIN :: bytes where "TX_POW_DOMAIN = as_bytes ''ATHO_TX_POW_V1''"
definition TARGET_BLOCK_TIME_SECONDS :: u64 where [simp]: "TARGET_BLOCK_TIME_SECONDS = 100"
definition BLOCKS_PER_YEAR :: u64 where [simp]: "BLOCKS_PER_YEAR = 315360"
definition INITIAL_BLOCK_REWARD_ATOMS :: u64
  where [simp]: "INITIAL_BLOCK_REWARD_ATOMS = 50 * ATOMS_PER_ATHO"
definition TAIL_REWARD_ATOMS :: u64 where [simp]: "TAIL_REWARD_ATOMS = 39062500"
definition FALCON_512_PUBLIC_KEY_BYTES :: usize where [simp]: "FALCON_512_PUBLIC_KEY_BYTES = 897"
definition FALCON_512_SIGNATURE_BYTES :: usize where [simp]: "FALCON_512_SIGNATURE_BYTES = 666"
definition MAX_TRANSACTION_RAW_BYTES :: usize where [simp]: "MAX_TRANSACTION_RAW_BYTES = 250000"
definition MAX_TRANSACTION_VBYTES :: usize where [simp]: "MAX_TRANSACTION_VBYTES = 250000"
definition TX_WITNESS_FIXED_BYTES :: usize
  where [simp]: "TX_WITNESS_FIXED_BYTES =
    4 + FALCON_512_SIGNATURE_BYTES + 4 + FALCON_512_PUBLIC_KEY_BYTES + 4"
definition MAX_WITNESS_INPUT_REFS :: usize
  where [simp]: "MAX_WITNESS_INPUT_REFS =
    (MAX_TRANSACTION_RAW_BYTES - 88 - TX_WITNESS_FIXED_BYTES) div 18"
definition MAX_BLOCK_VBYTES :: usize where [simp]: "MAX_BLOCK_VBYTES = 3000000"
definition MAX_BLOCK_RAW_BYTES :: usize where [simp]: "MAX_BLOCK_RAW_BYTES = 12000000"
definition MAX_BLOCK_WEIGHT :: usize where [simp]: "MAX_BLOCK_WEIGHT = MAX_BLOCK_VBYTES * 4"
definition ADDRESS_DIGEST_BYTES :: usize where [simp]: "ADDRESS_DIGEST_BYTES = 32"
definition ADDRESS_CHECKSUM_BYTES :: usize where [simp]: "ADDRESS_CHECKSUM_BYTES = 4"
definition ADDRESS_CHECKSUM_BASE56_CHARS :: usize
  where [simp]: "ADDRESS_CHECKSUM_BASE56_CHARS = 6"
definition SHA3_384_HASH_HEX_CHARS :: usize where [simp]: "SHA3_384_HASH_HEX_CHARS = 96"
definition PRUNE_DEPTH_BLOCKS :: u64 where [simp]: "PRUNE_DEPTH_BLOCKS = 100000"
definition MAX_REORG_DEPTH_BLOCKS :: u64
  where [simp]: "MAX_REORG_DEPTH_BLOCKS = PRUNE_DEPTH_BLOCKS"
definition ADDRESS_ROLE_DOMAIN :: string where "ADDRESS_ROLE_DOMAIN = ''ATHO_ADDR_V1''"
definition BASE56_ALPHABET :: string
  where "BASE56_ALPHABET = ''23456789ABCDEFGHJKMNPQRSTUVWXYZabcdefghjkmnpqrstuvwxyz''"

definition FOUNDERS_HASH_SHA3_384 :: bytes where
  "FOUNDERS_HASH_SHA3_384 =
     [0x35, 0x82, 0xd9, 0x2e, 0xff, 0x98, 0xba, 0x5e, 0x57, 0x5a, 0xe7, 0x21,
      0xce, 0xd2, 0xb3, 0x2b, 0xf7, 0xbe, 0xa4, 0x62, 0x89, 0x71, 0xd3, 0x39,
      0xdc, 0x18, 0x9f, 0xde, 0x10, 0x71, 0x6a, 0x40, 0xb9, 0x1a, 0x67, 0xf8,
      0xeb, 0x30, 0x08, 0x94, 0xea, 0xeb, 0xb9, 0x21, 0x75, 0x4c, 0xdd, 0x86]"

definition FOUNDERS_HASH_SHA3_512 :: bytes where
  "FOUNDERS_HASH_SHA3_512 =
     [0xc9, 0x30, 0x86, 0xce, 0x58, 0xc4, 0xa6, 0x4e, 0xf1, 0x56, 0x72, 0xb0,
      0x08, 0x36, 0xec, 0xa9, 0x4d, 0x14, 0xea, 0x38, 0x10, 0xa5, 0x84, 0x36,
      0x0f, 0xb1, 0x1e, 0x11, 0xf0, 0x65, 0xd5, 0x94, 0x9a, 0xa1, 0x30, 0x7f,
      0x93, 0x15, 0xbc, 0xe3, 0x13, 0x16, 0xc8, 0x20, 0xe6, 0xf5, 0x8f, 0x0d,
      0xac, 0xe9, 0x8f, 0x48, 0x11, 0x1e, 0x65, 0x38, 0xa3, 0xd7, 0xa2, 0x31,
      0xe5, 0x8e, 0x51, 0xbf]"

lemma length_founders_hashes [simp]:
  "length FOUNDERS_HASH_SHA3_384 = 48" "length FOUNDERS_HASH_SHA3_512 = 64"
  by (simp_all add: FOUNDERS_HASH_SHA3_384_def FOUNDERS_HASH_SHA3_512_def)

section \<open>Networks\<close>

datatype network = Mainnet | Testnet | Regnet | Prunetest

definition network_parse :: "string \<Rightarrow> network option" where
  "network_parse value =
     (if value \<in> {''mainnet'', ''atho-mainnet''} then Some Mainnet
      else if value \<in> {''testnet'', ''atho-testnet''} then Some Testnet
      else if value \<in> {''regnet'', ''regtest'', ''atho-regnet''} then Some Regnet
      else if value \<in> {''prunetest'', ''prune-test'', ''prune_test'', ''atho-prunetest''}
        then Some Prunetest
      else None)"

fun consensus_id :: "network \<Rightarrow> byte" where
  "consensus_id Mainnet = 1"
| "consensus_id Testnet = 2"
| "consensus_id Regnet = 3"
| "consensus_id Prunetest = 4"

definition from_consensus_id :: "byte \<Rightarrow> network option" where
  "from_consensus_id i =
     (if i = 1 then Some Mainnet
      else if i = 2 then Some Testnet
      else if i = 3 then Some Regnet
      else if i = 4 then Some Prunetest
      else None)"

fun network_name :: "network \<Rightarrow> string" where
  "network_name Mainnet = ''atho-mainnet''"
| "network_name Testnet = ''atho-testnet''"
| "network_name Regnet = ''atho-regnet''"
| "network_name Prunetest = ''atho-prunetest''"

fun domain_tag :: "network \<Rightarrow> string" where
  "domain_tag Mainnet = ''mainnet''"
| "domain_tag Testnet = ''testnet''"
| "domain_tag Regnet = ''regnet''"
| "domain_tag Prunetest = ''prunetest''"

definition cli_arg :: "network \<Rightarrow> string" where
  "cli_arg n = domain_tag n"

fun p2p_port :: "network \<Rightarrow> u16" where
  "p2p_port Mainnet = 56000"
| "p2p_port Testnet = 9100"
| "p2p_port Regnet = 9200"
| "p2p_port Prunetest = 9300"

fun rpc_port :: "network \<Rightarrow> u16" where
  "rpc_port Mainnet = 9010"
| "rpc_port Testnet = 9110"
| "rpc_port Regnet = 9210"
| "rpc_port Prunetest = 9310"

fun p2p_magic :: "network \<Rightarrow> bytes" where
  "p2p_magic Mainnet = [0xa7, 0x54, 0x48, 0x01]"
| "p2p_magic Testnet = [0xa7, 0x54, 0x48, 0x02]"
| "p2p_magic Regnet = [0xa7, 0x54, 0x48, 0x03]"
| "p2p_magic Prunetest = [0xa7, 0x54, 0x48, 0x04]"

definition from_p2p_magic :: "bytes \<Rightarrow> network option" where
  "from_p2p_magic magic = find (\<lambda>n. p2p_magic n = magic) [Mainnet, Testnet, Regnet, Prunetest]"

fun visible_prefix :: "network \<Rightarrow> char" where
  "visible_prefix Mainnet = CHR ''A''"
| "visible_prefix Testnet = CHR ''T''"
| "visible_prefix Regnet = CHR ''R''"
| "visible_prefix Prunetest = CHR ''P''"

fun internal_hpk_prefix :: "network \<Rightarrow> string" where
  "internal_hpk_prefix Mainnet = ''ATHO''"
| "internal_hpk_prefix Testnet = ''ATHT''"
| "internal_hpk_prefix Regnet = ''ATHT''"
| "internal_hpk_prefix Prunetest = ''ATHP''"

fun utxo_flag :: "network \<Rightarrow> string" where
  "utxo_flag Mainnet = []"
| "utxo_flag Testnet = ''TEST-UTXO''"
| "utxo_flag Regnet = ''REG-UTXO''"
| "utxo_flag Prunetest = ''PRUNE-UTXO''"

definition operator_default :: network where
  "operator_default = Testnet"

section \<open>Consensus parameters\<close>

record consensus_params =
  decimals :: usize
  atoms_per_atho :: u64
  max_supply_atho :: "u64 option"
  initial_block_reward_atoms :: u64
  halving_interval_blocks :: u64
  coinbase_maturity_blocks :: u64
  normal_tx_valid_after_confirmations :: u64
  default_wallet_min_confirmations :: u64
  default_safe_confirmations :: u64
  high_value_confirmations :: u64
  min_tx_fee_atoms :: u64
  block_time_seconds :: u64

definition CONSENSUS_PARAMS :: consensus_params where
  "CONSENSUS_PARAMS = \<lparr>
     decimals = DECIMALS,
     atoms_per_atho = ATOMS_PER_ATHO,
     max_supply_atho = None,
     initial_block_reward_atoms = INITIAL_BLOCK_REWARD_ATOMS,
     halving_interval_blocks = HALVING_INTERVAL_BLOCKS,
     coinbase_maturity_blocks = COINBASE_MATURITY_BLOCKS,
     normal_tx_valid_after_confirmations = NORMAL_TX_VALID_AFTER_CONFIRMATIONS,
     default_wallet_min_confirmations = DEFAULT_WALLET_MIN_CONFIRMATIONS,
     default_safe_confirmations = DEFAULT_SAFE_CONFIRMATIONS,
     high_value_confirmations = HIGH_VALUE_CONFIRMATIONS,
     min_tx_fee_atoms = MIN_TX_FEE_ATOMS,
     block_time_seconds = TARGET_BLOCK_TIME_SECONDS \<rparr>"

fun consensus_params_for_network :: "network \<Rightarrow> consensus_params" where
  "consensus_params_for_network Mainnet = CONSENSUS_PARAMS"
| "consensus_params_for_network Testnet = CONSENSUS_PARAMS"
| "consensus_params_for_network Regnet = CONSENSUS_PARAMS"
| "consensus_params_for_network Prunetest = CONSENSUS_PARAMS"

lemma consensus_params_shared [simp]: "consensus_params_for_network n = CONSENSUS_PARAMS"
  by (cases n) simp_all

section \<open>Isolation of the networks\<close>

lemma from_consensus_id_iff: "from_consensus_id i = Some n \<longleftrightarrow> i = consensus_id n"
  by (cases n) (auto simp: from_consensus_id_def)

lemma from_p2p_magic_iff: "from_p2p_magic m = Some n \<longleftrightarrow> m = p2p_magic n"
  by (cases n) (auto simp: from_p2p_magic_def)

lemma network_parse_names:
  "network_parse (network_name n) = Some n \<and> network_parse (cli_arg n) = Some n"
  by (cases n) (simp_all add: network_parse_def cli_arg_def)

lemma length_p2p_magic [simp]: "length (p2p_magic n) = 4"
  by (cases n) simp_all

end
