(* ===== verification/Transaction.thy ===== *)
theory Transaction
  imports Network
begin

text \<open>
  Transactions and witnesses (\<^verbatim>\<open>crates/atho-core/src/transaction.rs\<close>): the
  canonical encodings, their decoders over an explicit cursor, the size functions and the
  transaction identifiers. The codec results of this theory say that each decoder accepts
  exactly the canonical encodings of well-formed values.
\<close>

section \<open>Data\<close>

record witness_input_ref =
  input_index :: u32
  sig_ref_short :: bytes
  witness_commit_ref :: bytes

record signer_group =
  group_signature :: bytes
  group_pubkey :: bytes
  group_input_refs :: "witness_input_ref list"

record tx_witness =
  signature :: bytes
  pubkey :: bytes
  input_refs :: "witness_input_ref list"
  additional_signers :: "signer_group list"

record tx_input =
  previous_txid :: bytes
  output_index :: u32
  unlocking_script :: bytes

record tx_output =
  value_atoms :: u64
  locking_script :: bytes

record transaction =
  tx_version :: u16
  inputs :: "tx_input list"
  outputs :: "tx_output list"
  lock_time :: u32
  witness :: bytes
  tx_pow_nonce :: u64
  tx_pow_bits :: byte

definition WITNESS_INPUT_REF_BYTES :: usize where [simp]: "WITNESS_INPUT_REF_BYTES = 4 + 2 + 16"
definition MIN_TRANSACTION_INPUT_BYTES :: usize
  where [simp]: "MIN_TRANSACTION_INPUT_BYTES = 48 + 4 + 4"
definition MIN_TRANSACTION_OUTPUT_BYTES :: usize
  where [simp]: "MIN_TRANSACTION_OUTPUT_BYTES = 8 + 4"
definition MIN_ADDITIONAL_SIGNER_BYTES :: usize
  where [simp]: "MIN_ADDITIONAL_SIGNER_BYTES =
    4 + FALCON_512_SIGNATURE_BYTES + 4 + FALCON_512_PUBLIC_KEY_BYTES + 4"

section \<open>Witnesses\<close>

definition commitment_ref_bytes :: "witness_input_ref \<Rightarrow> bytes" where
  "commitment_ref_bytes r = u32_le (input_index r) @ sig_ref_short r"

definition write_commitment_bytes :: "tx_witness \<Rightarrow> bytes \<Rightarrow> bytes" where
  "write_commitment_bytes w out =
     out @ u32_le (len_u32 (length (signature w))) @ signature w
         @ u32_le (len_u32 (length (pubkey w))) @ pubkey w
         @ u32_le (len_u32 (length (input_refs w)))
         @ concat (map commitment_ref_bytes (input_refs w))
         @ u32_le (len_u32 (length (additional_signers w)))
         @ concat (map (\<lambda>g.
             u32_le (len_u32 (length (group_signature g))) @ group_signature g
             @ u32_le (len_u32 (length (group_pubkey g))) @ group_pubkey g
             @ u32_le (len_u32 (length (group_input_refs g)))
             @ concat (map commitment_ref_bytes (group_input_refs g))) (additional_signers w))"

definition update_commitment_hasher :: "tx_witness \<Rightarrow> bytes \<Rightarrow> bytes" where
  "update_commitment_hasher w hasher =
     (let refs = (\<lambda>rs h. foldl (\<lambda>h r. (h @ u32_le (input_index r)) @ sig_ref_short r) h rs);
          h = hasher @ u32_le (len_u32 (length (signature w)));
          h = h @ signature w;
          h = h @ u32_le (len_u32 (length (pubkey w)));
          h = h @ pubkey w;
          h = h @ u32_le (len_u32 (length (input_refs w)));
          h = refs (input_refs w) h;
          h = h @ u32_le (len_u32 (length (additional_signers w)))
      in foldl (\<lambda>h g.
           (let h = h @ u32_le (len_u32 (length (group_signature g)));
                h = h @ group_signature g;
                h = h @ u32_le (len_u32 (length (group_pubkey g)));
                h = h @ group_pubkey g;
                h = h @ u32_le (len_u32 (length (group_input_refs g)))
            in refs (group_input_refs g) h)) h (additional_signers w))"

definition witness_is_empty :: "tx_witness \<Rightarrow> bool" where
  "witness_is_empty w \<longleftrightarrow>
     signature w = [] \<and> pubkey w = [] \<and> input_refs w = [] \<and> additional_signers w = []"

definition signer_group_count :: "tx_witness \<Rightarrow> usize" where
  "signer_group_count w = (if witness_is_empty w then 0 else 1 + length (additional_signers w))"

definition total_input_refs :: "tx_witness \<Rightarrow> usize" where
  "total_input_refs w =
     length (input_refs w) + sum_list (map (length \<circ> group_input_refs) (additional_signers w))"

text \<open>\<open>for_each_signer_group\<close>: the groups in the order the visitor sees them.\<close>

definition signer_groups :: "tx_witness \<Rightarrow> (bytes \<times> bytes \<times> witness_input_ref list) list" where
  "signer_groups w =
     (if \<not> witness_is_empty w
      then (signature w, pubkey w, input_refs w)
           # map (\<lambda>g. (group_signature g, group_pubkey g, group_input_refs g)) (additional_signers w)
      else [])"

definition for_each_input_ref_mut ::
    "(witness_input_ref \<Rightarrow> witness_input_ref) \<Rightarrow> tx_witness \<Rightarrow> tx_witness" where
  "for_each_input_ref_mut visitor w =
     w\<lparr>input_refs := map visitor (input_refs w),
       additional_signers :=
         map (\<lambda>g. g\<lparr>group_input_refs := map visitor (group_input_refs g)\<rparr>) (additional_signers w)\<rparr>"

definition input_ref_bytes :: "witness_input_ref \<Rightarrow> bytes" where
  "input_ref_bytes r = u32_le (input_index r) @ sig_ref_short r @ witness_commit_ref r"

definition signer_group_bytes :: "signer_group \<Rightarrow> bytes" where
  "signer_group_bytes g =
     u32_le (len_u32 (length (group_signature g))) @ group_signature g
     @ u32_le (len_u32 (length (group_pubkey g))) @ group_pubkey g
     @ u32_le (len_u32 (length (group_input_refs g)))
     @ concat (map input_ref_bytes (group_input_refs g))"

definition witness_canonical_bytes :: "tx_witness \<Rightarrow> bytes" where
  "witness_canonical_bytes w =
     u32_le (len_u32 (length (signature w))) @ signature w
     @ u32_le (len_u32 (length (pubkey w))) @ pubkey w
     @ u32_le (len_u32 (length (input_refs w)))
     @ concat (map input_ref_bytes (input_refs w))
     @ u32_le (len_u32 (length (additional_signers w)))
     @ concat (map signer_group_bytes (additional_signers w))"

definition witness_compact_bytes :: "tx_witness \<Rightarrow> bytes" where
  "witness_compact_bytes w =
     (let refs = (\<lambda>rs out. foldl (\<lambda>out r.
              out @ u32_le (input_index r) @ sig_ref_short r @ witness_commit_ref r) out rs);
          out = write_compact_size [] (length (signature w)) @ signature w;
          out = write_compact_size out (length (pubkey w)) @ pubkey w;
          out = refs (input_refs w) (write_compact_size out (length (input_refs w)));
          out = write_compact_size out (length (additional_signers w))
      in foldl (\<lambda>out g.
           (let out = write_compact_size out (length (group_signature g)) @ group_signature g;
                out = write_compact_size out (length (group_pubkey g)) @ group_pubkey g
            in refs (group_input_refs g) (write_compact_size out (length (group_input_refs g)))))
           out (additional_signers w))"

definition commitment_bytes :: "tx_witness \<Rightarrow> bytes" where
  "commitment_bytes w = write_commitment_bytes w []"

subsection \<open>Decoding a witness\<close>

definition read_input_ref :: "bytes \<Rightarrow> usize \<Rightarrow> (witness_input_ref \<times> usize) option" where
  "read_input_ref bs off = do {
     (index, off) \<leftarrow> read_u32 bs off;
     (short, off) \<leftarrow> read_array 2 bs off;
     (commit, off) \<leftarrow> read_array 16 bs off;
     Some (\<lparr>input_index = index, sig_ref_short = short, witness_commit_ref = commit\<rparr>, off)
   }"

definition read_signer_group :: "usize \<Rightarrow> bytes \<Rightarrow> usize \<Rightarrow> (signer_group \<times> usize) option" where
  "read_signer_group total_ref_count bs off = do {
     (signature_len, off) \<leftarrow> read_u32 bs off;
     if unat signature_len \<noteq> FALCON_512_SIGNATURE_BYTES then None else do {
     (sig, off) \<leftarrow> read_vec bs off (unat signature_len);
     (pubkey_len, off) \<leftarrow> read_u32 bs off;
     if unat pubkey_len \<noteq> FALCON_512_PUBLIC_KEY_BYTES then None else do {
     (key, off) \<leftarrow> read_vec bs off (unat pubkey_len);
     (group_ref_count, off) \<leftarrow> read_u32 bs off;
     total \<leftarrow> usize_checked_add total_ref_count (unat group_ref_count);
     if total > MAX_WITNESS_INPUT_REFS then None
     else if unat group_ref_count > (length bs - off) div WITNESS_INPUT_REF_BYTES then None
     else do {
     (refs, off) \<leftarrow> read_many (unat group_ref_count) read_input_ref bs off;
     Some (\<lparr>group_signature = sig, group_pubkey = key, group_input_refs = refs\<rparr>, off)
     }}}
   }"

fun read_signer_groups ::
    "nat \<Rightarrow> usize \<Rightarrow> bytes \<Rightarrow> usize \<Rightarrow> (signer_group list \<times> usize) option" where
  "read_signer_groups 0 total_ref_count bs off = Some ([], off)"
| "read_signer_groups (Suc n) total_ref_count bs off = do {
     (g, off) \<leftarrow> read_signer_group total_ref_count bs off;
     (gs, off) \<leftarrow> read_signer_groups n (total_ref_count + length (group_input_refs g)) bs off;
     Some (g # gs, off)
   }"

text \<open>The part of \<open>from_bytes\<close> up to the check that the whole input was read.\<close>

definition read_witness :: "bytes \<Rightarrow> usize \<Rightarrow> (tx_witness \<times> usize) option" where
  "read_witness bs off = do {
     (sig_len, off) \<leftarrow> read_u32 bs off;
     if unat sig_len \<noteq> FALCON_512_SIGNATURE_BYTES then None else do {
     (sig, off) \<leftarrow> read_vec bs off (unat sig_len);
     (pubkey_len, off) \<leftarrow> read_u32 bs off;
     if unat pubkey_len \<noteq> FALCON_512_PUBLIC_KEY_BYTES then None else do {
     (key, off) \<leftarrow> read_vec bs off (unat pubkey_len);
     (ref_count, off) \<leftarrow> read_u32 bs off;
     if unat ref_count > MAX_WITNESS_INPUT_REFS then None
     else if unat ref_count > (length bs - off) div WITNESS_INPUT_REF_BYTES then None
     else do {
     (refs, off) \<leftarrow> read_many (unat ref_count) read_input_ref bs off;
     (additional_group_count, off) \<leftarrow> read_u32 bs off;
     if unat additional_group_count > (length bs - off) div max MIN_ADDITIONAL_SIGNER_BYTES 1 then None
     else do {
     (groups, off) \<leftarrow> read_signer_groups (unat additional_group_count) (unat ref_count) bs off;
     Some (\<lparr>signature = sig, pubkey = key, input_refs = refs, additional_signers = groups\<rparr>, off)
     }}}}
   }"

definition witness_from_bytes :: "bytes \<Rightarrow> tx_witness option" where
  "witness_from_bytes bs = do {
     (w, off) \<leftarrow> read_witness bs 0;
     if off \<noteq> length bs then None else Some w
   }"

section \<open>Transactions\<close>

definition is_coinbase :: "transaction \<Rightarrow> bool" where
  "is_coinbase tx \<longleftrightarrow> inputs tx = []"

fun checked_sum :: "u64 \<Rightarrow> u64 list \<Rightarrow> u64 option" where
  "checked_sum acc [] = Some acc"
| "checked_sum acc (v # vs) = do { acc \<leftarrow> checked_add acc v; checked_sum acc vs }"

definition checked_output_value_atoms :: "transaction \<Rightarrow> u64 option" where
  "checked_output_value_atoms tx = checked_sum 0 (map value_atoms (outputs tx))"

definition tx_input_bytes :: "tx_input \<Rightarrow> bytes" where
  "tx_input_bytes i =
     previous_txid i @ u32_le (output_index i)
     @ u32_le (len_u32 (length (unlocking_script i))) @ unlocking_script i"

definition tx_output_bytes :: "tx_output \<Rightarrow> bytes" where
  "tx_output_bytes out =
     u64_le (value_atoms out)
     @ u32_le (len_u32 (length (locking_script out))) @ locking_script out"

definition write_base_bytes :: "transaction \<Rightarrow> bytes \<Rightarrow> bytes" where
  "write_base_bytes tx out =
     out @ u16_le (tx_version tx)
     @ u32_le (len_u32 (length (inputs tx))) @ concat (map tx_input_bytes (inputs tx))
     @ u32_le (len_u32 (length (outputs tx))) @ concat (map tx_output_bytes (outputs tx))
     @ u32_le (lock_time tx)"

definition tx_base_bytes :: "transaction \<Rightarrow> bytes" where
  "tx_base_bytes tx = write_base_bytes tx []"

definition tx_canonical_bytes :: "transaction \<Rightarrow> bytes" where
  "tx_canonical_bytes tx = tx_base_bytes tx"

definition update_base_hasher :: "transaction \<Rightarrow> bytes \<Rightarrow> bytes" where
  "update_base_hasher tx hasher =
     (let h = hasher @ u16_le (tx_version tx);
          h = h @ u32_le (len_u32 (length (inputs tx)));
          h = foldl (\<lambda>h i. (((h @ previous_txid i) @ u32_le (output_index i))
                @ u32_le (len_u32 (length (unlocking_script i)))) @ unlocking_script i) h (inputs tx);
          h = h @ u32_le (len_u32 (length (outputs tx)));
          h = foldl (\<lambda>h out. ((h @ u64_le (value_atoms out))
                @ u32_le (len_u32 (length (locking_script out)))) @ locking_script out) h (outputs tx)
      in h @ u32_le (lock_time tx))"

definition tx_base_size_bytes :: "transaction \<Rightarrow> usize" where
  "tx_base_size_bytes tx =
     2 + 4 + sum_list (map (\<lambda>i. 48 + 4 + 4 + length (unlocking_script i)) (inputs tx))
     + 4 + sum_list (map (\<lambda>out. 8 + 4 + length (locking_script out)) (outputs tx))
     + 4"

definition tx_full_size_bytes :: "transaction \<Rightarrow> usize" where
  "tx_full_size_bytes tx =
     2 + 2 + 4 + sum_list (map (\<lambda>i. 48 + 4 + 4 + length (unlocking_script i)) (inputs tx))
     + 4 + sum_list (map (\<lambda>out. 8 + 4 + length (locking_script out)) (outputs tx))
     + 4 + length (witness tx) + 4 + TX_POW_NONCE_BYTES + TX_POW_BITS_BYTES"

definition write_full_bytes_without_pow_fields :: "transaction \<Rightarrow> bytes \<Rightarrow> bytes" where
  "write_full_bytes_without_pow_fields tx out =
     out @ u16_le (tx_version tx) @ [0x00] @ [0x01]
     @ u32_le (len_u32 (length (inputs tx))) @ concat (map tx_input_bytes (inputs tx))
     @ u32_le (len_u32 (length (outputs tx))) @ concat (map tx_output_bytes (outputs tx))
     @ u32_le (len_u32 (length (witness tx))) @ witness tx
     @ u32_le (lock_time tx)"

definition tx_full_bytes :: "transaction \<Rightarrow> bytes" where
  "tx_full_bytes tx =
     write_full_bytes_without_pow_fields tx [] @ u64_le (tx_pow_nonce tx) @ [tx_pow_bits tx]"

definition update_full_hasher :: "transaction \<Rightarrow> bytes \<Rightarrow> bytes" where
  "update_full_hasher tx hasher =
     (let h = hasher @ u16_le (tx_version tx);
          h = h @ [0x00, 0x01];
          h = h @ u32_le (len_u32 (length (inputs tx)));
          h = foldl (\<lambda>h i. (((h @ previous_txid i) @ u32_le (output_index i))
                @ u32_le (len_u32 (length (unlocking_script i)))) @ unlocking_script i) h (inputs tx);
          h = h @ u32_le (len_u32 (length (outputs tx)));
          h = foldl (\<lambda>h out. ((h @ u64_le (value_atoms out))
                @ u32_le (len_u32 (length (locking_script out)))) @ locking_script out) h (outputs tx);
          h = h @ u32_le (len_u32 (length (witness tx)));
          h = h @ witness tx;
          h = h @ u32_le (lock_time tx);
          h = h @ u64_le (tx_pow_nonce tx)
      in h @ [tx_pow_bits tx])"

definition tx_compact_size_bytes :: "transaction \<Rightarrow> usize" where
  "tx_compact_size_bytes tx =
     2 + compact_size_len (length (inputs tx))
     + sum_list (map (\<lambda>i. 48 + 4 + compact_size_len (length (unlocking_script i))
         + length (unlocking_script i)) (inputs tx))
     + compact_size_len (length (outputs tx))
     + sum_list (map (\<lambda>out. 8 + compact_size_len (length (locking_script out))
         + length (locking_script out)) (outputs tx))
     + 4 + compact_size_len (length (witness tx)) + length (witness tx)
     + TX_POW_NONCE_BYTES + TX_POW_BITS_BYTES"

definition tx_compact_bytes :: "transaction \<Rightarrow> bytes" where
  "tx_compact_bytes tx =
     (let out = u16_le (tx_version tx);
          out = write_compact_size out (length (inputs tx));
          out = foldl (\<lambda>out i.
              write_compact_size (out @ previous_txid i @ u32_le (output_index i))
                (length (unlocking_script i)) @ unlocking_script i) out (inputs tx);
          out = write_compact_size out (length (outputs tx));
          out = foldl (\<lambda>out o'.
              write_compact_size (out @ u64_le (value_atoms o')) (length (locking_script o'))
                @ locking_script o') out (outputs tx);
          out = out @ u32_le (lock_time tx);
          out = write_compact_size out (length (witness tx)) @ witness tx
      in out @ u64_le (tx_pow_nonce tx) @ [tx_pow_bits tx])"

definition tx_weight_bytes :: "transaction \<Rightarrow> usize" where
  "tx_weight_bytes tx =
     usize_sat_add (usize_sat_mul (tx_base_size_bytes tx) 3) (tx_full_size_bytes tx)"

definition tx_vsize_bytes :: "transaction \<Rightarrow> usize" where
  "tx_vsize_bytes tx = usize_sat_add (tx_weight_bytes tx) 3 div 4"

definition feerate_atoms_per_vbyte :: "transaction \<Rightarrow> u64 \<Rightarrow> u64 \<times> usize" where
  "feerate_atoms_per_vbyte tx fee_atoms =
     (let vsize = max (tx_vsize_bytes tx) 1 in (fee_atoms div word_of_nat vsize, vsize))"

definition txid :: "primitives \<Rightarrow> transaction \<Rightarrow> bytes" where
  "txid P tx = sha3_384 P (update_base_hasher tx [])"

definition wtxid :: "primitives \<Rightarrow> transaction \<Rightarrow> bytes" where
  "wtxid P tx = sha3_384 P (update_full_hasher tx [])"

definition witness_payload :: "transaction \<Rightarrow> tx_witness option" where
  "witness_payload tx = (if witness tx = [] then None else witness_from_bytes (witness tx))"

definition witness_commitment_hash :: "primitives \<Rightarrow> transaction \<Rightarrow> bytes" where
  "witness_commitment_hash P tx =
     (let h = update_base_hasher tx [];
          no_pow = (witness tx = [] \<and> tx_pow_nonce tx = 0 \<and> tx_pow_bits tx = 0);
          h = (if no_pow then h
               else if witness tx = [] then h @ [0]
               else case witness_payload tx of
                 Some w \<Rightarrow> update_commitment_hasher w (h @ [1])
               | None \<Rightarrow> h @ [2] @ u32_le (len_u32 (length (witness tx))) @ witness tx);
          h = (if \<not> no_pow then h @ u64_le (tx_pow_nonce tx) @ [tx_pow_bits tx] else h)
      in sha3_384 P h)"

definition update_signing_hasher_for_input_indexes :: "transaction \<Rightarrow> bytes \<Rightarrow> u32 list \<Rightarrow> bytes" where
  "update_signing_hasher_for_input_indexes tx hasher input_indexes =
     foldl (\<lambda>h i. h @ u32_le i)
       (update_base_hasher tx hasher @ u32_le (len_u32 (length input_indexes))) input_indexes"

definition signing_digest :: "primitives \<Rightarrow> transaction \<Rightarrow> bytes" where
  "signing_digest P tx =
     sha3_384 P (foldl (\<lambda>h i. h @ u32_le (len_u32 i))
       (update_base_hasher tx [] @ u32_le (len_u32 (length (inputs tx)))) [0..<length (inputs tx)])"

definition signing_digest_for_input_indexes :: "primitives \<Rightarrow> transaction \<Rightarrow> u32 list \<Rightarrow> bytes" where
  "signing_digest_for_input_indexes P tx input_indexes =
     sha3_384 P (update_signing_hasher_for_input_indexes tx [] input_indexes)"

subsection \<open>Decoding a transaction\<close>

definition read_tx_input :: "bytes \<Rightarrow> usize \<Rightarrow> (tx_input \<times> usize) option" where
  "read_tx_input bs off = do {
     (prev, off) \<leftarrow> read_array 48 bs off;
     (index, off) \<leftarrow> read_u32 bs off;
     (unlocking_len, off) \<leftarrow> read_u32 bs off;
     (script, off) \<leftarrow> read_vec bs off (unat unlocking_len);
     Some (\<lparr>previous_txid = prev, output_index = index, unlocking_script = script\<rparr>, off)
   }"

definition read_tx_output :: "bytes \<Rightarrow> usize \<Rightarrow> (tx_output \<times> usize) option" where
  "read_tx_output bs off = do {
     (atoms, off) \<leftarrow> read_u64 bs off;
     (locking_len, off) \<leftarrow> read_u32 bs off;
     (script, off) \<leftarrow> read_vec bs off (unat locking_len);
     Some (\<lparr>value_atoms = atoms, locking_script = script\<rparr>, off)
   }"

definition read_transaction :: "bytes \<Rightarrow> usize \<Rightarrow> (transaction \<times> usize) option" where
  "read_transaction bs off = do {
     (version, off) \<leftarrow> read_u16 bs off;
     (marker, off) \<leftarrow> read_array 2 bs off;
     if marker \<noteq> [0x00, 0x01] then None else do {
     (input_count, off) \<leftarrow> read_u32 bs off;
     if unat input_count > (length bs - off) div MIN_TRANSACTION_INPUT_BYTES then None else do {
     (ins, off) \<leftarrow> read_many (unat input_count) read_tx_input bs off;
     (output_count, off) \<leftarrow> read_u32 bs off;
     if unat output_count > (length bs - off) div MIN_TRANSACTION_OUTPUT_BYTES then None else do {
     (outs, off) \<leftarrow> read_many (unat output_count) read_tx_output bs off;
     (witness_len, off) \<leftarrow> read_u32 bs off;
     (wit, off) \<leftarrow> read_vec bs off (unat witness_len);
     if wit \<noteq> [] \<and> witness_from_bytes wit = None then None else do {
     (lock, off) \<leftarrow> read_u32 bs off;
     (pow_nonce, off) \<leftarrow> read_u64 bs off;
     (pow_bits, off) \<leftarrow> read_byte bs off;
     Some (\<lparr>tx_version = version, inputs = ins, outputs = outs, lock_time = lock,
            witness = wit, tx_pow_nonce = pow_nonce, tx_pow_bits = pow_bits\<rparr>, off)
     }}}}
   }"

definition tx_from_full_bytes :: "bytes \<Rightarrow> transaction option" where
  "tx_from_full_bytes bs = do {
     (tx, off) \<leftarrow> read_transaction bs 0;
     if off \<noteq> length bs then None else Some tx
   }"

section \<open>Encodings decode\<close>

definition input_ref_ok :: "witness_input_ref \<Rightarrow> bool" where
  "input_ref_ok r \<longleftrightarrow> length (sig_ref_short r) = 2 \<and> length (witness_commit_ref r) = 16"

definition signer_group_ok :: "usize \<Rightarrow> signer_group \<Rightarrow> bool" where
  "signer_group_ok total_ref_count g \<longleftrightarrow>
     length (group_signature g) = FALCON_512_SIGNATURE_BYTES
     \<and> length (group_pubkey g) = FALCON_512_PUBLIC_KEY_BYTES
     \<and> total_ref_count + length (group_input_refs g) \<le> MAX_WITNESS_INPUT_REFS
     \<and> list_all input_ref_ok (group_input_refs g)"

definition tx_witness_ok :: "tx_witness \<Rightarrow> bool" where
  "tx_witness_ok w \<longleftrightarrow>
     length (signature w) = FALCON_512_SIGNATURE_BYTES
     \<and> length (pubkey w) = FALCON_512_PUBLIC_KEY_BYTES
     \<and> total_input_refs w \<le> MAX_WITNESS_INPUT_REFS
     \<and> list_all input_ref_ok (input_refs w)
     \<and> length (additional_signers w) < u32_bound
     \<and> list_all (signer_group_ok 0) (additional_signers w)"

definition tx_input_ok :: "tx_input \<Rightarrow> bool" where
  "tx_input_ok i \<longleftrightarrow> length (previous_txid i) = 48 \<and> length (unlocking_script i) < u32_bound"

definition tx_output_ok :: "tx_output \<Rightarrow> bool" where
  "tx_output_ok out \<longleftrightarrow> length (locking_script out) < u32_bound"

definition tx_ok :: "transaction \<Rightarrow> bool" where
  "tx_ok tx \<longleftrightarrow>
     length (inputs tx) < u32_bound \<and> list_all tx_input_ok (inputs tx)
     \<and> length (outputs tx) < u32_bound \<and> list_all tx_output_ok (outputs tx)
     \<and> length (witness tx) < u32_bound
     \<and> (witness tx \<noteq> [] \<longrightarrow> witness_from_bytes (witness tx) \<noteq> None)"

interpretation input_ref: codec input_ref_bytes read_input_ref input_ref_ok
proof (rule codec_cong)
  show "codec (\<lambda>z. u32_le (input_index z) @ sig_ref_short z @ witness_commit_ref z @ []) read_input_ref
    (\<lambda>z. True \<and> length (sig_ref_short z) = 2 \<and> length (witness_commit_ref z) = 16
       \<and> z = \<lparr>input_index = input_index z, sig_ref_short = sig_ref_short z,
              witness_commit_ref = witness_commit_ref z\<rparr>)"
    unfolding read_input_ref_def [abs_def]
    by (rule codec_bind u32c.codec_axioms array.codec_axioms codec_return
        | simp | metis witness_input_ref.select_convs)+
qed (simp_all add: input_ref_ok_def input_ref_bytes_def)

interpretation tx_input: codec tx_input_bytes read_tx_input tx_input_ok
proof (rule codec_cong)
  show "codec (\<lambda>z. previous_txid z @ u32_le (output_index z)
      @ u32_le (len_u32 (length (unlocking_script z))) @ unlocking_script z @ []) read_tx_input
    (\<lambda>z. length (previous_txid z) = 48 \<and> True \<and> True
       \<and> length (unlocking_script z) = unat (len_u32 (length (unlocking_script z)))
       \<and> z = \<lparr>previous_txid = previous_txid z, output_index = output_index z,
              unlocking_script = unlocking_script z\<rparr>)"
    unfolding read_tx_input_def [abs_def]
    by (rule codec_bind u32c.codec_axioms array.codec_axioms codec_read_vec codec_return
        | simp | metis tx_input.select_convs)+
qed (auto simp add: tx_input_ok_def tx_input_bytes_def)

interpretation tx_output: codec tx_output_bytes read_tx_output tx_output_ok
proof (rule codec_cong)
  show "codec (\<lambda>z. u64_le (value_atoms z)
      @ u32_le (len_u32 (length (locking_script z))) @ locking_script z @ []) read_tx_output
    (\<lambda>z. True \<and> True
       \<and> length (locking_script z) = unat (len_u32 (length (locking_script z)))
       \<and> z = \<lparr>value_atoms = value_atoms z, locking_script = locking_script z\<rparr>)"
    unfolding read_tx_output_def [abs_def]
    by (rule codec_bind u64c.codec_axioms u32c.codec_axioms codec_read_vec codec_return
        | simp | metis tx_output.select_convs)+
qed (auto simp add: tx_output_ok_def tx_output_bytes_def)

lemma length_input_refs_bytes [size_simps]:
  "list_all input_ref_ok rs \<Longrightarrow> length (concat (map input_ref_bytes rs)) = length rs * 22"
  by (induction rs) (simp_all add: input_ref_ok_def input_ref_bytes_def)

interpretation signer_group: codec signer_group_bytes "read_signer_group total_ref_count"
  "signer_group_ok total_ref_count" for total_ref_count
  apply (rule codec_cong)
    apply (unfold read_signer_group_def [abs_def] usize_checked_add_def)
    apply (rule codec_bind [where f = "\<lambda>z. len_u32 (length (group_signature z))"],
      rule u32c.codec_axioms)
     apply (rule codec_guard)
     apply (rule codec_bind [where f = group_signature], rule codec_read_vec)
      apply (rule codec_bind [where f = "\<lambda>z. len_u32 (length (group_pubkey z))"],
      rule u32c.codec_axioms)
     apply (rule codec_guard)
     apply (rule codec_bind [where f = group_pubkey], rule codec_read_vec)
      apply (rule codec_bind [where f = "\<lambda>z. len_u32 (length (group_input_refs z))"],
      rule u32c.codec_axioms)
     apply (rule codec_require [where f = "\<lambda>z. total_ref_count + length (group_input_refs z)"])
     apply (rule codec_guard)
     apply (rule codec_capacity)
     apply (rule codec_bind [where f = group_input_refs], rule codec_read_many, rule input_ref.codec_axioms)
      apply (rule codec_return)
              apply (auto simp: length_input_refs_bytes signer_group_ok_def signer_group_bytes_def
      len_u32_small intro!: len_u32_eqI)
   apply (metis signer_group.select_convs)+
  done

fun signer_groups_ok :: "usize \<Rightarrow> signer_group list \<Rightarrow> bool" where
  "signer_groups_ok total_ref_count [] = True"
| "signer_groups_ok total_ref_count (g # gs) =
     (signer_group_ok total_ref_count g
      \<and> signer_groups_ok (total_ref_count + length (group_input_refs g)) gs)"

lemma signer_groups_ok_iff:
  "n \<le> MAX_WITNESS_INPUT_REFS \<Longrightarrow> signer_groups_ok n gs \<longleftrightarrow>
     list_all (signer_group_ok 0) gs
     \<and> n + sum_list (map (length \<circ> group_input_refs) gs) \<le> MAX_WITNESS_INPUT_REFS"
  by (induction gs arbitrary: n) (auto simp: signer_group_ok_def)

lemma codec_read_signer_groups:
  "codec (\<lambda>gs. concat (map signer_group_bytes gs)) (read_signer_groups n total_ref_count)
     (\<lambda>gs. length gs = n \<and> signer_groups_ok total_ref_count gs)"
proof (induction n arbitrary: total_ref_count)
  case 0
  show ?case by (rule codec_cong, subst read_signer_groups.simps, rule codec_return) auto
next
  case (Suc n)
  show ?case
  proof (rule codec_cong)
    show "codec (\<lambda>z. signer_group_bytes (hd z) @ concat (map signer_group_bytes (tl z)) @ [])
      (read_signer_groups (Suc n) total_ref_count)
      (\<lambda>z. signer_group_ok total_ref_count (hd z)
        \<and> (length (tl z) = n
            \<and> signer_groups_ok (total_ref_count + length (group_input_refs (hd z))) (tl z))
        \<and> z = hd z # tl z)"
      unfolding read_signer_groups.simps
      apply (rule codec_bind [where f = hd], rule signer_group.codec_axioms)
       apply (rule codec_bind [where f = tl], rule Suc.IH)
        apply (rule codec_return)
       apply (metis list.sel)+
      done
  next
    fix gs
    show "(signer_group_ok total_ref_count (hd gs)
        \<and> (length (tl gs) = n
            \<and> signer_groups_ok (total_ref_count + length (group_input_refs (hd gs))) (tl gs))
        \<and> gs = hd gs # tl gs) = (length gs = Suc n \<and> signer_groups_ok total_ref_count gs)"
      by (cases gs) auto
  next
    fix gs
    assume "length gs = Suc n \<and> signer_groups_ok total_ref_count gs"
    then show "signer_group_bytes (hd gs) @ concat (map signer_group_bytes (tl gs)) @ [] =
      concat (map signer_group_bytes gs)"
      by (cases gs) auto
  qed
qed

lemma length_signer_groups_bytes:
  "signer_groups_ok n gs \<Longrightarrow> length gs * 1575 \<le> length (concat (map signer_group_bytes gs))"
proof (induction gs arbitrary: n)
  case (Cons g gs)
  then have "length gs * 1575 \<le> length (concat (map signer_group_bytes gs))" by auto
  moreover have "1575 \<le> length (signer_group_bytes g)"
    using Cons.prems by (simp add: signer_group_ok_def signer_group_bytes_def)
  ultimately show ?case by simp
qed simp

interpretation witnessc: codec witness_canonical_bytes read_witness tx_witness_ok
  apply (rule codec_cong)
    apply (unfold read_witness_def [abs_def])
    apply (rule codec_bind [where f = "\<lambda>z. len_u32 (length (signature z))"], rule u32c.codec_axioms)
     apply (rule codec_guard)
     apply (rule codec_bind [where f = signature], rule codec_read_vec)
      apply (rule codec_bind [where f = "\<lambda>z. len_u32 (length (pubkey z))"], rule u32c.codec_axioms)
     apply (rule codec_guard)
     apply (rule codec_bind [where f = pubkey], rule codec_read_vec)
      apply (rule codec_bind [where f = "\<lambda>z. len_u32 (length (input_refs z))"], rule u32c.codec_axioms)
     apply (rule codec_guard)
     apply (rule codec_capacity)
     apply (rule codec_bind [where f = input_refs], rule codec_read_many, rule input_ref.codec_axioms)
      apply (rule codec_bind [where f = "\<lambda>z. len_u32 (length (additional_signers z))"],
      rule u32c.codec_axioms)
     apply (rule codec_capacity)
     apply (rule codec_bind [where f = additional_signers], rule codec_read_signer_groups)
      apply (rule codec_return)


               apply ((rule len_u32_eqI, blast) | (simp; fail)
      | (elim conjE, drule length_signer_groups_bytes, simp; fail)
      | (elim conjE, simp add: length_input_refs_bytes; fail)
      | (elim conjE, drule arg_cong [where f = input_refs], simp; fail)
      | (elim conjE, drule arg_cong [where f = pubkey], simp; fail)
      | (elim conjE, drule arg_cong [where f = signature], simp; fail))+
  subgoal for z
    using signer_groups_ok_iff [of "length (input_refs z)" "additional_signers z"]
    by (auto simp: tx_witness_ok_def total_input_refs_def len_u32_small)
  subgoal by (simp add: witness_canonical_bytes_def)
  done


lemma length_tx_inputs_bytes:
  "list_all tx_input_ok xs \<Longrightarrow> length xs * 56 \<le> length (concat (map tx_input_bytes xs))"
  by (induction xs) (auto simp: tx_input_ok_def tx_input_bytes_def)

lemma length_tx_outputs_bytes:
  "length xs * 12 \<le> length (concat (map tx_output_bytes xs))"
  by (induction xs) (auto simp: tx_output_bytes_def)

interpretation transactionc: codec tx_full_bytes read_transaction tx_ok
  apply (rule codec_cong)
    apply (unfold read_transaction_def [abs_def])
    apply (rule codec_bind [where f = tx_version], rule u16c.codec_axioms)
     apply (rule codec_bind [where f = "\<lambda>z. [0x00, 0x01]"], rule array.codec_axioms)
      apply (rule codec_guard)
      apply (rule codec_bind [where f = "\<lambda>z. len_u32 (length (inputs z))"], rule u32c.codec_axioms)
       apply (rule codec_capacity)
       apply (rule codec_bind [where f = inputs], rule codec_read_many, rule tx_input.codec_axioms)
        apply (rule codec_bind [where f = "\<lambda>z. len_u32 (length (outputs z))"], rule u32c.codec_axioms)
       apply (rule codec_capacity)
       apply (rule codec_bind [where f = outputs], rule codec_read_many, rule tx_output.codec_axioms)
        apply (rule codec_bind [where f = "\<lambda>z. len_u32 (length (witness z))"], rule u32c.codec_axioms)
       apply (rule codec_bind [where f = witness], rule codec_read_vec)
        apply (rule codec_guard)
        apply (rule codec_bind [where f = lock_time], rule u32c.codec_axioms)
         apply (rule codec_bind [where f = tx_pow_nonce], rule u64c.codec_axioms)
          apply (rule codec_bind [where f = tx_pow_bits], rule bytec.codec_axioms)
           apply (rule codec_return)
                       apply ((rule len_u32_eqI, blast) | (simp; fail)
      | (elim conjE, drule length_tx_inputs_bytes, simp; fail)
      | (elim conjE, cut_tac xs = "outputs z" in length_tx_outputs_bytes, simp; fail)
      | (elim conjE, drule arg_cong [where f = tx_pow_nonce], simp; fail)
      | (elim conjE, drule arg_cong [where f = lock_time], simp; fail)
      | (elim conjE, drule arg_cong [where f = witness], simp; fail)
      | (elim conjE, drule arg_cong [where f = outputs], simp; fail)
      | (elim conjE, drule arg_cong [where f = inputs], simp; fail)
      | (elim conjE, drule arg_cong [where f = tx_version], simp; fail))+
  subgoal by (auto simp: tx_ok_def)
  subgoal by (simp add: tx_full_bytes_def write_full_bytes_without_pow_fields_def)
  done
section \<open>Streaming hashers and size functions\<close>

lemma foldl_append_concat: "foldl (\<lambda>h x. h @ g x) h xs = h @ concat (map g xs)"
  by (induction xs arbitrary: h) simp_all

lemma update_base_hasher_bytes: "update_base_hasher tx h = h @ tx_base_bytes tx"
  by (simp add: update_base_hasher_def tx_base_bytes_def write_base_bytes_def Let_def
      foldl_append_concat tx_input_bytes_def [abs_def] tx_output_bytes_def [abs_def])

lemma update_full_hasher_bytes: "update_full_hasher tx h = h @ tx_full_bytes tx"
  by (simp add: update_full_hasher_def tx_full_bytes_def write_full_bytes_without_pow_fields_def
      Let_def foldl_append_concat tx_input_bytes_def [abs_def] tx_output_bytes_def [abs_def])

lemma update_commitment_hasher_bytes: "update_commitment_hasher w h = h @ commitment_bytes w"
  by (simp add: update_commitment_hasher_def commitment_bytes_def write_commitment_bytes_def
      Let_def foldl_append_concat commitment_ref_bytes_def [abs_def])

lemma signing_hasher_bytes:
  "update_signing_hasher_for_input_indexes tx h is =
     h @ tx_base_bytes tx @ u32_le (len_u32 (length is)) @ concat (map u32_le is)"
  by (simp add: update_signing_hasher_for_input_indexes_def update_base_hasher_bytes foldl_append_concat)

lemma txid_base_bytes: "txid P tx = sha3_384 P (tx_base_bytes tx)"
  by (simp add: txid_def update_base_hasher_bytes)

lemma wtxid_full_bytes: "wtxid P tx = sha3_384 P (tx_full_bytes tx)"
  by (simp add: wtxid_def update_full_hasher_bytes)

lemma length_concat_sum: "length (concat (map f xs)) = sum_list (map (length \<circ> f) xs)"
  by (induction xs) simp_all

lemma inputs_bytes_size [size_simps]:
  "list_all (\<lambda>i. length (previous_txid i) = 48) xs \<Longrightarrow>
     length (concat (map tx_input_bytes xs)) =
       sum_list (map (\<lambda>i. 56 + length (unlocking_script i)) xs)"
  by (induction xs) (simp_all add: tx_input_bytes_def)

lemma outputs_bytes_size [size_simps]:
  "length (concat (map tx_output_bytes xs)) = sum_list (map (\<lambda>out. 12 + length (locking_script out)) xs)"
  by (induction xs) (simp_all add: tx_output_bytes_def)

lemma base_size_is_length [size_simps]:
  "list_all (\<lambda>i. length (previous_txid i) = 48) (inputs tx) \<Longrightarrow>
     length (tx_base_bytes tx) = tx_base_size_bytes tx"
  by (simp add: tx_base_bytes_def write_base_bytes_def tx_base_size_bytes_def inputs_bytes_size
      outputs_bytes_size)

lemma full_size_is_length [size_simps]:
  "list_all (\<lambda>i. length (previous_txid i) = 48) (inputs tx) \<Longrightarrow>
     length (tx_full_bytes tx) = tx_full_size_bytes tx"
  by (simp add: tx_full_bytes_def write_full_bytes_without_pow_fields_def tx_full_size_bytes_def
      inputs_bytes_size outputs_bytes_size)

lemma length_foldl_append:
  "(\<And>out x. length (step out x) = length out + size_of x) \<Longrightarrow>
     length (foldl step out xs) = length out + sum_list (map size_of xs)"
  by (induction xs arbitrary: out) simp_all

lemma length_foldl_append_on:
  "list_all ok xs \<Longrightarrow> (\<And>out x. ok x \<Longrightarrow> length (step out x) = length out + size_of x) \<Longrightarrow>
     length (foldl step out xs) = length out + sum_list (map size_of xs)"
  by (induction xs arbitrary: out) simp_all

lemma compact_size_is_length [size_simps]:
  assumes "list_all (\<lambda>i. length (previous_txid i) = 48) (inputs tx)"
  shows "length (tx_compact_bytes tx) = tx_compact_size_bytes tx"
proof -
  have ins: "length (foldl (\<lambda>out i. write_compact_size (out @ previous_txid i @ u32_le (output_index i))
        (length (unlocking_script i)) @ unlocking_script i) h (inputs tx)) =
      length h + sum_list (map (\<lambda>i. 48 + 4 + compact_size_len (length (unlocking_script i))
        + length (unlocking_script i)) (inputs tx))" for h
    by (rule length_foldl_append_on [OF assms]) simp
  have outs: "length (foldl (\<lambda>out o'. write_compact_size (out @ u64_le (value_atoms o'))
        (length (locking_script o')) @ locking_script o') h (outputs tx)) =
      length h + sum_list (map (\<lambda>out. 8 + compact_size_len (length (locking_script out))
        + length (locking_script out)) (outputs tx))" for h
    by (rule length_foldl_append) simp
  show ?thesis
    unfolding tx_compact_bytes_def tx_compact_size_bytes_def Let_def by (simp add: ins outs)
qed

lemma base_le_full_size: "tx_base_size_bytes tx + length (witness tx) + 15 = tx_full_size_bytes tx"
  by (simp add: tx_base_size_bytes_def tx_full_size_bytes_def)

lemma vsize_formula:
  assumes "3 * tx_base_size_bytes tx + tx_full_size_bytes tx + 3 < u64_bound"
  shows "tx_vsize_bytes tx = (3 * tx_base_size_bytes tx + tx_full_size_bytes tx + 3) div 4"
  using assms
  by (simp add: tx_vsize_bytes_def tx_weight_bytes_def usize_sat_add_def usize_sat_mul_def min_def)

section \<open>The base encoding is injective\<close>

text \<open>A reader for the base layout. The program hashes this layout and never decodes it; the
  reader is the reason that the layout is unambiguous.\<close>

definition read_base :: "bytes \<Rightarrow> usize \<Rightarrow> ((u16 \<times> tx_input list \<times> tx_output list \<times> u32) \<times> usize) option" where
  "read_base bs off = do {
     (version, off) \<leftarrow> read_u16 bs off;
     (input_count, off) \<leftarrow> read_u32 bs off;
     (ins, off) \<leftarrow> read_many (unat input_count) read_tx_input bs off;
     (output_count, off) \<leftarrow> read_u32 bs off;
     (outs, off) \<leftarrow> read_many (unat output_count) read_tx_output bs off;
     (lock, off) \<leftarrow> read_u32 bs off;
     Some ((version, ins, outs, lock), off)
   }"

definition base_part :: "transaction \<Rightarrow> u16 \<times> tx_input list \<times> tx_output list \<times> u32" where
  "base_part tx = (tx_version tx, inputs tx, outputs tx, lock_time tx)"

definition base_ok :: "transaction \<Rightarrow> bool" where
  "base_ok tx \<longleftrightarrow> length (inputs tx) < u32_bound \<and> list_all tx_input_ok (inputs tx)
     \<and> length (outputs tx) < u32_bound \<and> list_all tx_output_ok (outputs tx)
     \<and> tx_base_size_bytes tx < u64_bound"

lemma codec_read_base:
  "codec (\<lambda>(v, ins, outs, lock). u16_le v @ u32_le (len_u32 (length ins))
      @ concat (map tx_input_bytes ins) @ u32_le (len_u32 (length outs))
      @ concat (map tx_output_bytes outs) @ u32_le lock)
    read_base
    (\<lambda>(v, ins, outs, lock). length ins < u32_bound \<and> list_all tx_input_ok ins
      \<and> length outs < u32_bound \<and> list_all tx_output_ok outs)"
  apply (rule codec_cong)
    apply (unfold read_base_def [abs_def])
    apply (rule codec_bind [where f = fst], rule u16c.codec_axioms)
     apply (rule codec_bind [where f = "\<lambda>z. len_u32 (length (fst (snd z)))"], rule u32c.codec_axioms)
      apply (rule codec_bind [where f = "\<lambda>z. fst (snd z)"], rule codec_read_many, rule tx_input.codec_axioms)
       apply (rule codec_bind [where f = "\<lambda>z. len_u32 (length (fst (snd (snd z))))"], rule u32c.codec_axioms)
        apply (rule codec_bind [where f = "\<lambda>z. fst (snd (snd z))"], rule codec_read_many, rule tx_output.codec_axioms)
         apply (rule codec_bind [where f = "\<lambda>z. snd (snd (snd z))"], rule u32c.codec_axioms)
          apply (rule codec_return)
         apply (auto intro!: len_u32_eqI)
  done

lemma base_bytes_inject:
  assumes "base_ok a" and "base_ok b" and "tx_base_bytes a = tx_base_bytes b"
  shows "base_part a = base_part b"
proof -
  have dec: "read_base (tx_base_bytes tx) 0 = Some (base_part tx, length (tx_base_bytes tx))"
    if "base_ok tx" for tx
  proof -
    have "list_all (\<lambda>i. length (previous_txid i) = 48) (inputs tx)"
      using that by (auto simp: base_ok_def list_all_iff tx_input_ok_def)
    then have "length (tx_base_bytes tx) < u64_bound"
      using that by (simp add: base_size_is_length base_ok_def)
    with codec.decode_encoded [OF codec_read_base, of "base_part tx" "tx_base_bytes tx" 0 "[]"] that
    show ?thesis by (simp add: base_part_def base_ok_def tx_base_bytes_def write_base_bytes_def)
  qed
  from dec [OF assms(1)] dec [OF assms(2)] assms(3) show ?thesis by simp
qed

section \<open>Properties\<close>

lemma length_signer_groups_exact:
  "list_all (signer_group_ok 0) gs \<Longrightarrow> length (concat (map signer_group_bytes gs)) =
     length gs * 1575 + 22 * sum_list (map (length \<circ> group_input_refs) gs)"
  by (induction gs)
    (simp_all add: signer_group_ok_def signer_group_bytes_def length_input_refs_bytes)

lemma witness_length_bound:
  assumes "tx_witness_ok w" shows "length (witness_canonical_bytes w) < u64_bound"
proof -
  have "length (witness_canonical_bytes w) =
      1579 + 22 * total_input_refs w + length (additional_signers w) * 1575"
    using assms by (simp add: witness_canonical_bytes_def tx_witness_ok_def total_input_refs_def
        length_input_refs_bytes length_signer_groups_exact)
  moreover have "total_input_refs w \<le> 13796" and "length (additional_signers w) < u32_bound"
    using assms by (simp_all add: tx_witness_ok_def)
  ultimately show ?thesis by simp
qed

lemma witness_decoded_ok: "witness_from_bytes bs = Some w \<Longrightarrow> tx_witness_ok w \<and> bs = witness_canonical_bytes w"
proof -
  assume "witness_from_bytes bs = Some w"
  then have "read_witness bs 0 = Some (w, length bs)"
    by (auto simp: witness_from_bytes_def split: bind_splits if_splits)
  from witnessc.decoded_is_encoding [OF this] show ?thesis by simp
qed

lemma witness_encoded_decodes: "tx_witness_ok w \<Longrightarrow> witness_from_bytes (witness_canonical_bytes w) = Some w"
  using codec_exact [OF witnessc.codec_axioms witness_length_bound, of w w]
  by (simp add: witness_from_bytes_def)

lemma tx_decoded_ok: "tx_from_full_bytes bs = Some tx \<Longrightarrow> tx_ok tx \<and> bs = tx_full_bytes tx"
proof -
  assume "tx_from_full_bytes bs = Some tx"
  then have "read_transaction bs 0 = Some (tx, length bs)"
    by (auto simp: tx_from_full_bytes_def split: bind_splits if_splits)
  from transactionc.decoded_is_encoding [OF this] show ?thesis by simp
qed

lemma tx_encoded_decodes:
  "tx_ok tx \<Longrightarrow> length (tx_full_bytes tx) < u64_bound \<Longrightarrow> tx_from_full_bytes (tx_full_bytes tx) = Some tx"
  using codec_exact [OF transactionc.codec_axioms, of "tx_full_bytes tx" tx]
  by (simp add: tx_from_full_bytes_def)

text \<open>C14: the witness decoder accepts a byte string exactly when it is the canonical encoding
  of a well-formed witness (Falcon lengths, fixed reference widths, the reference limit over all
  signer groups), and returns that witness: no witness has two encodings and no accepted bytes
  are lost.\<close>

theorem witness_decoder_accepts_exactly_canonical_bytes:
  "witness_from_bytes bs = Some w \<longleftrightarrow> tx_witness_ok w \<and> bs = witness_canonical_bytes w"
  using witness_decoded_ok witness_encoded_decodes by blast

text \<open>C15: \<open>from_full_bytes\<close> inverts \<open>full_bytes\<close> and accepts nothing else: for an input
  shorter than the address space, decoding yields \<open>tx\<close> exactly when \<open>tx\<close> is well formed and
  the input is its full encoding.\<close>

theorem tx_decoder_accepts_exactly_full_bytes:
  assumes "length bs < u64_bound"
  shows "tx_from_full_bytes bs = Some tx \<longleftrightarrow> tx_ok tx \<and> bs = tx_full_bytes tx"
  unfolding tx_from_full_bytes_def by (rule codec_exact [OF transactionc.codec_axioms assms])

definition example_spend :: transaction where
  "example_spend = \<lparr>tx_version = 1,
     inputs = [\<lparr>previous_txid = replicate 48 7, output_index = 2, unlocking_script = [1, 2]\<rparr>],
     outputs = [\<lparr>value_atoms = 1000, locking_script = [9]\<rparr>], lock_time = 5, witness = [],
     tx_pow_nonce = 77, tx_pow_bits = 16\<rparr>"

lemma example_spend_ok: "tx_ok example_spend" "base_ok example_spend"
  by (simp_all add: example_spend_def tx_ok_def base_ok_def tx_input_ok_def tx_output_ok_def
      tx_base_size_bytes_def)

lemma example_spend_size: "length (tx_full_bytes example_spend) = 100"
  by (simp add: tx_full_bytes_def write_full_bytes_without_pow_fields_def example_spend_def
      tx_input_bytes_def tx_output_bytes_def)

theorem tx_decoder_accepts_exactly_full_bytes_witness:
  "tx_from_full_bytes (tx_full_bytes example_spend) = Some example_spend
     \<and> length (tx_full_bytes example_spend) = 100"
  using tx_decoder_accepts_exactly_full_bytes [of "tx_full_bytes example_spend" example_spend]
    example_spend_ok example_spend_size by simp

text \<open>C17: a transaction identifier commits to the version, the spent outpoints with their
  scripts, the outputs and the lock time: two transactions with the same \<open>txid\<close> agree on all of
  them, unless their base encodings collide under SHA3-384.\<close>

theorem txid_commits_to_base:
  assumes "base_ok a" and "base_ok b"
    and "inj_on (sha3_384 P) {tx_base_bytes a, tx_base_bytes b}"
    and "txid P a = txid P b"
  shows "tx_version a = tx_version b \<and> inputs a = inputs b \<and> outputs a = outputs b
    \<and> lock_time a = lock_time b"
proof -
  have "tx_base_bytes a = tx_base_bytes b"
    by (rule inj_onD [OF assms(3)]) (use assms(4) in \<open>simp_all add: txid_base_bytes\<close>)
  from base_bytes_inject [OF assms(1,2) this] show ?thesis by (simp add: base_part_def)
qed

theorem txid_commits_to_base_witness:
  "txid example_primitives example_spend = txid example_primitives (example_spend\<lparr>witness := [1]\<rparr>)
   \<and> inputs example_spend = inputs (example_spend\<lparr>witness := [1]\<rparr>)"
proof -
  have same: "tx_base_bytes (example_spend\<lparr>witness := [1]\<rparr>) = tx_base_bytes example_spend"
    by (simp add: tx_base_bytes_def write_base_bytes_def)
  moreover have "base_ok (example_spend\<lparr>witness := [1]\<rparr>)"
    using example_spend_ok(2) by (simp add: base_ok_def tx_base_size_bytes_def)
  ultimately show ?thesis
    using txid_commits_to_base [OF example_spend_ok(2), of "example_spend\<lparr>witness := [1]\<rparr>"
        example_primitives]
    by (simp add: txid_base_bytes)
qed

text \<open>C0: \<open>txid\<close> hashes the base encoding and \<open>wtxid\<close> the full encoding, so the streaming
  hashers and the byte writers cannot drift apart; the witness commitment of a decoded witness
  hashes exactly the base encoding, a tag, the commitment bytes and the transaction
  proof-of-work fields.\<close>

theorem streamed_hashes_equal_encodings:
  "txid P tx = sha3_384 P (tx_base_bytes tx)
   \<and> wtxid P tx = sha3_384 P (tx_full_bytes tx)
   \<and> signing_digest_for_input_indexes P tx is = sha3_384 P (tx_base_bytes tx
        @ u32_le (len_u32 (length is)) @ concat (map u32_le is))
   \<and> (tx_witness_ok w \<longrightarrow> witness tx = witness_canonical_bytes w \<longrightarrow>
        witness_commitment_hash P tx = sha3_384 P (tx_base_bytes tx @ [1] @ commitment_bytes w
          @ u64_le (tx_pow_nonce tx) @ [tx_pow_bits tx]))"
proof -
  have "witness_commitment_hash P tx = sha3_384 P (tx_base_bytes tx @ [1] @ commitment_bytes w
          @ u64_le (tx_pow_nonce tx) @ [tx_pow_bits tx])"
    if "tx_witness_ok w" and "witness tx = witness_canonical_bytes w"
  proof -
    have "witness_canonical_bytes w \<noteq> []"
      by (metis append_is_Nil_conv length_0_conv length_int_bytes(2) witness_canonical_bytes_def
          zero_neq_numeral)
    with that show ?thesis
      by (simp add: witness_commitment_hash_def witness_payload_def witness_encoded_decodes
          update_base_hasher_bytes update_commitment_hasher_bytes)
  qed
  then show ?thesis
    by (simp add: txid_base_bytes wtxid_full_bytes signing_digest_for_input_indexes_def
        signing_hasher_bytes)
qed

definition example_witness :: tx_witness where
  "example_witness = \<lparr>signature = replicate 666 1, pubkey = replicate 897 2,
     input_refs = [\<lparr>input_index = 0, sig_ref_short = [3, 4], witness_commit_ref = replicate 16 5\<rparr>],
     additional_signers = []\<rparr>"

lemma example_witness_ok: "tx_witness_ok example_witness"
  by (simp add: example_witness_def tx_witness_ok_def total_input_refs_def input_ref_ok_def)

theorem streamed_hashes_equal_encodings_witness:
  "(let tx = example_spend\<lparr>witness := witness_canonical_bytes example_witness\<rparr>
    in witness_commitment_hash example_primitives tx =
       sha3_384 example_primitives (tx_base_bytes tx @ [1] @ commitment_bytes example_witness
         @ u64_le 77 @ [16]))"
proof -
  define tx where "tx = example_spend\<lparr>witness := witness_canonical_bytes example_witness\<rparr>"
  have "witness tx = witness_canonical_bytes example_witness" "tx_pow_nonce tx = 77"
    "tx_pow_bits tx = 16" by (simp_all add: tx_def example_spend_def)
  with streamed_hashes_equal_encodings [of example_primitives tx "[]" example_witness]
    example_witness_ok
  show ?thesis by (simp add: Let_def flip: tx_def)
qed

text \<open>The size functions that fees, weights and block limits use are the lengths of the
  encodings they stand for, and the virtual size is the weight divided by four, rounded up.\<close>

theorem sizes_are_encoding_lengths:
  assumes "list_all (\<lambda>i. length (previous_txid i) = 48) (inputs tx)"
    and "tx_full_size_bytes tx < 2 ^ 61"
  shows "length (tx_base_bytes tx) = tx_base_size_bytes tx
    \<and> length (tx_full_bytes tx) = tx_full_size_bytes tx
    \<and> length (tx_compact_bytes tx) = tx_compact_size_bytes tx
    \<and> tx_base_size_bytes tx \<le> tx_vsize_bytes tx
    \<and> tx_vsize_bytes tx \<le> tx_full_size_bytes tx
    \<and> 4 * (tx_vsize_bytes tx - 1) < 3 * tx_base_size_bytes tx + tx_full_size_bytes tx
    \<and> 3 * tx_base_size_bytes tx + tx_full_size_bytes tx \<le> 4 * tx_vsize_bytes tx"
proof -
  have le: "tx_base_size_bytes tx + 15 \<le> tx_full_size_bytes tx"
    using base_le_full_size [of tx] by linarith
  then have "tx_vsize_bytes tx = (3 * tx_base_size_bytes tx + tx_full_size_bytes tx + 3) div 4"
    using assms(2) by (intro vsize_formula) simp
  with le show ?thesis
    by (simp add: base_size_is_length full_size_is_length compact_size_is_length assms(1)) linarith
qed

lemma example_spend_sizes:
  "tx_base_size_bytes example_spend = 85" "tx_full_size_bytes example_spend = 100"
  by (simp_all add: example_spend_def tx_base_size_bytes_def tx_full_size_bytes_def)

lemma example_spend_txids: "list_all (\<lambda>i. length (previous_txid i) = 48) (inputs example_spend)"
  by (simp add: example_spend_def)

theorem sizes_are_encoding_lengths_witness:
  "length (tx_base_bytes example_spend) = 85 \<and> length (tx_full_bytes example_spend) = 100
   \<and> 4 * (tx_vsize_bytes example_spend - 1) < 355 \<and> 355 \<le> 4 * tx_vsize_bytes example_spend"
  using sizes_are_encoding_lengths [OF example_spend_txids] by (simp add: example_spend_sizes)

end
