(* ===== verification/Block.thy ===== *)
theory Block
  imports Transaction
begin

text \<open>
  Block headers, blocks and the two commitment trees (\<^verbatim>\<open>crates/atho-core/src/block.rs\<close>).
  The witness cache of a block is a map keyed by transaction identifier, rebuilt by
  \<open>block_new\<close> as \<open>Block::new\<close> does.
\<close>

section \<open>Data\<close>

definition HEADER_CANONICAL_SIZE_WITHOUT_NONCE :: usize where
  [simp]: "HEADER_CANONICAL_SIZE_WITHOUT_NONCE = 2 + 1 + 8 + 48 + 48 + 48 + 48 + 64 + 8 + 48"
definition HEADER_CANONICAL_SIZE :: usize where
  [simp]: "HEADER_CANONICAL_SIZE = HEADER_CANONICAL_SIZE_WITHOUT_NONCE + 8"

record block_header =
  hdr_version :: u16
  network_id :: network
  height :: u64
  previous_block_hash :: bytes
  hdr_merkle_root :: bytes
  hdr_witness_root :: bytes
  founders_hash_sha3_384 :: bytes
  founders_hash_sha3_512 :: bytes
  timestamp :: u64
  difficulty_target_or_bits :: bytes
  nonce :: u64

record block =
  header :: block_header
  transactions :: "transaction list"
  witnesses :: "bytes \<rightharpoonup> tx_witness"
  fees_total_atoms :: u64
  fees_miner_atoms :: u64

record block_size_metrics =
  base_size_bytes :: usize
  raw_size_bytes :: usize
  weight_bytes :: usize
  vsize_bytes :: usize

definition default_header :: block_header where
  "default_header = \<lparr>hdr_version = 0, network_id = Mainnet, height = 0,
     previous_block_hash = replicate 48 0, hdr_merkle_root = replicate 48 0,
     hdr_witness_root = replicate 48 0, founders_hash_sha3_384 = FOUNDERS_HASH_SHA3_384,
     founders_hash_sha3_512 = FOUNDERS_HASH_SHA3_512, timestamp = 0,
     difficulty_target_or_bits = replicate 48 0, nonce = 0\<rparr>"

definition default_block :: block where
  "default_block = \<lparr>header = default_header, transactions = [], witnesses = Map.empty,
     fees_total_atoms = 0, fees_miner_atoms = 0\<rparr>"

section \<open>Headers\<close>

definition header_canonical_bytes_without_nonce :: "block_header \<Rightarrow> bytes" where
  "header_canonical_bytes_without_nonce h =
     u16_le (hdr_version h) @ [consensus_id (network_id h)] @ u64_le (height h)
     @ previous_block_hash h @ hdr_merkle_root h @ hdr_witness_root h
     @ founders_hash_sha3_384 h @ founders_hash_sha3_512 h
     @ u64_le (timestamp h) @ difficulty_target_or_bits h"

definition header_canonical_bytes :: "block_header \<Rightarrow> bytes" where
  "header_canonical_bytes h =
     u16_le (hdr_version h) @ [consensus_id (network_id h)] @ u64_le (height h)
     @ previous_block_hash h @ hdr_merkle_root h @ hdr_witness_root h
     @ founders_hash_sha3_384 h @ founders_hash_sha3_512 h
     @ u64_le (timestamp h) @ difficulty_target_or_bits h @ u64_le (nonce h)"

text \<open>\<open>bytes[offset..offset + n].copy_from_slice(src)\<close>\<close>

definition copy_at :: "nat \<Rightarrow> bytes \<Rightarrow> bytes \<Rightarrow> bytes" where
  "copy_at offset src buf = take offset buf @ src @ drop (offset + length src) buf"

definition block_hash :: "primitives \<Rightarrow> block_header \<Rightarrow> bytes" where
  "block_hash P h =
     (let bytes = replicate HEADER_CANONICAL_SIZE 0; offset = 0;
          bytes = copy_at offset (u16_le (hdr_version h)) bytes; offset = offset + 2;
          bytes = copy_at offset [consensus_id (network_id h)] bytes; offset = offset + 1;
          bytes = copy_at offset (u64_le (height h)) bytes; offset = offset + 8;
          bytes = copy_at offset (previous_block_hash h) bytes; offset = offset + 48;
          bytes = copy_at offset (hdr_merkle_root h) bytes; offset = offset + 48;
          bytes = copy_at offset (hdr_witness_root h) bytes; offset = offset + 48;
          bytes = copy_at offset (founders_hash_sha3_384 h) bytes; offset = offset + 48;
          bytes = copy_at offset (founders_hash_sha3_512 h) bytes; offset = offset + 64;
          bytes = copy_at offset (u64_le (timestamp h)) bytes; offset = offset + 8;
          bytes = copy_at offset (difficulty_target_or_bits h) bytes; offset = offset + 48;
          bytes = copy_at offset (u64_le (nonce h)) bytes
      in sha3_384 P bytes)"

definition read_header :: "bytes \<Rightarrow> usize \<Rightarrow> (block_header \<times> usize) option" where
  "read_header bs off = do {
     (version, off) \<leftarrow> read_u16 bs off;
     (network_byte, off) \<leftarrow> read_byte bs off;
     net \<leftarrow> from_consensus_id network_byte;
     (hgt, off) \<leftarrow> read_u64 bs off;
     (prev, off) \<leftarrow> read_array 48 bs off;
     (merkle, off) \<leftarrow> read_array 48 bs off;
     (wroot, off) \<leftarrow> read_array 48 bs off;
     (founders_384, off) \<leftarrow> read_array 48 bs off;
     (founders_512, off) \<leftarrow> read_array 64 bs off;
     (time, off) \<leftarrow> read_u64 bs off;
     (target, off) \<leftarrow> read_array 48 bs off;
     (non, off) \<leftarrow> read_u64 bs off;
     Some (\<lparr>hdr_version = version, network_id = net, height = hgt, previous_block_hash = prev,
            hdr_merkle_root = merkle, hdr_witness_root = wroot,
            founders_hash_sha3_384 = founders_384, founders_hash_sha3_512 = founders_512,
            timestamp = time, difficulty_target_or_bits = target, nonce = non\<rparr>, off)
   }"

definition header_from_canonical_bytes :: "bytes \<Rightarrow> block_header option" where
  "header_from_canonical_bytes bs = do {
     (h, off) \<leftarrow> read_header bs 0;
     if off \<noteq> length bs then None else Some h
   }"

section \<open>Blocks\<close>

definition block_new :: "primitives \<Rightarrow> block_header \<Rightarrow> transaction list \<Rightarrow> block" where
  "block_new P h txs =
     default_block\<lparr>header := h, transactions := txs,
       witnesses := map_of (rev (List.map_filter (\<lambda>tx.
         map_option (Pair (txid P tx)) (witness_payload tx)) txs))\<rparr>"

definition block_base_bytes :: "block \<Rightarrow> bytes" where
  "block_base_bytes b =
     header_canonical_bytes (header b) @ u32_le (len_u32 (length (transactions b)))
     @ concat (map (\<lambda>tx. let tx_bytes = tx_base_bytes tx in u32_le (len_u32 (length tx_bytes)) @ tx_bytes)
         (transactions b))"

definition tx_entry_bytes :: "transaction \<Rightarrow> bytes" where
  "tx_entry_bytes tx = (let tx_bytes = tx_full_bytes tx in u32_le (len_u32 (length tx_bytes)) @ tx_bytes)"

definition block_full_bytes :: "block \<Rightarrow> bytes" where
  "block_full_bytes b =
     header_canonical_bytes (header b) @ u32_le (len_u32 (length (transactions b)))
     @ concat (map tx_entry_bytes (transactions b))"

definition block_compact_bytes :: "block \<Rightarrow> bytes" where
  "block_compact_bytes b =
     foldl (\<lambda>out tx. let tx_bytes = tx_compact_bytes tx
         in write_compact_size out (length tx_bytes) @ tx_bytes)
       (write_compact_size (header_canonical_bytes (header b)) (length (transactions b)))
       (transactions b)"

definition block_base_size_bytes :: "block \<Rightarrow> usize" where
  "block_base_size_bytes b =
     HEADER_CANONICAL_SIZE + 4 + sum_list (map (\<lambda>tx. 4 + tx_base_size_bytes tx) (transactions b))"

definition block_full_size_bytes :: "block \<Rightarrow> usize" where
  "block_full_size_bytes b =
     HEADER_CANONICAL_SIZE + 4 + sum_list (map (\<lambda>tx. 4 + tx_full_size_bytes tx) (transactions b))"

definition size_metrics :: "block \<Rightarrow> block_size_metrics" where
  "size_metrics b =
     (let header_and_count = HEADER_CANONICAL_SIZE + 4;
          (base, raw) = foldl (\<lambda>(base, raw) tx.
              (usize_sat_add base (4 + tx_base_size_bytes tx),
               usize_sat_add raw (4 + tx_full_size_bytes tx)))
            (header_and_count, header_and_count) (transactions b);
          weight = usize_sat_add (usize_sat_mul base 3) raw
      in \<lparr>base_size_bytes = base, raw_size_bytes = raw, weight_bytes = weight,
          vsize_bytes = usize_sat_add weight 3 div 4\<rparr>)"

definition block_compact_size_bytes :: "block \<Rightarrow> usize" where
  "block_compact_size_bytes b =
     foldl (\<lambda>total tx. let tx_size = tx_compact_size_bytes tx
         in usize_sat_add (usize_sat_add total (compact_size_len tx_size)) tx_size)
       (HEADER_CANONICAL_SIZE + compact_size_len (length (transactions b))) (transactions b)"

definition read_tx_entry :: "bytes \<Rightarrow> usize \<Rightarrow> (transaction \<times> usize) option" where
  "read_tx_entry bs off = do {
     (tx_len, off) \<leftarrow> read_u32 bs off;
     (tx_bytes, off) \<leftarrow> read_vec bs off (unat tx_len);
     tx \<leftarrow> tx_from_full_bytes tx_bytes;
     Some (tx, off)
   }"

definition block_from_canonical_bytes :: "primitives \<Rightarrow> bytes \<Rightarrow> block option" where
  "block_from_canonical_bytes P bs = do {
     header_bytes \<leftarrow> get_range bs 0 HEADER_CANONICAL_SIZE;
     h \<leftarrow> header_from_canonical_bytes header_bytes;
     (tx_count, off) \<leftarrow> read_u32 bs HEADER_CANONICAL_SIZE;
     if unat tx_count > (length bs - off) div 4 then None else do {
     (txs, off) \<leftarrow> read_many (unat tx_count) read_tx_entry bs off;
     if off \<noteq> length bs then None
     else Some (block_new P h txs)
     }
   }"

section \<open>Commitment trees\<close>

text \<open>One pass of the \<open>while\<close> loop: pairs are hashed, the last hash of an odd layer with
  itself.\<close>

fun next_layer :: "primitives \<Rightarrow> bytes list \<Rightarrow> bytes list" where
  "next_layer P [] = []"
| "next_layer P [a] = [sha3_384 P (a @ a)]"
| "next_layer P (a # b # rest) = sha3_384 P (a @ b) # next_layer P rest"

lemma length_next_layer [simp]: "length (next_layer P xs) = (length xs + 1) div 2"
  by (induction P xs rule: next_layer.induct) auto

function layer_root :: "primitives \<Rightarrow> bytes list \<Rightarrow> bytes" where
  "layer_root P layer = (if length layer > 1 then layer_root P (next_layer P layer) else layer ! 0)"
  by auto
termination by (relation "measure (length \<circ> snd)") auto

declare layer_root.simps [simp del]

definition merkle_root :: "primitives \<Rightarrow> transaction list \<Rightarrow> bytes" where
  "merkle_root P txs = (if txs = [] then replicate 48 0 else layer_root P (map (txid P) txs))"

definition witness_root :: "primitives \<Rightarrow> transaction list \<Rightarrow> bytes" where
  "witness_root P txs =
     (if txs = [] then replicate 48 0 else layer_root P (map (witness_commitment_hash P) txs))"

definition block_signing_digest :: "primitives \<Rightarrow> block \<Rightarrow> bytes" where
  "block_signing_digest P b = sha3_384 P (header_canonical_bytes (header b))"

section \<open>Header and block codecs\<close>

definition header_ok :: "block_header \<Rightarrow> bool" where
  "header_ok h \<longleftrightarrow> length (previous_block_hash h) = 48 \<and> length (hdr_merkle_root h) = 48
     \<and> length (hdr_witness_root h) = 48 \<and> length (founders_hash_sha3_384 h) = 48
     \<and> length (founders_hash_sha3_512 h) = 64 \<and> length (difficulty_target_or_bits h) = 48"

lemma length_header_bytes [size_simps]:
  "header_ok h \<Longrightarrow> length (header_canonical_bytes h) = HEADER_CANONICAL_SIZE"
  "header_ok h \<Longrightarrow> length (header_canonical_bytes_without_nonce h) = HEADER_CANONICAL_SIZE_WITHOUT_NONCE"
  by (simp_all add: header_ok_def header_canonical_bytes_def header_canonical_bytes_without_nonce_def)

interpretation headerc: codec header_canonical_bytes read_header header_ok
  apply (rule codec_cong)
    apply (unfold read_header_def [abs_def])
    apply (rule codec_bind [where f = hdr_version], rule u16c.codec_axioms)
     apply (rule codec_bind [where f = "\<lambda>z. consensus_id (network_id z)"], rule bytec.codec_axioms)
      apply (rule codec_lookup [where f = network_id])
       apply (rule codec_bind [where f = height], rule u64c.codec_axioms)
        apply (rule codec_bind [where f = previous_block_hash], rule array.codec_axioms)
         apply (rule codec_bind [where f = hdr_merkle_root], rule array.codec_axioms)
          apply (rule codec_bind [where f = hdr_witness_root], rule array.codec_axioms)
           apply (rule codec_bind [where f = founders_hash_sha3_384], rule array.codec_axioms)
            apply (rule codec_bind [where f = founders_hash_sha3_512], rule array.codec_axioms)
             apply (rule codec_bind [where f = timestamp], rule u64c.codec_axioms)
              apply (rule codec_bind [where f = difficulty_target_or_bits], rule array.codec_axioms)
               apply (rule codec_bind [where f = nonce], rule u64c.codec_axioms)
                apply (rule codec_return)
                apply ((simp; fail)
      | (elim conjE, drule arg_cong [where f = difficulty_target_or_bits], simp; fail)
      | (elim conjE, drule arg_cong [where f = timestamp], simp; fail)
      | (elim conjE, drule arg_cong [where f = founders_hash_sha3_512], simp; fail)
      | (elim conjE, drule arg_cong [where f = founders_hash_sha3_384], simp; fail)
      | (elim conjE, drule arg_cong [where f = hdr_witness_root], simp; fail)
      | (elim conjE, drule arg_cong [where f = hdr_merkle_root], simp; fail)
      | (elim conjE, drule arg_cong [where f = previous_block_hash], simp; fail)
      | (elim conjE, drule arg_cong [where f = height], simp; fail)
      | (elim conjE, drule arg_cong [where f = network_id], simp; fail)
      | (elim conjE, simp add: from_consensus_id_iff; fail)
      | (elim conjE, drule arg_cong [where f = hdr_version], simp; fail))+
  subgoal by (auto simp: header_ok_def from_consensus_id_iff)
  subgoal by (simp add: header_canonical_bytes_def)
  done

lemma header_decoded_ok:
  "header_from_canonical_bytes bs = Some h \<Longrightarrow> header_ok h \<and> bs = header_canonical_bytes h"
proof -
  assume "header_from_canonical_bytes bs = Some h"
  then have "read_header bs 0 = Some (h, length bs)"
    by (auto simp: header_from_canonical_bytes_def split: bind_splits if_splits)
  from headerc.decoded_is_encoding [OF this] show ?thesis by simp
qed

lemma header_encoded_decodes:
  "header_ok h \<Longrightarrow> header_from_canonical_bytes (header_canonical_bytes h) = Some h"
  using codec_exact [OF headerc.codec_axioms, of "header_canonical_bytes h" h]
  by (simp add: header_from_canonical_bytes_def length_header_bytes)

definition tx_entry_ok :: "transaction \<Rightarrow> bool" where
  "tx_entry_ok tx \<longleftrightarrow> tx_ok tx \<and> length (tx_full_bytes tx) < u32_bound"

interpretation tx_entry: codec tx_entry_bytes read_tx_entry tx_entry_ok
  apply (rule codec_cong)
    apply (unfold read_tx_entry_def [abs_def])
    apply (rule codec_bind [where f = "\<lambda>tx. len_u32 (length (tx_full_bytes tx))"], rule u32c.codec_axioms)
     apply (rule codec_bind [where f = tx_full_bytes], rule codec_read_vec)
      apply (rule codec_lookup [where f = "\<lambda>tx. tx"])
       apply (rule codec_return)
      apply (auto simp: tx_entry_ok_def tx_entry_bytes_def Let_def tx_encoded_decodes
      dest: tx_decoded_ok intro!: len_u32_eqI)
  done

text \<open>Header and transactions as the block decoder reads them, before \<open>Block::new\<close>.\<close>

definition read_block :: "bytes \<Rightarrow> usize \<Rightarrow> ((block_header \<times> transaction list) \<times> usize) option" where
  "read_block bs off = do {
     (header_bytes, off) \<leftarrow> read_array HEADER_CANONICAL_SIZE bs off;
     h \<leftarrow> header_from_canonical_bytes header_bytes;
     (tx_count, off) \<leftarrow> read_u32 bs off;
     if unat tx_count > (length bs - off) div 4 then None else do {
     (txs, off) \<leftarrow> read_many (unat tx_count) read_tx_entry bs off;
     Some ((h, txs), off)
     }
   }"

lemma block_from_read:
  "block_from_canonical_bytes P bs = map_option (\<lambda>(h, txs). block_new P h txs)
     (Option.bind (read_block bs 0) (\<lambda>(z, off). if off \<noteq> length bs then None else Some z))"
  unfolding block_from_canonical_bytes_def read_block_def
  by (auto simp: read_array_def usize_checked_add_def split: bind_splits if_splits)

lemma length_tx_entries: "length txs * 4 \<le> length (concat (map tx_entry_bytes txs))"
  by (induction txs) (auto simp: tx_entry_bytes_def Let_def)

lemma codec_read_block:
  "codec (\<lambda>(h, txs). header_canonical_bytes h @ u32_le (len_u32 (length txs))
      @ concat (map tx_entry_bytes txs)) read_block
    (\<lambda>(h, txs). header_ok h \<and> length txs < u32_bound \<and> list_all tx_entry_ok txs)"
  apply (rule codec_cong)
    apply (unfold read_block_def [abs_def])
    apply (rule codec_bind [where f = "\<lambda>z. header_canonical_bytes (fst z)"], rule array.codec_axioms)
     apply (rule codec_lookup [where f = fst])
      apply (rule codec_bind [where f = "\<lambda>z. len_u32 (length (snd z))"], rule u32c.codec_axioms)
       apply (rule codec_capacity)
         apply (rule codec_bind [where f = snd], rule codec_read_many, rule tx_entry.codec_axioms)
          apply (rule codec_return)
         apply (auto simp: length_header_bytes header_encoded_decodes dest: header_decoded_ok
      intro!: len_u32_eqI)
  apply (metis length_tx_entries)
  done

lemma block_decoded:
  assumes "length bs < u64_bound"
  shows "block_from_canonical_bytes P bs = Some b \<longleftrightarrow>
    (\<exists>h txs. b = block_new P h txs \<and> header_ok h \<and> length txs < u32_bound \<and> list_all tx_entry_ok txs
      \<and> bs = block_full_bytes b)"
proof -
  have "block_from_canonical_bytes P bs = Some b \<longleftrightarrow>
      (\<exists>h txs. b = block_new P h txs \<and>
        Option.bind (read_block bs 0) (\<lambda>(z, off). if off \<noteq> length bs then None else Some z) = Some (h, txs))"
    unfolding block_from_read by auto
  then show ?thesis
    unfolding codec_exact [OF codec_read_block assms]
    by (auto simp: block_full_bytes_def block_new_def default_block_def)
qed

section \<open>Hash of the assembled header\<close>

lemma block_hash_canonical: "header_ok h \<Longrightarrow> block_hash P h = sha3_384 P (header_canonical_bytes h)"
  unfolding block_hash_def Let_def
  by (simp add: header_ok_def copy_at_def header_canonical_bytes_def)

section \<open>Trees\<close>

text \<open>The preimages hashed below the root of a layer.\<close>

fun layer_preimages :: "bytes list \<Rightarrow> bytes set" where
  "layer_preimages [] = {}"
| "layer_preimages [a] = {a @ a}"
| "layer_preimages (a # b # rest) = insert (a @ b) (layer_preimages rest)"

function tree_preimages :: "primitives \<Rightarrow> bytes list \<Rightarrow> bytes set" where
  "tree_preimages P layer =
     (if length layer > 1 then layer_preimages layer \<union> tree_preimages P (next_layer P layer) else {})"
  by auto
termination by (relation "measure (length \<circ> snd)") auto

declare tree_preimages.simps [simp del]

lemma next_layer_inject:
  "\<lbrakk> next_layer P xs = next_layer P ys; length xs = length ys;
     inj_on (sha3_384 P) (layer_preimages xs \<union> layer_preimages ys);
     list_all (\<lambda>x. length x = 48) xs; list_all (\<lambda>y. length y = 48) ys \<rbrakk> \<Longrightarrow> xs = ys"
proof (induction P xs arbitrary: ys rule: next_layer.induct)
  case (2 P a)
  then obtain b where ys: "ys = [b]" by (metis length_0_conv length_Suc_conv)
  have "a @ a = b @ b"
    by (rule inj_onD [OF "2.prems"(3)]) (use "2.prems"(1) ys in simp_all)
  with 2 ys show ?case by simp
next
  case (3 P a b rest)
  then obtain c d rest' where ys: "ys = c # d # rest'"
    by (metis length_Suc_conv)
  have "a @ b = c @ d"
    by (rule inj_onD [OF "3.prems"(3)]) (use "3.prems"(1) ys in simp_all)
  moreover have "rest = rest'"
    using 3 ys by (intro "3.IH") (auto intro: inj_on_subset)
  ultimately show ?case using 3 ys by simp
qed simp

lemma length_next_layer_elems:
  "digest_widths P \<Longrightarrow> list_all (\<lambda>x. length x = 48) (next_layer P xs)"
  by (induction P xs rule: next_layer.induct) simp_all

lemma layer_root_binding:
  assumes "digest_widths P"
  shows "\<lbrakk> layer_root P xs = layer_root P ys; length xs = length ys; xs \<noteq> [];
      inj_on (sha3_384 P) (tree_preimages P xs \<union> tree_preimages P ys);
      list_all (\<lambda>x. length x = 48) xs; list_all (\<lambda>y. length y = 48) ys \<rbrakk> \<Longrightarrow> xs = ys"
proof (induction "length xs" arbitrary: xs ys rule: less_induct)
  case less
  show ?case
  proof (cases "length xs > 1")
    case False
    with less.prems(2,3) obtain a b where "xs = [a]" "ys = [b]"
      by (cases xs; cases ys) auto
    with less.prems(1) show ?thesis by (simp add: layer_root.simps)
  next
    case True
    have pre: "tree_preimages P xs = layer_preimages xs \<union> tree_preimages P (next_layer P xs)"
      "tree_preimages P ys = layer_preimages ys \<union> tree_preimages P (next_layer P ys)"
      using True less.prems(2) by (simp_all add: tree_preimages.simps)
    have "next_layer P xs = next_layer P ys"
    proof (rule less.hyps)
      show "length (next_layer P xs) < length xs" using True by simp
      show "layer_root P (next_layer P xs) = layer_root P (next_layer P ys)"
        using less.prems(1,2) True by (simp add: layer_root.simps [of P xs] layer_root.simps [of P ys])
      show "next_layer P xs \<noteq> []" using True by (cases "(P, xs)" rule: next_layer.cases) auto
      show "inj_on (sha3_384 P) (tree_preimages P (next_layer P xs) \<union> tree_preimages P (next_layer P ys))"
        using less.prems(4) unfolding pre by (rule inj_on_subset) blast
    qed (use less.prems(2) length_next_layer_elems [OF assms] in simp_all)
    then show ?thesis
      using less.prems(2,4-6) unfolding pre by (elim next_layer_inject) (auto intro: inj_on_subset)
  qed
qed

lemma next_layer_duplicate_last:
  "odd (length xs) \<Longrightarrow> next_layer P (xs @ [last xs]) = next_layer P xs"
  by (induction P xs rule: next_layer.induct) auto

section \<open>Sizes\<close>

definition txids_wide :: "block \<Rightarrow> bool" where
  "txids_wide b \<longleftrightarrow>
     list_all (\<lambda>tx. list_all (\<lambda>i. length (previous_txid i) = 48) (inputs tx)) (transactions b)"

lemma block_full_size_is_length:
  assumes "header_ok (header b)" and "txids_wide b"
  shows "length (block_full_bytes b) = block_full_size_bytes b"
proof -
  have "length (concat (map tx_entry_bytes txs)) = sum_list (map (\<lambda>tx. 4 + tx_full_size_bytes tx) txs)"
    if "list_all (\<lambda>tx. list_all (\<lambda>i. length (previous_txid i) = 48) (inputs tx)) txs" for txs
    using that by (induction txs) (simp_all add: tx_entry_bytes_def Let_def full_size_is_length)
  with assms show ?thesis
    by (simp add: block_full_bytes_def block_full_size_bytes_def length_header_bytes txids_wide_def)
qed

lemma block_base_size_is_length:
  assumes "header_ok (header b)" and "txids_wide b"
  shows "length (block_base_bytes b) = block_base_size_bytes b"
proof -
  have "length (concat (map (\<lambda>tx. let tx_bytes = tx_base_bytes tx
        in u32_le (len_u32 (length tx_bytes)) @ tx_bytes) txs)) =
      sum_list (map (\<lambda>tx. 4 + tx_base_size_bytes tx) txs)"
    if "list_all (\<lambda>tx. list_all (\<lambda>i. length (previous_txid i) = 48) (inputs tx)) txs" for txs
    using that by (induction txs) (simp_all add: Let_def base_size_is_length)
  with assms show ?thesis
    by (simp add: block_base_bytes_def block_base_size_bytes_def length_header_bytes txids_wide_def)
qed

lemma metrics_fold:
  "b0 + sum_list (map (\<lambda>tx. 4 + tx_base_size_bytes tx) txs) < u64_bound \<Longrightarrow>
   r0 + sum_list (map (\<lambda>tx. 4 + tx_full_size_bytes tx) txs) < u64_bound \<Longrightarrow>
   foldl (\<lambda>(base, raw) tx. (usize_sat_add base (4 + tx_base_size_bytes tx),
       usize_sat_add raw (4 + tx_full_size_bytes tx))) (b0, r0) txs =
     (b0 + sum_list (map (\<lambda>tx. 4 + tx_base_size_bytes tx) txs),
      r0 + sum_list (map (\<lambda>tx. 4 + tx_full_size_bytes tx) txs))"
proof (induction txs arbitrary: b0 r0)
  case (Cons tx txs)
  then have "usize_sat_add b0 (4 + tx_base_size_bytes tx) = b0 + (4 + tx_base_size_bytes tx)"
    "usize_sat_add r0 (4 + tx_full_size_bytes tx) = r0 + (4 + tx_full_size_bytes tx)"
    by (simp_all add: usize_sat_add_def min_def)
  with Cons show ?case by (simp add: algebra_simps)
qed simp

lemma base_le_full_block: "block_base_size_bytes b \<le> block_full_size_bytes b"
proof -
  have "tx_base_size_bytes tx \<le> tx_full_size_bytes tx" for tx
    using base_le_full_size [of tx] by linarith
  then have "sum_list (map (\<lambda>tx. 4 + tx_base_size_bytes tx) txs)
      \<le> sum_list (map (\<lambda>tx. 4 + tx_full_size_bytes tx) txs)" for txs
    by (intro sum_list_mono) simp
  then show ?thesis by (simp add: block_base_size_bytes_def block_full_size_bytes_def)
qed

lemma size_metrics_exact:
  assumes "block_full_size_bytes b < 2 ^ 61"
  shows "size_metrics b = \<lparr>base_size_bytes = block_base_size_bytes b,
    raw_size_bytes = block_full_size_bytes b,
    weight_bytes = 3 * block_base_size_bytes b + block_full_size_bytes b,
    vsize_bytes = (3 * block_base_size_bytes b + block_full_size_bytes b + 3) div 4\<rparr>"
proof -
  have bounds: "block_base_size_bytes b < 2 ^ 61" using base_le_full_block [of b] assms by linarith
  have "foldl (\<lambda>(base, raw) tx. (usize_sat_add base (4 + tx_base_size_bytes tx),
       usize_sat_add raw (4 + tx_full_size_bytes tx))) (335, 335) (transactions b) =
      (block_base_size_bytes b, block_full_size_bytes b)"
    using assms bounds
    by (subst metrics_fold) (simp_all add: block_base_size_bytes_def block_full_size_bytes_def)
  with assms bounds show ?thesis
    by (simp add: size_metrics_def Let_def usize_sat_add_def usize_sat_mul_def min_def)
qed

section \<open>Properties\<close>

definition example_block :: block where
  "example_block = block_new example_primitives default_header [example_spend]"

lemma default_header_ok: "header_ok default_header"
  by (simp add: default_header_def header_ok_def length_founders_hashes)

lemma example_block_shape: "header_ok (header example_block)" "txids_wide example_block"
  "block_full_size_bytes example_block = 439" "block_base_size_bytes example_block = 424"
  "transactions example_block = [example_spend]" "header example_block = default_header"
  by (simp_all add: example_block_def block_new_def default_block_def default_header_ok txids_wide_def
      example_spend_txids block_full_size_bytes_def block_base_size_bytes_def example_spend_sizes)

text \<open>The header decoder accepts exactly the 331-byte canonical encodings of well-formed
  headers (known network byte, array widths) and returns the encoded header.\<close>

theorem header_decoder_accepts_exactly_canonical_bytes:
  "header_from_canonical_bytes bs = Some h \<longleftrightarrow> header_ok h \<and> bs = header_canonical_bytes h"
  using header_decoded_ok header_encoded_decodes by blast

text \<open>C16: the block decoder accepts exactly the full encodings of blocks whose header and
  transactions are well formed, and the block it returns is the one \<open>Block::new\<close> builds from
  them, so that stored and relayed bytes determine the block and the block its bytes.\<close>

theorem block_decoder_accepts_exactly_full_bytes:
  assumes "length bs < u64_bound"
  shows "block_from_canonical_bytes P bs = Some b \<longleftrightarrow>
    b = block_new P (header b) (transactions b) \<and> header_ok (header b)
    \<and> length (transactions b) < u32_bound \<and> list_all tx_entry_ok (transactions b)
    \<and> bs = block_full_bytes b"
  unfolding block_decoded [OF assms] by (auto simp: block_new_def)

theorem block_decoder_accepts_exactly_full_bytes_witness:
  "block_from_canonical_bytes example_primitives (block_full_bytes example_block) = Some example_block"
proof -
  have "length (block_full_bytes example_block) = 439"
    using block_full_size_is_length [OF example_block_shape(1,2)] example_block_shape(3) by simp
  moreover have "tx_entry_ok example_spend"
    by (simp add: tx_entry_ok_def example_spend_ok example_spend_size)
  moreover have "example_block = block_new example_primitives (header example_block) (transactions example_block)"
    by (simp add: example_block_shape) (simp add: example_block_def)
  ultimately show ?thesis
    using block_decoder_accepts_exactly_full_bytes [of "block_full_bytes example_block"
        example_primitives example_block]
    by (simp add: example_block_shape default_header_ok)
qed

text \<open>C19: the block hash, which is computed from a buffer filled field by field, is the digest
  of the canonical header bytes, and it commits to every field of the header: two well-formed
  headers with one hash are equal, unless their encodings collide.\<close>

theorem block_hash_commits_to_header:
  assumes "header_ok a" and "header_ok b"
    and "inj_on (sha3_384 P) {header_canonical_bytes a, header_canonical_bytes b}"
    and "block_hash P a = block_hash P b"
  shows "a = b \<and> block_hash P a = sha3_384 P (header_canonical_bytes a)"
proof -
  have "header_canonical_bytes a = header_canonical_bytes b"
    by (rule inj_onD [OF assms(3)]) (use assms(1,2,4) in \<open>simp_all add: block_hash_canonical\<close>)
  then have "a = b" by (metis header_encoded_decodes assms(1,2) option.inject)
  with assms(1) show ?thesis by (simp add: block_hash_canonical)
qed

theorem block_hash_commits_to_header_witness:
  "block_hash example_primitives default_header =
     sha3_384 example_primitives (header_canonical_bytes default_header)"
  using block_hash_commits_to_header [OF default_header_ok default_header_ok, of example_primitives]
  by simp



text \<open>Duplicating the last transaction of an odd list of at least three leaves the Merkle
  root unchanged. The root alone does not fix the number of transactions, which is why block
  validation also requires pairwise distinct identifiers.\<close>

theorem merkle_root_duplicate_last:
  assumes "odd (length txs)" and "length txs > 1"
  shows "merkle_root P (txs @ [last txs]) = merkle_root P txs"
proof -
  let ?xs = "map (txid P) txs"
  have ne: "txs \<noteq> []" using assms(2) by auto
  have "next_layer P (?xs @ [txid P (last txs)]) = next_layer P ?xs"
    using next_layer_duplicate_last [of ?xs P] assms(1) ne by (simp add: last_map)
  then have "layer_root P (?xs @ [txid P (last txs)]) = layer_root P ?xs"
    using assms(2) ne layer_root.simps [of P ?xs] layer_root.simps [of P "?xs @ [txid P (last txs)]"]
    by simp
  with ne show ?thesis by (simp add: merkle_root_def)
qed

theorem merkle_root_duplicate_last_witness:
  "merkle_root example_primitives ([example_spend, example_spend, example_spend] @ [example_spend]) =
     merkle_root example_primitives [example_spend, example_spend, example_spend]"
  using merkle_root_duplicate_last [of "[example_spend, example_spend, example_spend]" example_primitives]
  by simp

text \<open>The size metrics that block validation compares with the limits are the lengths of the
  base and full encodings, with the weight three times the base plus the full size and the
  virtual size a quarter of it, rounded up.\<close>

theorem block_size_metrics_are_lengths:
  assumes "header_ok (header b)" and "txids_wide b" and "block_full_size_bytes b < 2 ^ 61"
  shows "base_size_bytes (size_metrics b) = length (block_base_bytes b)
    \<and> raw_size_bytes (size_metrics b) = length (block_full_bytes b)
    \<and> weight_bytes (size_metrics b) = 3 * length (block_base_bytes b) + length (block_full_bytes b)
    \<and> vsize_bytes (size_metrics b) = (weight_bytes (size_metrics b) + 3) div 4"
  using assms by (simp add: size_metrics_exact block_full_size_is_length block_base_size_is_length)

theorem block_size_metrics_are_lengths_witness:
  "base_size_bytes (size_metrics example_block) = length (block_base_bytes example_block)
   \<and> raw_size_bytes (size_metrics example_block) = length (block_full_bytes example_block)
   \<and> block_full_size_bytes example_block = 439"
  using block_size_metrics_are_lengths [of example_block] by (simp add: example_block_shape default_header_ok)

end
