(* ===== verification/Utxo.thy ===== *)
theory Utxo
  imports Block
begin

text \<open>
  The set of unspent outputs (\<^verbatim>\<open>crates/atho-storage/src/utxo.rs\<close>) with the error types of the
  storage crate: entries and their maturity, insertion and removal, the application of a block
  with its undo journal, and the disconnection of a block. The lemmas give the exact state after
  applying and disconnecting a block.
\<close>

section \<open>Errors\<close>

datatype validation_error =
    NoInputs | NoOutputs | FeeBelowMinimum | TransactionTooLarge | InvalidTransactionVersion
  | DuplicateInput | ZeroValueOutput | DustOutput | TooManyOutputs | LegacyLockFormatRejected
  | InvalidWitness | WrongTransactionPowBits | InvalidTransactionPowNonce | InvalidCoinbase
  | CoinbaseRewardMismatch | EmptyBlock | BlockTooLarge | BlockMerkleRootMismatch
  | BlockWitnessRootMismatch | BlockTargetOutOfBounds | ProofOfWorkInvalid
  | BlockParentHashMismatch | DuplicateTransactionId | MissingUtxoInput | InputOwnershipMismatch
  | InsufficientConfirmations | WitnessInputReferenceMismatch | FeeMismatch | MempoolConflict
  | InvalidBlockHeight | InvalidBlockVersion | InvalidBlockTimestamp | BlockNetworkMismatch
  | MultipleCoinbaseTransactions

datatype io_error_kind = UnexpectedEof | NotFound | OtherIoError

datatype storage_error =
    Validation validation_error
  | Io io_error_kind
  | Lmdb int
  | PathUnavailable
  | CorruptData
  | PersistedGenesisMismatch
  | PersistedTipMismatch
  | IncompleteBlockHistory
  | MissingUtxo
  | DuplicateUtxo
  | CrossNetworkReplay
  | LegacyStorageLayout
  | SchemaVersionMismatch u32 u32
  | StorageMetadataMismatch string
  | NoBlockToDisconnect
  | EmptyBranch
  | ForkPointUnavailable
  | InvalidBranchSequence
  | BranchNotPreferred
  | ReorgTooDeep u64 u64 u64 u64
  | RollbackFailure

fun is_recoverable_local_state :: "storage_error \<Rightarrow> bool" where
  "is_recoverable_local_state CorruptData = True"
| "is_recoverable_local_state PersistedGenesisMismatch = True"
| "is_recoverable_local_state PersistedTipMismatch = True"
| "is_recoverable_local_state IncompleteBlockHistory = True"
| "is_recoverable_local_state LegacyStorageLayout = True"
| "is_recoverable_local_state (SchemaVersionMismatch _ _) = True"
| "is_recoverable_local_state (StorageMetadataMismatch _) = True"
| "is_recoverable_local_state (Io kind) = (kind = UnexpectedEof)"
| "is_recoverable_local_state _ = False"

section \<open>Entries\<close>

type_synonym utxo_key = "bytes \<times> u32"

record utxo_entry =
  utxo_network :: network
  utxo_txid :: bytes
  utxo_output_index :: u32
  utxo_value_atoms :: u64
  utxo_locking_script :: bytes
  utxo_created_height :: u64
  utxo_is_coinbase :: bool

definition utxo_entry_new ::
  "network \<Rightarrow> bytes \<Rightarrow> u32 \<Rightarrow> u64 \<Rightarrow> bytes \<Rightarrow> u64 \<Rightarrow> bool \<Rightarrow> utxo_entry" where
  "utxo_entry_new n t i v l h c = \<lparr>utxo_network = n, utxo_txid = t, utxo_output_index = i,
     utxo_value_atoms = v, utxo_locking_script = l, utxo_created_height = h,
     utxo_is_coinbase = c\<rparr>"

definition utxo_entry_coinbase ::
  "network \<Rightarrow> bytes \<Rightarrow> u32 \<Rightarrow> u64 \<Rightarrow> bytes \<Rightarrow> u64 \<Rightarrow> utxo_entry" where
  "utxo_entry_coinbase n t i v l h = utxo_entry_new n t i v l h True"

text \<open>The subtraction cannot underflow under its guard. The addition wraps only for an entry
  created at height 0 and spent at the largest height.\<close>

definition confirmation_count :: "utxo_entry \<Rightarrow> u64 \<Rightarrow> u64" where
  "confirmation_count e spend_height =
     (if spend_height < utxo_created_height e then 0
      else spend_height - utxo_created_height e + 1)"

definition required_confirmations :: "utxo_entry \<Rightarrow> u64" where
  "required_confirmations e =
     (let params = consensus_params_for_network (utxo_network e)
      in if utxo_is_coinbase e then coinbase_maturity_blocks params
         else normal_tx_valid_after_confirmations params)"

definition is_spendable_at :: "utxo_entry \<Rightarrow> u64 \<Rightarrow> bool" where
  "is_spendable_at e spend_height \<longleftrightarrow> required_confirmations e \<le> confirmation_count e spend_height"

definition is_coinbase_mature :: "utxo_entry \<Rightarrow> u64 \<Rightarrow> bool" where
  "is_coinbase_mature e spend_height = is_spendable_at e spend_height"

definition entry_key :: "utxo_entry \<Rightarrow> utxo_key" where
  "entry_key e = (utxo_txid e, utxo_output_index e)"

section \<open>The set and its journal\<close>

record utxo_set =
  set_network :: network
  set_entries :: "utxo_key \<rightharpoonup> utxo_entry"

record block_undo =
  spent :: "utxo_entry list"
  created :: "utxo_entry list"

definition empty_undo :: block_undo where
  "empty_undo = \<lparr>spent = [], created = []\<rparr>"

definition utxo_set_new :: "network \<Rightarrow> utxo_set" where
  "utxo_set_new n = \<lparr>set_network = n, set_entries = Map.empty\<rparr>"

definition utxo_clear :: "utxo_set \<Rightarrow> utxo_set" where
  "utxo_clear s = s\<lparr>set_entries := Map.empty\<rparr>"

definition utxo_get :: "utxo_set \<Rightarrow> bytes \<Rightarrow> u32 \<Rightarrow> utxo_entry option" where
  "utxo_get s t i = set_entries s (t, i)"

text \<open>\<open>BTreeMap::insert\<close> overwrites and then reports the previous value.\<close>

definition utxo_insert :: "utxo_set \<Rightarrow> utxo_entry \<Rightarrow> utxo_set \<times> (storage_error + unit)" where
  "utxo_insert s e =
     (if utxo_network e \<noteq> set_network s then (s, Inl CrossNetworkReplay)
      else let s' = s\<lparr>set_entries := (set_entries s)(entry_key e \<mapsto> e)\<rparr>
           in if set_entries s (entry_key e) \<noteq> None then (s', Inl DuplicateUtxo)
              else (s', Inr ()))"

definition utxo_remove :: "utxo_set \<Rightarrow> bytes \<Rightarrow> u32 \<Rightarrow> utxo_set \<times> (storage_error + utxo_entry)" where
  "utxo_remove s t i =
     (case set_entries s (t, i) of
        None \<Rightarrow> (s, Inl MissingUtxo)
      | Some e \<Rightarrow> (s\<lparr>set_entries := (set_entries s)((t, i) := None)\<rparr>, Inr e))"

text \<open>The loops \<open>let _ = set.insert(entry)\<close> and \<open>let _ = set.remove(..)\<close>, which drop the result.\<close>

fun insert_ignoring :: "utxo_entry list \<Rightarrow> utxo_set \<Rightarrow> utxo_set" where
  "insert_ignoring [] s = s"
| "insert_ignoring (e # es) s = insert_ignoring es (fst (utxo_insert s e))"

fun remove_ignoring :: "utxo_entry list \<Rightarrow> utxo_set \<Rightarrow> utxo_set" where
  "remove_ignoring [] s = s"
| "remove_ignoring (e # es) s =
     remove_ignoring es (fst (utxo_remove s (utxo_txid e) (utxo_output_index e)))"

definition disconnect_block :: "utxo_set \<Rightarrow> block_undo \<Rightarrow> utxo_set" where
  "disconnect_block s u = insert_ignoring (spent u) (remove_ignoring (created u) s)"

fun spend_loop ::
  "tx_input list \<Rightarrow> utxo_entry list \<Rightarrow> utxo_set \<Rightarrow> utxo_set \<times> (storage_error + utxo_entry list)" where
  "spend_loop [] acc s = (s, Inr acc)"
| "spend_loop (i # is) acc s =
     (case utxo_remove s (previous_txid i) (output_index i) of
        (s', Inr e) \<Rightarrow> spend_loop is (acc @ [e]) s'
      | (s', Inl err) \<Rightarrow> (insert_ignoring (rev acc) s', Inl err))"

definition spend_inputs ::
  "utxo_set \<Rightarrow> transaction \<Rightarrow> utxo_set \<times> (storage_error + utxo_entry list)" where
  "spend_inputs s tx = spend_loop (inputs tx) [] s"

definition create_outputs ::
  "primitives \<Rightarrow> transaction \<Rightarrow> network \<Rightarrow> u64 \<Rightarrow> utxo_entry list" where
  "create_outputs P tx n created_height =
     map (\<lambda>(i, out). utxo_entry_new n (txid P tx) (of_nat i) (value_atoms out)
            (locking_script out) created_height (is_coinbase tx))
       (enumerate 0 (outputs tx))"

fun insert_created ::
  "utxo_entry list \<Rightarrow> utxo_set \<Rightarrow> block_undo \<Rightarrow> utxo_set \<times> (storage_error + block_undo)" where
  "insert_created [] s u = (s, Inr u)"
| "insert_created (e # es) s u =
     (case utxo_insert s e of
        (s', Inl err) \<Rightarrow> (disconnect_block s' u, Inl err)
      | (s', Inr _) \<Rightarrow> insert_created es s' (u\<lparr>created := created u @ [e]\<rparr>))"

fun apply_transactions ::
  "primitives \<Rightarrow> u64 \<Rightarrow> transaction list \<Rightarrow> utxo_set \<Rightarrow> block_undo
     \<Rightarrow> utxo_set \<times> (storage_error + block_undo)" where
  "apply_transactions P h [] s u = (s, Inr u)"
| "apply_transactions P h (tx # txs) s u =
     (case spend_inputs s tx of
        (s', Inl err) \<Rightarrow> (disconnect_block s' u, Inl err)
      | (s', Inr sp) \<Rightarrow>
          (case insert_created (create_outputs P tx (set_network s') h) s'
                  (u\<lparr>spent := spent u @ sp\<rparr>) of
             (s'', Inl err) \<Rightarrow> (s'', Inl err)
           | (s'', Inr u') \<Rightarrow> apply_transactions P h txs s'' u'))"

definition apply_block ::
  "primitives \<Rightarrow> utxo_set \<Rightarrow> block \<Rightarrow> utxo_set \<times> (storage_error + block_undo)" where
  "apply_block P s b = apply_transactions P (height (header b)) (transactions b) s empty_undo"

section \<open>Invariant\<close>

text \<open>Every entry stands under its own key and belongs to the network of the set.\<close>

definition utxo_set_ok :: "utxo_set \<Rightarrow> bool" where
  "utxo_set_ok s \<longleftrightarrow>
     (\<forall>k e. set_entries s k = Some e \<longrightarrow> entry_key e = k \<and> utxo_network e = set_network s)"

definition entries_of :: "utxo_entry list \<Rightarrow> utxo_key \<rightharpoonup> utxo_entry" where
  "entries_of es = map_of (map (\<lambda>e. (entry_key e, e)) es)"

lemma entries_of_simps [simp]:
  "entries_of [] = Map.empty"
  "entries_of (e # es) = (entries_of es)(entry_key e \<mapsto> e)"
  "entries_of (xs @ ys) = entries_of ys ++ entries_of xs"
  by (simp_all add: entries_of_def)

lemma dom_entries_of [simp]: "dom (entries_of es) = entry_key ` set es"
  unfolding entries_of_def dom_map_of_conv_image_fst by force

lemma entries_of_key: "entries_of es k = Some e \<Longrightarrow> entry_key e = k \<and> e \<in> set es"
  by (induction es) (auto split: if_splits)

lemma entries_of_distinct:
  "distinct (map entry_key es) \<Longrightarrow> e \<in> set es \<Longrightarrow> entries_of es (entry_key e) = Some e"
  by (induction es) (auto simp: image_iff)

lemma entries_of_rev:
  "distinct (map entry_key es) \<Longrightarrow> entries_of (rev es) = entries_of es"
proof
  fix k assume d: "distinct (map entry_key es)"
  show "entries_of (rev es) k = entries_of es k"
  proof (cases "k \<in> entry_key ` set es")
    case True
    then obtain e where "e \<in> set es" "k = entry_key e" by blast
    then show ?thesis
      using entries_of_distinct [of es e] entries_of_distinct [of "rev es" e] d
      by (simp add: rev_map [symmetric])
  next
    case False
    then show ?thesis by (metis domIff dom_entries_of set_rev)
  qed
qed

lemma utxo_set_okD:
  assumes "utxo_set_ok s" and "set_entries s k = Some e"
  shows "entry_key e = k" and "utxo_network e = set_network s"
  using assms unfolding utxo_set_ok_def by blast+

lemma utxo_set_new_ok: "utxo_set_ok (utxo_set_new n)"
  by (simp add: utxo_set_ok_def utxo_set_new_def)

lemma utxo_insert_ok: "utxo_set_ok s \<Longrightarrow> utxo_set_ok (fst (utxo_insert s e))"
  by (auto simp: utxo_set_ok_def utxo_insert_def Let_def)

lemma utxo_remove_ok: "utxo_set_ok s \<Longrightarrow> utxo_set_ok (fst (utxo_remove s t i))"
  by (auto simp: utxo_set_ok_def utxo_remove_def split: option.splits if_splits)

lemma insert_ignoring_ok: "utxo_set_ok s \<Longrightarrow> utxo_set_ok (insert_ignoring es s)"
  by (induction es arbitrary: s) (simp_all add: utxo_insert_ok)

lemma remove_ignoring_ok: "utxo_set_ok s \<Longrightarrow> utxo_set_ok (remove_ignoring es s)"
  by (induction es arbitrary: s) (simp_all add: utxo_remove_ok)

lemma disconnect_block_ok: "utxo_set_ok s \<Longrightarrow> utxo_set_ok (disconnect_block s u)"
  by (simp add: disconnect_block_def insert_ignoring_ok remove_ignoring_ok)

lemma utxo_insert_network [simp]: "set_network (fst (utxo_insert s e)) = set_network s"
  by (simp add: utxo_insert_def Let_def)

lemma utxo_remove_network [simp]: "set_network (fst (utxo_remove s t i)) = set_network s"
  by (simp add: utxo_remove_def split: option.splits)

lemma insert_ignoring_network [simp]: "set_network (insert_ignoring es s) = set_network s"
  by (induction es arbitrary: s) simp_all

lemma remove_ignoring_network [simp]: "set_network (remove_ignoring es s) = set_network s"
  by (induction es arbitrary: s) simp_all

lemma disconnect_block_network [simp]: "set_network (disconnect_block s u) = set_network s"
  by (simp add: disconnect_block_def)

lemma spend_loop_ok:
  "utxo_set_ok s \<Longrightarrow> utxo_set_ok (fst (spend_loop is acc s))
     \<and> set_network (fst (spend_loop is acc s)) = set_network s"
proof (induction "is" arbitrary: s acc)
  case Nil
  then show ?case by simp
next
  case (Cons i "is")
  obtain s' r where rm: "utxo_remove s (previous_txid i) (output_index i) = (s', r)"
    by (cases "utxo_remove s (previous_txid i) (output_index i)")
  have "utxo_set_ok s'" "set_network s' = set_network s"
    using utxo_remove_ok [OF Cons.prems, of "previous_txid i" "output_index i"]
      utxo_remove_network [of s "previous_txid i" "output_index i"] by (simp_all add: rm)
  with Cons.IH show ?case by (simp add: rm insert_ignoring_ok split: sum.split)
qed

lemma insert_created_ok:
  "utxo_set_ok s \<Longrightarrow> utxo_set_ok (fst (insert_created es s u))
     \<and> set_network (fst (insert_created es s u)) = set_network s"
proof (induction es arbitrary: s u)
  case Nil
  then show ?case by simp
next
  case (Cons e es)
  obtain s' r where ins: "utxo_insert s e = (s', r)" by (cases "utxo_insert s e")
  have "utxo_set_ok s'" "set_network s' = set_network s"
    using utxo_insert_ok [OF Cons.prems, of e] utxo_insert_network [of s e]
    by (simp_all add: ins)
  with Cons.IH show ?case by (simp add: ins disconnect_block_ok split: sum.split)
qed

lemma apply_transactions_ok:
  "utxo_set_ok s \<Longrightarrow> utxo_set_ok (fst (apply_transactions P h txs s u))
     \<and> set_network (fst (apply_transactions P h txs s u)) = set_network s"
proof (induction txs arbitrary: s u)
  case Nil
  then show ?case by simp
next
  case (Cons tx txs)
  obtain s1 r1 where sp: "spend_inputs s tx = (s1, r1)" by (cases "spend_inputs s tx")
  have ok1: "utxo_set_ok s1" "set_network s1 = set_network s"
    using spend_loop_ok [OF Cons.prems, of "inputs tx" "[]"] sp
    by (simp_all add: spend_inputs_def)
  show ?case
  proof (cases r1)
    case (Inl err)
    then show ?thesis using ok1 by (simp add: sp disconnect_block_ok)
  next
    case (Inr es)
    obtain s2 r2 where cr: "insert_created (create_outputs P tx (set_network s1) h) s1
        (u\<lparr>spent := spent u @ es\<rparr>) = (s2, r2)" by (metis surj_pair)
    have "utxo_set_ok s2" "set_network s2 = set_network s"
      using insert_created_ok [OF ok1(1), of "create_outputs P tx (set_network s1) h"
          "u\<lparr>spent := spent u @ es\<rparr>", unfolded cr] ok1(2) by simp_all
    then show ?thesis using Inr Cons.IH by (simp add: sp cr split: sum.split)
  qed
qed


section \<open>The loops as map operations\<close>

definition input_key :: "tx_input \<Rightarrow> utxo_key" where
  "input_key i = (previous_txid i, output_index i)"

lemma insert_ignoring_entries:
  "\<forall>e\<in>set es. utxo_network e = set_network s \<Longrightarrow>
     set_entries (insert_ignoring es s) = set_entries s ++ entries_of (rev es)"
proof (induction es arbitrary: s)
  case Nil
  then show ?case by simp
next
  case (Cons e es)
  have eq: "set_entries (fst (utxo_insert s e)) = (set_entries s)(entry_key e \<mapsto> e)"
    using Cons.prems by (simp add: utxo_insert_def Let_def)
  have "set_entries (insert_ignoring es (fst (utxo_insert s e)))
      = set_entries (fst (utxo_insert s e)) ++ entries_of (rev es)"
    by (rule Cons.IH) (use Cons.prems in simp)
  then show ?case unfolding insert_ignoring.simps eq by simp
qed

lemma remove_ignoring_entries:
  "set_entries (remove_ignoring es s) = set_entries s |` (- entry_key ` set es)"
proof (induction es arbitrary: s)
  case Nil
  then show ?case by simp
next
  case (Cons e es)
  have "set_entries (fst (utxo_remove s (utxo_txid e) (utxo_output_index e)))
      = (set_entries s)(entry_key e := None)"
    by (auto simp: utxo_remove_def entry_key_def split: option.splits)
  with Cons show ?case by (auto simp: restrict_map_def)
qed

lemma disconnect_block_entries:
  assumes "\<forall>e\<in>set (spent u). utxo_network e = set_network s"
  shows "set_entries (disconnect_block s u)
    = set_entries s |` (- entry_key ` set (created u)) ++ entries_of (rev (spent u))"
  using assms by (simp add: disconnect_block_def insert_ignoring_entries remove_ignoring_entries)

lemma utxo_remove_Inr:
  "utxo_remove s t i = (s', Inr e) \<longleftrightarrow>
     set_entries s (t, i) = Some e \<and> s' = s\<lparr>set_entries := (set_entries s)((t, i) := None)\<rparr>"
  by (auto simp: utxo_remove_def split: option.splits)

lemma utxo_remove_Inl:
  "utxo_remove s t i = (s', Inl err) \<longleftrightarrow> set_entries s (t, i) = None \<and> s' = s \<and> err = MissingUtxo"
  by (auto simp: utxo_remove_def split: option.splits)

lemma utxo_insert_Inr:
  "utxo_insert s e = (s', Inr x) \<longleftrightarrow> utxo_network e = set_network s \<and>
     set_entries s (entry_key e) = None \<and>
     s' = s\<lparr>set_entries := (set_entries s)(entry_key e \<mapsto> e)\<rparr>"
  by (auto simp: utxo_insert_def Let_def)

lemma spend_loop_success:
  assumes "spend_loop is acc s = (s', Inr es)" and "utxo_set_ok s"
  shows "\<exists>sp. es = acc @ sp \<and> map entry_key sp = map input_key is
    \<and> distinct (map input_key is) \<and> (\<forall>e\<in>set sp. set_entries s (entry_key e) = Some e)
    \<and> s' = s\<lparr>set_entries := set_entries s |` (- input_key ` set is)\<rparr>"
  using assms
proof (induction "is" arbitrary: s acc)
  case Nil
  then show ?case by simp
next
  case (Cons i "is")
  then obtain s1 e where rm: "utxo_remove s (previous_txid i) (output_index i) = (s1, Inr e)"
    and rest: "spend_loop is (acc @ [e]) s1 = (s', Inr es)"
    by (auto split: prod.splits sum.splits)
  from rm have e: "set_entries s (input_key i) = Some e"
    and s1: "s1 = s\<lparr>set_entries := (set_entries s)(input_key i := None)\<rparr>"
    by (simp_all add: utxo_remove_Inr input_key_def)
  have "utxo_set_ok s1"
    using utxo_remove_ok [OF Cons.prems(2), of "previous_txid i" "output_index i"] by (simp add: rm)
  from Cons.IH [OF rest this] obtain sp where sp: "es = acc @ e # sp"
    "map entry_key sp = map input_key is" "distinct (map input_key is)"
    "\<forall>x\<in>set sp. set_entries s1 (entry_key x) = Some x"
    "s' = s1\<lparr>set_entries := set_entries s1 |` (- input_key ` set is)\<rparr>" by auto
  have key: "entry_key e = input_key i" by (rule utxo_set_okD(1) [OF Cons.prems(2) e])
  have ne: "entry_key x \<noteq> input_key i \<and> set_entries s (entry_key x) = Some x" if "x \<in> set sp" for x
    using sp(4) that by (auto simp: s1 split: if_splits)
  have "input_key i \<notin> set (map entry_key sp)"
    by (metis (no_types, lifting) imageE list.set_map ne)
  then have fresh: "input_key i \<notin> set (map input_key is)" by (simp only: sp(2) not_False_eq_True)
  have "set_entries s1 |` (- input_key ` set is)
      = set_entries s |` (- input_key ` set (i # is))"
    by (auto simp: s1 restrict_map_def fun_eq_iff)
  then show ?case
    using sp(1,2,3,5) ne key e fresh by (intro exI [of _ "e # sp"]) (auto simp: s1)
qed

lemma spend_loop_failure:
  assumes "spend_loop is acc s = (s', Inl err)" and "utxo_set_ok s"
    and "\<forall>e\<in>set acc. utxo_network e = set_network s"
  shows "err = MissingUtxo \<and> s' = s\<lparr>set_entries := set_entries s ++ entries_of acc\<rparr>"
  using assms
proof (induction "is" arbitrary: s acc)
  case Nil
  then show ?case by simp
next
  case (Cons i "is")
  obtain s1 r where rm: "utxo_remove s (previous_txid i) (output_index i) = (s1, r)"
    by (cases "utxo_remove s (previous_txid i) (output_index i)")
  show ?case
  proof (cases r)
    case (Inl e)
    then show ?thesis
      using Cons.prems rm insert_ignoring_entries [of "rev acc" s]
      by (auto simp: utxo_remove_Inl intro!: utxo_set.equality)
  next
    case (Inr e)
    then have e: "set_entries s (input_key i) = Some e"
      and s1: "s1 = s\<lparr>set_entries := (set_entries s)(input_key i := None)\<rparr>"
      using rm by (simp_all add: utxo_remove_Inr input_key_def)
    have key: "entry_key e = input_key i" and net: "utxo_network e = set_network s"
      using utxo_set_okD [OF Cons.prems(2) e] by simp_all
    have "utxo_set_ok s1"
      using utxo_remove_ok [OF Cons.prems(2), of "previous_txid i" "output_index i"]
      by (simp add: rm)
    moreover have "set_network s1 = set_network s" by (simp add: s1)
    ultimately have "err = MissingUtxo \<and> s' = s1\<lparr>set_entries := set_entries s1 ++ entries_of (acc @ [e])\<rparr>"
      using Cons.IH [of "acc @ [e]" s1] Cons.prems(1,3) net by (simp add: rm Inr)
    moreover have eq: "set_entries s1 ++ entries_of (acc @ [e]) = set_entries s ++ entries_of acc"
      using e key by (auto simp: s1 map_add_def fun_eq_iff split: option.splits)
    ultimately show ?thesis unfolding eq by (simp add: s1)
  qed
qed

section \<open>The journal of a partly applied block\<close>

text \<open>\<open>journal s0 u s\<close>: the set \<open>s\<close> is \<open>s0\<close> with the created outputs added and the spent
  ones taken away, each spent entry being an entry of \<open>s0\<close> or one of the created outputs.\<close>

definition journal :: "utxo_set \<Rightarrow> block_undo \<Rightarrow> utxo_set \<Rightarrow> bool" where
  "journal s0 u s \<longleftrightarrow>
     set_network s = set_network s0
     \<and> (\<forall>e\<in>set (created u). utxo_network e = set_network s0)
     \<and> distinct (map entry_key (created u))
     \<and> entry_key ` set (created u) \<inter> dom (set_entries s0) = {}
     \<and> distinct (map entry_key (spent u))
     \<and> (\<forall>e\<in>set (spent u). (set_entries s0 ++ entries_of (created u)) (entry_key e) = Some e)
     \<and> set_entries s = (set_entries s0 ++ entries_of (created u)) |` (- entry_key ` set (spent u))"

lemma journal_empty: "journal s0 empty_undo s0"
  by (simp add: journal_def empty_undo_def restrict_map_def)

lemma journalD:
  assumes "journal s0 u s"
  shows "set_network s = set_network s0"
    and "\<And>e. e \<in> set (created u) \<Longrightarrow> utxo_network e = set_network s0"
    and "distinct (map entry_key (created u))"
    and "entry_key ` set (created u) \<inter> dom (set_entries s0) = {}"
    and "distinct (map entry_key (spent u))"
    and "\<And>e. e \<in> set (spent u) \<Longrightarrow>
           (set_entries s0 ++ entries_of (created u)) (entry_key e) = Some e"
    and "set_entries s
           = (set_entries s0 ++ entries_of (created u)) |` (- entry_key ` set (spent u))"
  using assms unfolding journal_def by blast+

lemma journal_spent_network:
  assumes "journal s0 u s" and "utxo_set_ok s0" and "e \<in> set (spent u)"
  shows "utxo_network e = set_network s0"
proof -
  from journalD(6) [OF assms(1,3)] consider "entries_of (created u) (entry_key e) = Some e"
    | "set_entries s0 (entry_key e) = Some e" by (auto simp: map_add_Some_iff)
  then show ?thesis
    by cases (use entries_of_key journalD(2) [OF assms(1)] utxo_set_okD(2) [OF assms(2)] in blast)+
qed

lemma journal_ok:
  assumes "journal s0 u s" and "utxo_set_ok s0"
  shows "utxo_set_ok s"
  unfolding utxo_set_ok_def
proof (intro allI impI)
  fix k e assume "set_entries s k = Some e"
  then have "(set_entries s0 ++ entries_of (created u)) k = Some e"
    unfolding journalD(7) [OF assms(1)] by (simp add: restrict_map_def split: if_splits)
  then consider "entries_of (created u) k = Some e" | "set_entries s0 k = Some e"
    by (auto simp: map_add_Some_iff)
  then show "entry_key e = k \<and> utxo_network e = set_network s"
    unfolding journalD(1) [OF assms(1)]
    by cases (use entries_of_key journalD(2) [OF assms(1)] utxo_set_okD [OF assms(2)] in blast)+
qed

lemma journal_spend:
  assumes j: "journal s0 u s" and ok: "utxo_set_ok s0"
    and sp: "spend_inputs s tx = (s1, Inr es)"
  shows "journal s0 (u\<lparr>spent := spent u @ es\<rparr>) s1"
    and "map entry_key es = map input_key (inputs tx)"
proof -
  from spend_loop_success [OF sp [unfolded spend_inputs_def] journal_ok [OF j ok]]
  have keys: "map entry_key es = map input_key (inputs tx)" "distinct (map input_key (inputs tx))"
    and es: "\<And>e. e \<in> set es \<Longrightarrow> set_entries s (entry_key e) = Some e"
    and s1: "s1 = s\<lparr>set_entries := set_entries s |` (- input_key ` set (inputs tx))\<rparr>"
    by auto
  show "map entry_key es = map input_key (inputs tx)" by (rule keys)
  have dist: "distinct (map entry_key es)" using keys by simp
  have img: "entry_key ` set es = input_key ` set (inputs tx)"
    by (metis keys(1) list.set_map)
  have new: "(set_entries s0 ++ entries_of (created u)) (entry_key e) = Some e
      \<and> entry_key e \<notin> entry_key ` set (spent u)" if "e \<in> set es" for e
    using es [OF that] unfolding journalD(7) [OF j] by (simp add: restrict_map_def split: if_splits)
  then have "\<forall>e\<in>set es. entry_key e \<notin> entry_key ` set (spent u)" by simp
  then have "entry_key ` set (spent u) \<inter> entry_key ` set es = {}"
    by (simp add: disjoint_iff image_iff) metis
  then have "distinct (map entry_key (spent u @ es))"
    using dist journalD(5) [OF j] by simp
  moreover have "set_entries s1 = (set_entries s0 ++ entries_of (created u))
      |` (- entry_key ` set (spent u @ es))"
    by (auto simp: s1 journalD(7) [OF j] img [symmetric] restrict_map_def fun_eq_iff)
  ultimately show "journal s0 (u\<lparr>spent := spent u @ es\<rparr>) s1"
    using journalD(1-4,6) [OF j] new unfolding journal_def by (auto simp: s1)
qed

lemma journal_insert:
  assumes j: "journal s0 u s" and ins: "utxo_insert s e = (s', Inr x)"
    and fresh: "entry_key e \<notin> dom (set_entries s0)" "entry_key e \<notin> entry_key ` set (spent u)"
  shows "journal s0 (u\<lparr>created := created u @ [e]\<rparr>) s'"
proof -
  from ins have net: "utxo_network e = set_network s" and none: "set_entries s (entry_key e) = None"
    and s': "s' = s\<lparr>set_entries := (set_entries s)(entry_key e \<mapsto> e)\<rparr>"
    by (simp_all add: utxo_insert_Inr)
  from none fresh have ncr: "entry_key e \<notin> entry_key ` set (created u)"
    by (metis (no_types, lifting) ComplI domIff dom_entries_of journalD(7) [OF j] map_add_None
        restrict_in)
  then have upd: "entries_of (created u @ [e]) = (entries_of (created u))(entry_key e \<mapsto> e)"
    by (simp add: map_add_comm)
  have keep: "(set_entries s0 ++ (entries_of (created u))(entry_key e \<mapsto> e)) (entry_key x) = Some x"
    if "x \<in> set (spent u)" for x
    using journalD(6) [OF j that] fresh(2) that by (auto simp: image_iff)
  have "set_entries s' = (set_entries s0 ++ (entries_of (created u))(entry_key e \<mapsto> e))
      |` (- entry_key ` set (spent u))"
    using fresh(2) by (auto simp: s' journalD(7) [OF j] restrict_map_def fun_eq_iff)
  moreover have "distinct (map entry_key (created u @ [e]))"
    using journalD(3) [OF j] ncr by simp
  ultimately show ?thesis
    using journalD(1,2,4,5) [OF j] net fresh(1) keep unfolding journal_def
    by (simp add: upd s' del: entries_of_simps(3))
qed

lemma journal_create:
  assumes "insert_created es s u = (s', Inr u')" and "journal s0 u s"
    and "\<forall>e\<in>set es. entry_key e \<notin> dom (set_entries s0) \<and> entry_key e \<notin> entry_key ` set (spent u)"
  shows "journal s0 u' s' \<and> created u' = created u @ es \<and> spent u' = spent u"
  using assms
proof (induction es arbitrary: s u)
  case Nil
  then show ?case by simp
next
  case (Cons e es)
  then obtain s1 x where ins: "utxo_insert s e = (s1, Inr x)"
    and rest: "insert_created es s1 (u\<lparr>created := created u @ [e]\<rparr>) = (s', Inr u')"
    by (auto split: prod.splits sum.splits)
  have "journal s0 (u\<lparr>created := created u @ [e]\<rparr>) s1"
    by (rule journal_insert [OF Cons.prems(2) ins]) (use Cons.prems(3) in simp_all)
  from Cons.IH [OF rest this] Cons.prems(3) show ?case by simp
qed

lemma create_outputs_network: "e \<in> set (create_outputs P tx n h) \<Longrightarrow> utxo_network e = n"
  by (auto simp: create_outputs_def utxo_entry_new_def)

lemma create_outputs_txid: "e \<in> set (create_outputs P tx n h) \<Longrightarrow> utxo_txid e = txid P tx"
  by (auto simp: create_outputs_def utxo_entry_new_def)

lemma create_outputs_keys:
  "map entry_key (create_outputs P tx n h)
     = map (\<lambda>i. (txid P tx, of_nat i)) [0..<length (outputs tx)]"
  by (rule nth_equalityI)
    (simp_all add: create_outputs_def entry_key_def utxo_entry_new_def nth_enumerate_eq)

lemma fst_entry_key [simp]: "fst (entry_key e) = utxo_txid e"
  by (simp add: entry_key_def)

text \<open>The spent keys of a journal belong to the initial set or to a created output.\<close>

lemma journal_spent_keys:
  assumes "journal s0 u s" and "e \<in> set (spent u)"
  shows "entry_key e \<in> dom (set_entries s0) \<or> entry_key e \<in> entry_key ` set (created u)"
  using journalD(6) [OF assms] entries_of_key [of "created u" "entry_key e" e]
  by (auto simp: map_add_Some_iff)

section \<open>Applying a block\<close>

text \<open>The transactions of a block are new to the set: their identifiers are distinct and none
  has an entry.\<close>

definition fresh_txs :: "primitives \<Rightarrow> utxo_set \<Rightarrow> transaction list \<Rightarrow> bool" where
  "fresh_txs P s txs \<longleftrightarrow> distinct (map (txid P) txs)
     \<and> (\<forall>tx\<in>set txs. \<forall>i. set_entries s (txid P tx, i) = None)"

definition unlinked_txs :: "primitives \<Rightarrow> transaction list \<Rightarrow> bool" where
  "unlinked_txs P txs \<longleftrightarrow>
     (\<forall>tx\<in>set txs. \<forall>i\<in>set (inputs tx). previous_txid i \<notin> txid P ` set txs)"

lemma apply_step:
  assumes j: "journal s0 u s" and ok: "utxo_set_ok s0"
    and sp: "spend_inputs s tx = (s1, Inr es)"
    and cr: "insert_created (create_outputs P tx (set_network s1) h) s1
               (u\<lparr>spent := spent u @ es\<rparr>) = (s2, Inr u2)"
    and new: "\<forall>i. set_entries s0 (txid P tx, i) = None"
    and other: "txid P tx \<notin> utxo_txid ` set (created u)"
  shows "journal s0 u2 s2 \<and> created u2 = created u @ create_outputs P tx (set_network s0) h
    \<and> map entry_key (spent u2) = map entry_key (spent u) @ map input_key (inputs tx)"
proof -
  note j1 = journal_spend [OF j ok sp]
  have net: "set_network s1 = set_network s0" by (rule journalD(1) [OF j1(1)])
  have "entry_key e \<notin> dom (set_entries s0) \<and>
      entry_key e \<notin> entry_key ` set (spent (u\<lparr>spent := spent u @ es\<rparr>))"
    if e: "e \<in> set (create_outputs P tx (set_network s1) h)" for e
  proof
    from e have t: "utxo_txid e = txid P tx" by (rule create_outputs_txid)
    then show old: "entry_key e \<notin> dom (set_entries s0)"
      using new by (simp add: entry_key_def domIff)
    have "entry_key e \<notin> entry_key ` set (created (u\<lparr>spent := spent u @ es\<rparr>))"
      using other t by (auto simp: entry_key_def)
    with old journal_spent_keys [OF j1(1)]
    show "entry_key e \<notin> entry_key ` set (spent (u\<lparr>spent := spent u @ es\<rparr>))" by fastforce
  qed
  with journal_create [OF cr j1(1)] show ?thesis by (simp add: net j1(2))
qed

lemma apply_transactions_journal:
  assumes "apply_transactions P h txs s u = (s', Inr u')" and "journal s0 u s"
    and "utxo_set_ok s0" and "fresh_txs P s0 txs"
    and "utxo_txid ` set (created u) \<inter> txid P ` set txs = {}"
  shows "journal s0 u' s'
    \<and> created u' = created u @ concat (map (\<lambda>tx. create_outputs P tx (set_network s0) h) txs)
    \<and> map entry_key (spent u')
        = map entry_key (spent u) @ map input_key (concat (map inputs txs))"
  using assms
proof (induction txs arbitrary: s u)
  case Nil
  then show ?case by simp
next
  case (Cons tx txs)
  then obtain s1 es s2 u2 where sp: "spend_inputs s tx = (s1, Inr es)"
    and cr: "insert_created (create_outputs P tx (set_network s1) h) s1
      (u\<lparr>spent := spent u @ es\<rparr>) = (s2, Inr u2)"
    and rest: "apply_transactions P h txs s2 u2 = (s', Inr u')"
    by (auto split: prod.splits sum.splits)
  have new: "\<forall>i. set_entries s0 (txid P tx, i) = None" and txs: "fresh_txs P s0 txs"
    and dist: "txid P tx \<notin> txid P ` set txs"
    using Cons.prems(4) by (auto simp: fresh_txs_def)
  have step: "journal s0 u2 s2 \<and> created u2 = created u @ create_outputs P tx (set_network s0) h
    \<and> map entry_key (spent u2) = map entry_key (spent u) @ map input_key (inputs tx)"
    by (rule apply_step [OF Cons.prems(2,3) sp cr new]) (use Cons.prems(5) in auto)
  have "utxo_txid ` set (created u2) \<inter> txid P ` set txs = {}"
    using step Cons.prems(5) dist create_outputs_txid by fastforce
  with Cons.IH [OF rest _ Cons.prems(3) txs] step show ?case by simp
qed

text \<open>What disconnecting leaves: the initial set, and every output that the block both created
  and spent.\<close>

lemma journal_disconnect:
  assumes j: "journal s0 u s" and ok: "utxo_set_ok s0"
  shows "disconnect_block s u = s0\<lparr>set_entries :=
    set_entries s0 ++ entries_of (created u) |` (entry_key ` set (spent u))\<rparr>"
proof (rule utxo_set.equality)
  have "set_entries (disconnect_block s u)
      = set_entries s |` (- entry_key ` set (created u)) ++ entries_of (spent u)"
    using journal_spent_network [OF j ok] journalD(1,5) [OF j]
    by (subst disconnect_block_entries) (simp_all add: entries_of_rev)
  also have "\<dots> = set_entries s0 ++ entries_of (created u) |` (entry_key ` set (spent u))"
  proof
    fix k
    let ?C = "entry_key ` set (created u)" and ?S = "entry_key ` set (spent u)"
    have C: "entries_of (created u) k = None" if "k \<notin> ?C" using that by (metis domIff dom_entries_of)
    have S: "entries_of (spent u) k = None" if "k \<notin> ?S" using that by (metis domIff dom_entries_of)
    have S': "entries_of (spent u) k = (set_entries s0 ++ entries_of (created u)) k" if "k \<in> ?S"
      using that journalD(6) [OF j] entries_of_distinct [OF journalD(5) [OF j]] by fastforce
    have D: "set_entries s0 k = None" if "k \<in> ?C" using that journalD(4) [OF j] by blast
    show "(set_entries s |` (- ?C) ++ entries_of (spent u)) k
        = (set_entries s0 ++ entries_of (created u) |` ?S) k"
      unfolding journalD(7) [OF j]
      by (cases "k \<in> ?S"; cases "k \<in> ?C")
        (simp_all add: S S' C D map_add_def split: option.splits)
  qed
  finally show "set_entries (disconnect_block s u) = set_entries (s0\<lparr>set_entries :=
    set_entries s0 ++ entries_of (created u) |` (entry_key ` set (spent u))\<rparr>)" by simp
qed (use journalD(1) [OF j] in simp_all)

lemma journal_disconnect_exact:
  assumes "journal s0 u s" and "utxo_set_ok s0"
  shows "disconnect_block s u = s0 \<longleftrightarrow> entry_key ` set (spent u) \<inter> entry_key ` set (created u) = {}"
proof
  let ?C = "entry_key ` set (created u)" and ?S = "entry_key ` set (spent u)"
  assume eq: "disconnect_block s u = s0"
  show "?S \<inter> ?C = {}"
  proof (rule ccontr)
    assume "?S \<inter> ?C \<noteq> {}"
    then obtain k where k: "k \<in> ?S" "k \<in> ?C" by blast
    then obtain e where e: "entries_of (created u) k = Some e" by (metis domD dom_entries_of)
    have "set_entries (disconnect_block s u) k = Some e"
      using k e by (simp add: journal_disconnect [OF assms])
    then show False using eq k(2) journalD(4) [OF assms(1)] by auto
  qed
next
  let ?C = "entry_key ` set (created u)" and ?S = "entry_key ` set (spent u)"
  assume "?S \<inter> ?C = {}"
  then have "entries_of (created u) |` ?S = Map.empty"
    by (metis (no_types, lifting) dom_empty dom_entries_of dom_eq_empty_conv dom_restrict inf_commute)
  then show "disconnect_block s u = s0" by (simp add: journal_disconnect [OF assms])
qed

lemma insert_created_succeeds:
  assumes "distinct (map entry_key es)" and "\<forall>e\<in>set es. entry_key e \<notin> dom (set_entries s)"
    and "\<forall>e\<in>set es. utxo_network e = set_network s"
  shows "\<exists>s' u'. insert_created es s u = (s', Inr u')"
  using assms
proof (induction es arbitrary: s u)
  case Nil
  then show ?case by simp
next
  case (Cons e es)
  let ?s = "s\<lparr>set_entries := (set_entries s)(entry_key e \<mapsto> e)\<rparr>"
  have "utxo_insert s e = (?s, Inr ())"
    using Cons.prems by (auto simp: utxo_insert_def Let_def)
  moreover have "\<exists>s' u'. insert_created es ?s (u\<lparr>created := created u @ [e]\<rparr>) = (s', Inr u')"
  proof (rule Cons.IH)
    have "entry_key x \<noteq> entry_key e" if "x \<in> set es" for x
      using Cons.prems(1) that by (metis distinct.simps(2) image_eqI list.set_map list.simps(9))
    then show "\<forall>x\<in>set es. entry_key x \<notin> dom (set_entries ?s)" using Cons.prems(2) by simp
  qed (use Cons.prems in simp_all)
  ultimately show ?case by simp
qed

lemma create_outputs_distinct:
  assumes "length (outputs tx) \<le> u32_bound"
  shows "distinct (map entry_key (create_outputs P tx n h))"
proof -
  have "inj_on (\<lambda>i. (txid P tx, of_nat i :: u32)) {0..<length (outputs tx)}"
    by (rule inj_onI) (use assms in \<open>simp add: word_of_nat_eq_iff take_bit_nat_def\<close>)
  then show ?thesis by (simp add: create_outputs_keys distinct_map)
qed

lemma create_step_succeeds:
  assumes j: "journal s0 u s" and new: "\<forall>i. set_entries s0 (txid P tx, i) = None"
    and other: "txid P tx \<notin> utxo_txid ` set (created u)"
    and few: "length (outputs tx) \<le> u32_bound"
  shows "\<exists>s' u'. insert_created (create_outputs P tx (set_network s) h) s v = (s', Inr u')"
proof (rule insert_created_succeeds [OF create_outputs_distinct [OF few]])
  show "\<forall>e\<in>set (create_outputs P tx (set_network s) h). entry_key e \<notin> dom (set_entries s)"
  proof
    fix e assume "e \<in> set (create_outputs P tx (set_network s) h)"
    then have t: "utxo_txid e = txid P tx" by (rule create_outputs_txid)
    have "entry_key e \<notin> dom (set_entries s0)" using new t by (simp add: entry_key_def domIff)
    moreover have "entry_key e \<notin> entry_key ` set (created u)"
      using other t by (auto simp: entry_key_def)
    ultimately show "entry_key e \<notin> dom (set_entries s)"
      unfolding journalD(7) [OF j] by simp
  qed
qed (simp add: create_outputs_network)

lemma disjoint_step: "A \<inter> insert t B = {} \<Longrightarrow> t \<notin> B \<Longrightarrow> C \<subseteq> A \<union> {t} \<Longrightarrow> C \<inter> B = {}"
  by blast

lemma subset_step: "C \<subseteq> D \<union> B \<Longrightarrow> D \<subseteq> A \<union> {t} \<Longrightarrow> C \<subseteq> A \<union> insert t B"
  by blast

lemma apply_transactions_failure:
  assumes "apply_transactions P h txs s u = (s', Inl err)" and "journal s0 u s"
    and "utxo_set_ok s0" and "fresh_txs P s0 txs"
    and "utxo_txid ` set (created u) \<inter> txid P ` set txs = {}"
    and "\<forall>tx\<in>set txs. length (outputs tx) \<le> u32_bound"
  shows "err = MissingUtxo \<and> (\<exists>u1 s1. journal s0 u1 s1 \<and> s' = disconnect_block s1 u1
    \<and> entry_key ` set (spent u1)
        \<subseteq> entry_key ` set (spent u) \<union> input_key ` set (concat (map inputs txs))
    \<and> utxo_txid ` set (created u1) \<subseteq> utxo_txid ` set (created u) \<union> txid P ` set txs)"
  using assms
proof (induction txs arbitrary: s u)
  case Nil
  then show ?case by simp
next
  case (Cons tx txs)
  have new: "\<forall>i. set_entries s0 (txid P tx, i) = None" and txs: "fresh_txs P s0 txs"
    and dist: "txid P tx \<notin> txid P ` set txs" and other: "txid P tx \<notin> utxo_txid ` set (created u)"
    using Cons.prems(4,5) by (auto simp: fresh_txs_def)
  have ok: "utxo_set_ok s" by (rule journal_ok [OF Cons.prems(2,3)])
  obtain s1 r1 where sp: "spend_inputs s tx = (s1, r1)" by (cases "spend_inputs s tx")
  show ?case
  proof (cases r1)
    case (Inl e)
    with spend_loop_failure [OF _ ok, of "inputs tx" "[]" s1 e] sp
    have "e = MissingUtxo" "s1 = s" by (simp_all add: spend_inputs_def)
    then show ?thesis using Cons.prems(1,2) sp Inl by auto
  next
    case (Inr es)
    note j1 = journal_spend [OF Cons.prems(2,3) sp [unfolded Inr]]
    obtain s2 u2 where cr: "insert_created (create_outputs P tx (set_network s1) h) s1
        (u\<lparr>spent := spent u @ es\<rparr>) = (s2, Inr u2)"
      using create_step_succeeds [OF j1(1) new, of h "u\<lparr>spent := spent u @ es\<rparr>"] other
        Cons.prems(6) by auto
    note step = apply_step [OF Cons.prems(2,3) sp [unfolded Inr] cr new other]
    have spk: "entry_key ` set (spent u2) = entry_key ` set (spent u) \<union> input_key ` set (inputs tx)"
      by (metis list.set_map set_append step)
    have crk: "utxo_txid ` set (created u2) \<subseteq> utxo_txid ` set (created u) \<union> {txid P tx}"
      using step create_outputs_txid by fastforce
    have "utxo_txid ` set (created u2) \<inter> txid P ` set txs = {}"
      by (rule disjoint_step [OF _ dist crk]) (use Cons.prems(5) in simp)
    moreover have "apply_transactions P h txs s2 u2 = (s', Inl err)"
      using Cons.prems(1) by (simp add: sp Inr cr)
    ultimately obtain u1 sx where err: "err = MissingUtxo" and j: "journal s0 u1 sx"
      and s': "s' = disconnect_block sx u1"
      and S: "entry_key ` set (spent u1)
          \<subseteq> entry_key ` set (spent u2) \<union> input_key ` set (concat (map inputs txs))"
      and C: "utxo_txid ` set (created u1) \<subseteq> utxo_txid ` set (created u2) \<union> txid P ` set txs"
      using Cons.IH [of s2 u2] step Cons.prems(3,6) txs by auto
    have "entry_key ` set (spent u1)
        \<subseteq> entry_key ` set (spent u) \<union> input_key ` set (concat (map inputs (tx # txs)))"
      using S unfolding spk by (simp add: image_Un Un_assoc)
    moreover have "utxo_txid ` set (created u1)
        \<subseteq> utxo_txid ` set (created u) \<union> txid P ` set (tx # txs)"
      using subset_step [OF C crk] by simp
    ultimately show ?thesis using err j s' by blast
  qed
qed

section \<open>Properties of blocks on the set\<close>

lemma unlinked_input_key:
  assumes "unlinked_txs P txs" and "k \<in> input_key ` set (concat (map inputs txs))"
  shows "fst k \<notin> txid P ` set txs"
proof -
  from assms(2) obtain tx i where "tx \<in> set txs" "i \<in> set (inputs tx)" "k = input_key i" by auto
  with assms(1) show ?thesis by (simp add: unlinked_txs_def input_key_def)
qed

lemma disconnect_exact:
  assumes ok: "utxo_set_ok s" and fresh: "fresh_txs P s (transactions b)"
    and app: "apply_block P s b = (s', Inr u)"
  shows "disconnect_block s' u = s \<longleftrightarrow> unlinked_txs P (transactions b)"
proof -
  let ?txs = "transactions b"
  let ?C = "entry_key ` set (created u)" and ?S = "entry_key ` set (spent u)"
  from apply_transactions_journal [OF app [unfolded apply_block_def] journal_empty ok fresh]
  have j: "journal s u s'"
    and cr: "created u = concat (map (\<lambda>tx. create_outputs P tx (set_network s) (height (header b))) ?txs)"
    and sp: "map entry_key (spent u) = map input_key (concat (map inputs ?txs))"
    by (simp_all add: empty_undo_def)
  have S: "?S = input_key ` set (concat (map inputs ?txs))" by (metis list.set_map sp)
  have "?S \<inter> ?C = {} \<longleftrightarrow> unlinked_txs P ?txs"
  proof
    assume disj: "?S \<inter> ?C = {}"
    show "unlinked_txs P ?txs"
      unfolding unlinked_txs_def
    proof (intro ballI notI)
      fix tx i assume tx: "tx \<in> set ?txs" "i \<in> set (inputs tx)" "previous_txid i \<in> txid P ` set ?txs"
      then have "input_key i \<in> ?S" unfolding S by auto
      moreover have "set_entries s (input_key i) = None"
        using tx(3) fresh by (auto simp: fresh_txs_def input_key_def)
      ultimately have "input_key i \<in> ?C" using journal_spent_keys [OF j] by fastforce
      with \<open>input_key i \<in> ?S\<close> disj show False by blast
    qed
  next
    assume "unlinked_txs P ?txs"
    then have "fst k \<notin> txid P ` set ?txs" if "k \<in> ?S" for k
      using that unfolding S by (rule unlinked_input_key)
    moreover have "fst k \<in> txid P ` set ?txs" if "k \<in> ?C" for k
      using that create_outputs_txid by (fastforce simp: cr)
    ultimately show "?S \<inter> ?C = {}" by blast
  qed
  then show ?thesis by (simp add: journal_disconnect_exact [OF j ok])
qed

text \<open>C7: disconnecting a block restores the set exactly when no transaction of the block spends
  an output of another transaction of the same block. The transactions are new to the set.\<close>

theorem disconnect_restores_iff_unlinked:
  assumes "utxo_set_ok s" and "fresh_txs P s (transactions b)"
    and "apply_block P s b = (s', Inr u)"
  shows "disconnect_block s' u = s \<longleftrightarrow> unlinked_txs P (transactions b)"
  using assms by (rule disconnect_exact)

lemma failed_block_keeps_set:
  assumes ok: "utxo_set_ok s" and fresh: "fresh_txs P s (transactions b)"
    and unl: "unlinked_txs P (transactions b)"
    and few: "\<forall>tx\<in>set (transactions b). length (outputs tx) \<le> u32_bound"
    and app: "apply_block P s b = (s', Inl err)"
  shows "err = MissingUtxo \<and> s' = s"
proof -
  let ?txs = "transactions b"
  from apply_transactions_failure [OF app [unfolded apply_block_def] journal_empty ok fresh _ few]
  obtain u1 s1 where err: "err = MissingUtxo" and j: "journal s u1 s1"
    and s': "s' = disconnect_block s1 u1"
    and S: "entry_key ` set (spent u1) \<subseteq> input_key ` set (concat (map inputs ?txs))"
    and C: "utxo_txid ` set (created u1) \<subseteq> txid P ` set ?txs"
    by (auto simp: empty_undo_def)
  have "fst k \<notin> txid P ` set ?txs" if "k \<in> entry_key ` set (spent u1)" for k
    by (rule unlinked_input_key [OF unl subsetD [OF S that]])
  moreover have "fst k \<in> txid P ` set ?txs" if "k \<in> entry_key ` set (created u1)" for k
    using that C by auto
  ultimately have "entry_key ` set (spent u1) \<inter> entry_key ` set (created u1) = {}" by blast
  then show ?thesis using err s' journal_disconnect_exact [OF j ok] by simp
qed

text \<open>C8: a block that cannot be applied leaves no trace: when its transactions are new to the set
  and none spends an output of the block, a failed application reports \<open>MissingUtxo\<close> and gives
  back the set it started from.\<close>

theorem apply_block_failure_restores:
  assumes "utxo_set_ok s" and "fresh_txs P s (transactions b)"
    and "unlinked_txs P (transactions b)"
    and "\<forall>tx\<in>set (transactions b). length (outputs tx) \<le> u32_bound"
    and "apply_block P s b = (s', Inl err)"
  shows "err = MissingUtxo \<and> s' = s"
  using assms by (rule failed_block_keeps_set)

text \<open>C40: an output that repeats a key replaces the entry that was there before the error is
  reported, and the rollback does not bring the old entry back: applying a block with one
  coinbase whose identifier already has an entry fails with \<open>DuplicateUtxo\<close> and changes the set.\<close>

theorem duplicate_coinbase_overwrites:
  assumes "transactions b = [tx]" and "inputs tx = []" and "outputs tx = [out]"
    and "set_entries s (txid P tx, 0) = Some e"
  shows "apply_block P s b = (s\<lparr>set_entries := (set_entries s)((txid P tx, 0) \<mapsto>
      utxo_entry_new (set_network s) (txid P tx) 0 (value_atoms out) (locking_script out)
        (height (header b)) True)\<rparr>, Inl DuplicateUtxo)"
  using assms
  by (simp add: apply_block_def spend_inputs_def create_outputs_def utxo_insert_def Let_def
      utxo_entry_new_def entry_key_def disconnect_block_def empty_undo_def is_coinbase_def)

text \<open>When an output can be spent: a coinbase output from its hundredth confirmation on, the
  block that created it included, and any other output from the height that created it.\<close>

theorem spendable_from_maturity:
  assumes "unat h < u64_max"
  shows "is_spendable_at e h \<longleftrightarrow>
    unat (utxo_created_height e) + (if utxo_is_coinbase e then 99 else 0) \<le> unat h"
proof (cases "h < utxo_created_height e")
  case True
  then have "unat h < unat (utxo_created_height e)" by (simp add: word_less_nat_alt)
  with True show ?thesis
    by (simp add: is_spendable_at_def required_confirmations_def confirmation_count_def Let_def
        CONSENSUS_PARAMS_def)
next
  case False
  then have le: "utxo_created_height e \<le> h" by simp
  then have sub: "unat (h - utxo_created_height e) = unat h - unat (utxo_created_height e)"
    by (simp add: unat_sub word_le_nat_alt)
  have "unat (h - utxo_created_height e + 1) = unat h - unat (utxo_created_height e) + 1"
    using assms by (subst unat_add_lem [THEN iffD1]) (simp_all add: sub)
  with False le show ?thesis
    by (simp add: is_spendable_at_def required_confirmations_def confirmation_count_def Let_def
        CONSENSUS_PARAMS_def word_le_nat_alt) linarith
qed

section \<open>Value\<close>

definition map_value :: "(utxo_key \<rightharpoonup> utxo_entry) \<Rightarrow> nat" where
  "map_value m = (\<Sum>k\<in>dom m. unat (utxo_value_atoms (the (m k))))"

text \<open>The atoms held by all unspent outputs together.\<close>

definition total_value :: "utxo_set \<Rightarrow> nat" where
  "total_value s = map_value (set_entries s)"

definition entries_value :: "utxo_entry list \<Rightarrow> nat" where
  "entries_value es = sum_list (map (\<lambda>e. unat (utxo_value_atoms e)) es)"

lemma entries_value_simps [simp]:
  "entries_value [] = 0"
  "entries_value (e # es) = unat (utxo_value_atoms e) + entries_value es"
  "entries_value (xs @ ys) = entries_value xs + entries_value ys"
  by (simp_all add: entries_value_def)

lemma entries_value_in_map:
  assumes "distinct (map entry_key es)" and "\<forall>e\<in>set es. m (entry_key e) = Some e"
  shows "(\<Sum>k\<in>entry_key ` set es. unat (utxo_value_atoms (the (m k)))) = entries_value es"
  using assms
proof (induction es)
  case (Cons e es)
  then show ?case by (simp add: sum.insert_if)
qed simp

lemma map_value_add:
  assumes "finite (dom m)" and "distinct (map entry_key es)"
    and "entry_key ` set es \<inter> dom m = {}"
  shows "map_value (m ++ entries_of es) = map_value m + entries_value es"
proof -
  let ?m = "m ++ entries_of es"
  have "\<forall>e\<in>set es. ?m (entry_key e) = Some e"
    using entries_of_distinct [OF assms(2)] by simp
  note es = entries_value_in_map [OF assms(2) this]
  have "map_value ?m = (\<Sum>k\<in>dom m. unat (utxo_value_atoms (the (?m k))))
      + (\<Sum>k\<in>entry_key ` set es. unat (utxo_value_atoms (the (?m k))))"
    unfolding map_value_def
    using sum.union_disjoint [of "dom m" "entry_key ` set es"] assms(1,3)
    by (simp add: Int_commute Un_commute)
  also have "(\<Sum>k\<in>dom m. unat (utxo_value_atoms (the (?m k)))) = map_value m"
    unfolding map_value_def
  proof (rule sum.cong [OF refl])
    fix k assume "k \<in> dom m"
    then have "entries_of es k = None" using assms(3) by (metis disjoint_iff domIff dom_entries_of)
    then show "unat (utxo_value_atoms (the (?m k))) = unat (utxo_value_atoms (the (m k)))"
      by (simp add: map_add_def)
  qed
  finally show ?thesis by (simp add: es)
qed

lemma map_value_restrict:
  assumes "finite (dom m)" and "distinct (map entry_key es)" and "\<forall>e\<in>set es. m (entry_key e) = Some e"
  shows "map_value (m |` (- entry_key ` set es)) + entries_value es = map_value m"
proof -
  have sub: "entry_key ` set es \<subseteq> dom m" using assms(3) by auto
  have "dom (m |` (- entry_key ` set es)) = dom m - entry_key ` set es" by auto
  then have "map_value (m |` (- entry_key ` set es))
      = (\<Sum>k\<in>dom m - entry_key ` set es. unat (utxo_value_atoms (the (m k))))"
    unfolding map_value_def by (intro sum.cong) (auto simp: restrict_map_def)
  then show ?thesis
    unfolding map_value_def using sum.subset_diff [OF sub assms(1), of "\<lambda>k. unat (utxo_value_atoms (the (m k)))"]
      entries_value_in_map [OF assms(2,3)] by simp
qed

lemma journal_value:
  assumes j: "journal s0 u s" and fin: "finite (dom (set_entries s0))"
  shows "total_value s + entries_value (spent u) = total_value s0 + entries_value (created u)"
    and "finite (dom (set_entries s))"
proof -
  let ?m = "set_entries s0 ++ entries_of (created u)"
  have "finite (dom ?m)" using fin by simp
  then show "finite (dom (set_entries s))" unfolding journalD(7) [OF j] by simp
  have "map_value (set_entries s) + entries_value (spent u) = map_value ?m"
    unfolding journalD(7) [OF j]
    by (rule map_value_restrict) (use fin journalD(5,6) [OF j] in auto)
  then show "total_value s + entries_value (spent u) = total_value s0 + entries_value (created u)"
    by (simp add: total_value_def map_value_add [OF fin journalD(3,4) [OF j]])
qed

lemma create_outputs_value:
  "entries_value (create_outputs P tx n h) = sum_list (map (\<lambda>out. unat (value_atoms out)) (outputs tx))"
proof -
  have "map (\<lambda>e. utxo_value_atoms e) (create_outputs P tx n h) = map value_atoms (outputs tx)"
    by (rule nth_equalityI) (simp_all add: create_outputs_def utxo_entry_new_def nth_enumerate_eq)
  then have "map unat (map utxo_value_atoms (create_outputs P tx n h))
      = map unat (map value_atoms (outputs tx))" by simp
  then show ?thesis by (simp add: entries_value_def comp_def)
qed

section \<open>Examples\<close>

definition example_entry :: utxo_entry where
  "example_entry = utxo_entry_new Testnet (replicate 48 7) 2 1500 [1, 2] 10 False"

definition example_utxo_set :: utxo_set where
  "example_utxo_set = \<lparr>set_network = Testnet,
     set_entries = [(replicate 48 7, 2) \<mapsto> example_entry]\<rparr>"

text \<open>A transaction that spends the first output of \<^const>\<open>example_spend\<close>.\<close>

definition example_child :: transaction where
  "example_child = example_spend\<lparr>inputs := [\<lparr>previous_txid = txid example_primitives example_spend,
     output_index = 0, unlocking_script = [9]\<rparr>]\<rparr>"

definition example_linked_block :: block where
  "example_linked_block = default_block\<lparr>transactions := [example_spend, example_child]\<rparr>"

lemma example_utxo_set_ok: "utxo_set_ok example_utxo_set"
  by (simp add: utxo_set_ok_def example_utxo_set_def example_entry_def entry_key_def
      utxo_entry_new_def)

lemma example_txid_bytes:
  assumes "inputs tx = i # is" and "length (previous_txid i) = 48"
  shows "txid example_primitives tx ! 0 = u16_le (tx_version tx) ! 0"
    and "txid example_primitives tx ! 6 = previous_txid i ! 0"
  using assms
  by (simp_all add: txid_base_bytes tx_base_bytes_def write_base_bytes_def example_primitives_def
     tx_input_bytes_def nth_append)

lemma example_txids:
  "txid example_primitives example_spend \<noteq> txid example_primitives example_child"
  "txid example_primitives example_spend \<noteq> replicate 48 7"
  "txid example_primitives example_child \<noteq> replicate 48 7"
proof -
  have one: "u16_le 1 ! 0 = 1" by code_simp
  have a: "txid example_primitives example_spend ! 0 = 1" "txid example_primitives example_spend ! 6 = 7"
    using example_txid_bytes [of example_spend] one by (simp_all add: example_spend_def)
  have b: "txid example_primitives example_child ! 0 = 1" "txid example_primitives example_child ! 6 = 1"
    using example_txid_bytes [of example_child] one a(1)
    by (simp_all add: example_child_def) (simp_all add: example_spend_def txid_base_bytes)
  show "txid example_primitives example_spend \<noteq> txid example_primitives example_child"
    using a(2) b(2) by auto
  show "txid example_primitives example_spend \<noteq> replicate 48 7" using a(1) by auto
  show "txid example_primitives example_child \<noteq> replicate 48 7" using b(1) by auto
qed

lemma example_linked_fresh:
  "fresh_txs example_primitives example_utxo_set (transactions example_linked_block)"
  using example_txids by (simp add: fresh_txs_def example_linked_block_def example_utxo_set_def)

lemma example_linked_applies:
  "\<exists>s u. apply_block example_primitives example_utxo_set example_linked_block = (s, Inr u)"
proof -
  have parts: "inputs example_spend = [\<lparr>previous_txid = replicate 48 7, output_index = 2,
      unlocking_script = [1, 2]\<rparr>]" "inputs example_child = [\<lparr>previous_txid =
      txid example_primitives example_spend, output_index = 0, unlocking_script = [9]\<rparr>]"
    "outputs example_spend = [\<lparr>value_atoms = 1000, locking_script = [9]\<rparr>]"
    "outputs example_child = outputs example_spend"
    by (simp_all add: example_spend_def example_child_def)
  show ?thesis
    using example_txids
    by (simp add: apply_block_def example_linked_block_def spend_inputs_def parts utxo_remove_def
        create_outputs_def utxo_insert_def Let_def utxo_entry_new_def entry_key_def
        empty_undo_def example_utxo_set_def)
qed

theorem disconnect_restores_iff_unlinked_witness:
  "\<exists>s u. apply_block example_primitives example_utxo_set example_linked_block = (s, Inr u)
     \<and> disconnect_block s u \<noteq> example_utxo_set"
proof -
  obtain s u where app: "apply_block example_primitives example_utxo_set example_linked_block
      = (s, Inr u)" using example_linked_applies by blast
  have "\<not> unlinked_txs example_primitives (transactions example_linked_block)"
    by (simp add: unlinked_txs_def example_linked_block_def example_child_def)
  with disconnect_restores_iff_unlinked [OF example_utxo_set_ok example_linked_fresh app] app
  show ?thesis by blast
qed

theorem apply_block_failure_restores_witness:
  "(let b = default_block\<lparr>transactions := [example_spend]\<rparr>
    in \<exists>s. apply_block example_primitives (utxo_set_new Testnet) b = (s, Inl MissingUtxo)
         \<and> s = utxo_set_new Testnet)"
proof -
  define b where "b = default_block\<lparr>transactions := [example_spend]\<rparr>"
  obtain s err where app: "apply_block example_primitives (utxo_set_new Testnet) b = (s, Inl err)"
    by (simp add: b_def apply_block_def spend_inputs_def utxo_remove_def utxo_set_new_def
        example_spend_def)
  have "fresh_txs example_primitives (utxo_set_new Testnet) (transactions b)"
    by (simp add: fresh_txs_def utxo_set_new_def b_def)
  moreover have "unlinked_txs example_primitives (transactions b)"
    using example_txids(2)
    by (simp add: unlinked_txs_def b_def) (simp add: example_spend_def)
  moreover have "\<forall>tx\<in>set (transactions b). length (outputs tx) \<le> u32_bound"
    by (simp add: b_def example_spend_def)
  ultimately show ?thesis
    using apply_block_failure_restores [OF utxo_set_new_ok _ _ _ app] app
    by (simp flip: b_def)
qed

definition example_coinbase :: transaction where
  "example_coinbase = example_spend\<lparr>inputs := []\<rparr>"

theorem duplicate_coinbase_overwrites_witness:
  "(let t = txid example_primitives example_coinbase;
        e = utxo_entry_new Testnet t 0 1000 [9] 5 True;
        s = \<lparr>set_network = Testnet, set_entries = [(t, 0) \<mapsto> e]\<rparr>;
        b = default_block\<lparr>header := default_header\<lparr>height := 6\<rparr>,
              transactions := [example_coinbase]\<rparr>
    in set_entries (fst (apply_block example_primitives s b)) (t, 0)
         = Some (e\<lparr>utxo_created_height := 6\<rparr>))"
  using duplicate_coinbase_overwrites [of "default_block\<lparr>header := default_header\<lparr>height := 6\<rparr>,
      transactions := [example_coinbase]\<rparr>" example_coinbase
      "\<lparr>value_atoms = 1000, locking_script = [9]\<rparr>"
      "\<lparr>set_network = Testnet, set_entries = [(txid example_primitives example_coinbase, 0) \<mapsto>
         utxo_entry_new Testnet (txid example_primitives example_coinbase) 0 1000 [9] 5 True]\<rparr>"
      example_primitives
      "utxo_entry_new Testnet (txid example_primitives example_coinbase) 0 1000 [9] 5 True"]
  by (simp add: Let_def utxo_entry_new_def) (simp add: example_coinbase_def example_spend_def)

theorem spendable_from_maturity_witness:
  "\<not> is_spendable_at (utxo_entry_coinbase Testnet [] 0 1 [] 5) 103
   \<and> is_spendable_at (utxo_entry_coinbase Testnet [] 0 1 [] 5) 104"
  using spendable_from_maturity [of 103 "utxo_entry_coinbase Testnet [] 0 1 [] 5"]
    spendable_from_maturity [of 104 "utxo_entry_coinbase Testnet [] 0 1 [] 5"]
  by (simp add: utxo_entry_coinbase_def utxo_entry_new_def)

end
