(* ===== verification/Utxo_Store.thy ===== *)
theory Utxo_Store
  imports Utxo
begin

text \<open>
  The interface that block processing uses of a store of unspent outputs: looking up, removing
  and inserting entries. The locale \<open>utxo_store\<close> states what each operation promises, and
  \<open>utxo_simulation\<close> relates two stores that show the same entries apart from a fixed set of
  extra ones. The in-memory set of \<^verbatim>\<open>utxo.rs\<close> is an instance here; the validation overlay is one
  in the theory of validation.
\<close>

section \<open>Loops over a store\<close>

fun remove_all ::
  "('s \<Rightarrow> utxo_key \<Rightarrow> 's \<times> ('e + utxo_entry)) \<Rightarrow> utxo_key list \<Rightarrow> 's \<Rightarrow> ('s \<times> utxo_entry list) option" where
  "remove_all rem [] s = Some (s, [])"
| "remove_all rem (k # ks) s =
     (case rem s k of
        (s', Inr e) \<Rightarrow> map_option (apsnd (Cons e)) (remove_all rem ks s')
      | (_, Inl _) \<Rightarrow> None)"

fun insert_all ::
  "('s \<Rightarrow> utxo_entry \<Rightarrow> 's \<times> ('e + unit)) \<Rightarrow> utxo_entry list \<Rightarrow> 's \<Rightarrow> 's option" where
  "insert_all ins [] s = Some s"
| "insert_all ins (e # es) s =
     (case ins s e of (s', Inr _) \<Rightarrow> insert_all ins es s' | (_, Inl _) \<Rightarrow> None)"

section \<open>The interface\<close>

locale utxo_store =
  fixes look :: "'s \<Rightarrow> utxo_key \<Rightarrow> utxo_entry option"
    and rem :: "'s \<Rightarrow> utxo_key \<Rightarrow> 's \<times> ('e + utxo_entry)"
    and ins :: "'s \<Rightarrow> utxo_entry \<Rightarrow> 's \<times> ('e + unit)"
    and fits :: "'s \<Rightarrow> utxo_entry \<Rightarrow> bool"
    and ok :: "'s \<Rightarrow> bool"
  assumes rem_hit: "ok s \<Longrightarrow> look s k = Some e \<Longrightarrow>
      \<exists>s'. rem s k = (s', Inr e) \<and> look s' = (look s)(k := None) \<and> fits s' = fits s \<and> ok s'"
    and rem_miss: "look s k = None \<Longrightarrow> \<exists>s' err. rem s k = (s', Inl err)"
    and ins_new: "ok s \<Longrightarrow> fits s e \<Longrightarrow> look s (entry_key e) = None \<Longrightarrow>
      \<exists>s'. ins s e = (s', Inr ()) \<and> look s' = (look s)(entry_key e \<mapsto> e) \<and> fits s' = fits s \<and> ok s'"
    and ins_dup: "look s (entry_key e) \<noteq> None \<or> \<not> fits s e \<Longrightarrow> \<exists>s' err. ins s e = (s', Inl err)"
begin

lemma remove_all_sound:
  "ok s \<Longrightarrow> remove_all rem ks s = Some (s', es) \<Longrightarrow> distinct ks \<and> map (look s) ks = map Some es
     \<and> look s' = look s |` (- set ks) \<and> fits s' = fits s \<and> ok s'"
proof (induction ks arbitrary: s es)
  case Nil
  then show ?case by (simp add: restrict_map_def)
next
  case (Cons k ks)
  obtain s1 e es' where k: "rem s k = (s1, Inr e)" and rest: "remove_all rem ks s1 = Some (s', es')"
    and es: "es = e # es'"
    using Cons.prems(2) by (auto split: prod.splits sum.splits)
  have "look s k \<noteq> None" using rem_miss [of s k] k by auto
  then have e: "look s k = Some e" and s1: "look s1 = (look s)(k := None)" "fits s1 = fits s"
    and ok1: "ok s1"
    using rem_hit [OF Cons.prems(1), of k] k by auto
  note IH = Cons.IH [OF ok1 rest]
  have len: "length ks = length es'" using IH by (metis length_map)
  have new: "k \<notin> set ks"
  proof
    assume "k \<in> set ks"
    then obtain j where j: "j < length ks" "ks ! j = k" by (metis in_set_conv_nth)
    then have "look s1 k = Some (es' ! j)" using IH len by (metis nth_map)
    then show False by (simp add: s1)
  qed
  then have "map (look s1) ks = map (look s) ks" by (auto simp: s1)
  moreover have "look s1 |` (- set ks) = look s |` (- set (k # ks))"
    by (auto simp: s1 restrict_map_def fun_eq_iff)
  ultimately show ?case using IH e es new s1(2) by simp
qed

lemma remove_all_complete:
  "ok s \<Longrightarrow> distinct ks \<Longrightarrow> map (look s) ks = map Some es \<Longrightarrow> \<exists>s'. remove_all rem ks s = Some (s', es)"
proof (induction ks arbitrary: s es)
  case Nil
  then show ?case by simp
next
  case (Cons k ks)
  then obtain e es' where es: "es = e # es'" "look s k = Some e" "map (look s) ks = map Some es'"
    by (cases es) auto
  with rem_hit [OF Cons.prems(1)] obtain s1 where s1: "rem s k = (s1, Inr e)"
    "look s1 = (look s)(k := None)" "ok s1" by blast
  have "map (look s1) ks = map Some es'"
    using Cons.prems(2) es(3) by (metis (no_types, lifting) distinct.simps(2) fun_upd_other
        map_eq_conv s1(2))
  with Cons.IH [OF s1(3)] Cons.prems(2) obtain s' where "remove_all rem ks s1 = Some (s', es')" by auto
  then show ?case by (simp add: s1(1) es)
qed

lemma insert_all_sound:
  "ok s \<Longrightarrow> insert_all ins es s = Some s' \<Longrightarrow> distinct (map entry_key es)
     \<and> entry_key ` set es \<inter> dom (look s) = {} \<and> (\<forall>e\<in>set es. fits s e)
     \<and> look s' = look s ++ entries_of es \<and> fits s' = fits s \<and> ok s'"
proof (induction es arbitrary: s)
  case Nil
  then show ?case by simp
next
  case (Cons e es)
  obtain s1 x where e: "ins s e = (s1, Inr x)" and rest: "insert_all ins es s1 = Some s'"
    using Cons.prems(2) by (auto split: prod.splits sum.splits)
  have new: "look s (entry_key e) = None" and fit: "fits s e"
    using ins_dup [of s e] e by (metis Pair_inject sum.distinct(1))+
  then have s1: "look s1 = (look s)(entry_key e \<mapsto> e)" "fits s1 = fits s" and ok1: "ok s1"
    using ins_new [OF Cons.prems(1) fit] e by auto
  note IH = Cons.IH [OF ok1 rest]
  have "entry_key ` set es \<inter> dom ((look s)(entry_key e \<mapsto> e)) = {}"
    using IH unfolding s1(1) by (elim conjE)
  then have disj: "entry_key ` set es \<inter> insert (entry_key e) (dom (look s)) = {}" by simp
  have "look s ++ entries_of (e # es) = (look s)(entry_key e \<mapsto> e) ++ entries_of es"
  proof -
    have "entries_of es (entry_key e) = None" using disj by (metis disjoint_iff domIff dom_entries_of insertI1)
    then show ?thesis by (auto simp: map_add_def fun_eq_iff split: option.splits)
  qed
  then have "look s' = look s ++ entries_of (e # es)" using IH by (simp only: s1(1))
  moreover have "distinct (map entry_key (e # es)) \<and> entry_key ` set (e # es) \<inter> dom (look s) = {}
      \<and> (\<forall>x\<in>set (e # es). fits s x) \<and> fits s' = fits s \<and> ok s'"
    using IH new fit disj s1(2) by auto
  ultimately show ?case by blast
qed

lemma insert_all_complete:
  "ok s \<Longrightarrow> distinct (map entry_key es) \<Longrightarrow> entry_key ` set es \<inter> dom (look s) = {} \<Longrightarrow>
     \<forall>e\<in>set es. fits s e \<Longrightarrow> \<exists>s'. insert_all ins es s = Some s'"
proof (induction es arbitrary: s)
  case Nil
  then show ?case by simp
next
  case (Cons e es)
  have "look s (entry_key e) = None" "fits s e" using Cons.prems(3,4) by auto
  with ins_new [OF Cons.prems(1)] obtain s1 where s1: "ins s e = (s1, Inr ())"
    "look s1 = (look s)(entry_key e \<mapsto> e)" "fits s1 = fits s" "ok s1" by blast
  have dis: "entry_key ` set es \<inter> dom (look s1) = {}"
    using Cons.prems(2,3) by (simp add: s1(2))
  have "\<exists>s'. insert_all ins es s1 = Some s'"
    by (rule Cons.IH [OF s1(4) _ dis]) (use Cons.prems(2,4) s1(3) in simp_all)
  then show ?case by (simp add: s1(1))
qed

end

section \<open>Two stores with the same entries\<close>

text \<open>The concrete store shows the entries of the abstract one and those of \<open>extra\<close>, which lie
  elsewhere. What the abstract store can do, the concrete one can.\<close>

locale utxo_simulation =
  abs: utxo_store alook arem ains afits aok + con: utxo_store clook crem cins cfits cok
  for alook :: "'a \<Rightarrow> utxo_key \<Rightarrow> utxo_entry option"
    and arem :: "'a \<Rightarrow> utxo_key \<Rightarrow> 'a \<times> ('e + utxo_entry)"
    and ains :: "'a \<Rightarrow> utxo_entry \<Rightarrow> 'a \<times> ('e + unit)"
    and afits :: "'a \<Rightarrow> utxo_entry \<Rightarrow> bool"
    and aok :: "'a \<Rightarrow> bool"
    and clook :: "'c \<Rightarrow> utxo_key \<Rightarrow> utxo_entry option"
    and crem :: "'c \<Rightarrow> utxo_key \<Rightarrow> 'c \<times> ('f + utxo_entry)"
    and cins :: "'c \<Rightarrow> utxo_entry \<Rightarrow> 'c \<times> ('f + unit)"
    and cfits :: "'c \<Rightarrow> utxo_entry \<Rightarrow> bool"
    and cok :: "'c \<Rightarrow> bool"
begin

lemma remove_all_sim:
  assumes oks: "cok s" "aok t"
    and rel: "clook s = alook t ++ extra" "dom extra \<inter> dom (alook t) = {}"
    and run: "remove_all arem ks t = Some (t', es)"
  shows "\<exists>s'. remove_all crem ks s = Some (s', es) \<and> clook s' = alook t' ++ extra
    \<and> dom extra \<inter> dom (alook t') = {} \<and> cfits s' = cfits s \<and> cok s' \<and> aok t'"
proof -
  note a = abs.remove_all_sound [OF oks(2) run]
  have keys: "k \<in> dom (alook t)" if "k \<in> set ks" for k
    using that a by (metis domI image_iff list.set_map)
  have "clook s k = alook t k" if "k \<in> set ks" for k
  proof -
    have "extra k = None" using keys [OF that] rel(2) by blast
    then show ?thesis by (simp add: rel(1) map_add_def)
  qed
  then have "map (clook s) ks = map Some es"
    using a by (metis (no_types, lifting) map_eq_conv)
  with con.remove_all_complete [OF oks(1), of ks es] a obtain s'
    where s': "remove_all crem ks s = Some (s', es)" by blast
  note c = con.remove_all_sound [OF oks(1) s']
  have "clook s' = alook t' ++ extra"
  proof
    fix k
    have "k \<in> set ks \<Longrightarrow> extra k = None" using keys rel(2) by blast
    then show "clook s' k = (alook t' ++ extra) k"
      using a c rel(1) by (cases "k \<in> set ks") (simp_all add: map_add_def restrict_map_def)
  qed
  then show ?thesis using s' a c rel(2) by auto
qed

lemma insert_all_sim:
  assumes oks: "cok s" "aok t"
    and rel: "clook s = alook t ++ extra" "dom extra \<inter> dom (alook t) = {}"
    and run: "insert_all ains es t = Some t'"
    and fit: "\<forall>e\<in>set es. cfits s e" and out: "entry_key ` set es \<inter> dom extra = {}"
  shows "\<exists>s'. insert_all cins es s = Some s' \<and> clook s' = alook t' ++ extra
    \<and> dom extra \<inter> dom (alook t') = {} \<and> cfits s' = cfits s \<and> cok s' \<and> aok t'"
proof -
  note a = abs.insert_all_sound [OF oks(2) run]
  have "entry_key ` set es \<inter> dom (clook s) = {}" using a out by (auto simp: rel(1))
  with con.insert_all_complete [OF oks(1) _ _ fit] a obtain s' where s': "insert_all cins es s = Some s'"
    by blast
  note c = con.insert_all_sound [OF oks(1) s']
  have "extra ++ entries_of es = entries_of es ++ extra"
    using out by (intro map_add_comm) auto
  then have "clook s' = alook t' ++ extra"
    using a c rel(1) by (metis map_add_assoc)
  moreover have "dom extra \<inter> dom (alook t') = {}"
    using a rel(2) out by auto
  ultimately show ?thesis using s' a c by blast
qed

end

section \<open>The in-memory set is a store\<close>

definition utxo_remove_key :: "utxo_set \<Rightarrow> utxo_key \<Rightarrow> utxo_set \<times> (storage_error + utxo_entry)" where
  "utxo_remove_key s k = utxo_remove s (fst k) (snd k)"

definition utxo_fits :: "utxo_set \<Rightarrow> utxo_entry \<Rightarrow> bool" where
  "utxo_fits s e \<longleftrightarrow> utxo_network e = set_network s"

interpretation mem: utxo_store set_entries utxo_remove_key utxo_insert utxo_fits utxo_set_ok
proof unfold_locales
  fix s k e assume "utxo_set_ok s" "set_entries s k = Some e"
  then show "\<exists>s'. utxo_remove_key s k = (s', Inr e)
      \<and> set_entries s' = (set_entries s)(k := None) \<and> utxo_fits s' = utxo_fits s \<and> utxo_set_ok s'"
    using utxo_remove_ok [of s "fst k" "snd k"]
    by (auto simp: utxo_remove_key_def utxo_remove_def utxo_fits_def fun_eq_iff)
next
  fix s k
  show "set_entries s k = None \<Longrightarrow> \<exists>s' err. utxo_remove_key s k = (s', Inl err)"
    by (auto simp: utxo_remove_key_def utxo_remove_def)
next
  fix s e assume "utxo_set_ok s" "utxo_fits s e" "set_entries s (entry_key e) = None"
  then show "\<exists>s'. utxo_insert s e = (s', Inr ()) \<and> set_entries s' = (set_entries s)(entry_key e \<mapsto> e)
      \<and> utxo_fits s' = utxo_fits s \<and> utxo_set_ok s'"
    using utxo_insert_ok [of s e] by (auto simp: utxo_insert_def utxo_fits_def fun_eq_iff)
next
  fix s e
  show "set_entries s (entry_key e) \<noteq> None \<or> \<not> utxo_fits s e \<Longrightarrow>
      \<exists>s' err. utxo_insert s e = (s', Inl err)"
    by (auto simp: utxo_insert_def utxo_fits_def Let_def)
qed

text \<open>The loops of \<^verbatim>\<open>utxo.rs\<close> are the generic ones when these succeed.\<close>

lemma spend_loop_remove_all:
  "remove_all utxo_remove_key (map input_key is) s = Some (s', es) \<Longrightarrow>
     spend_loop is acc s = (s', Inr (acc @ es))"
  by (induction "is" arbitrary: s acc es)
    (auto simp: utxo_remove_key_def input_key_def split: prod.splits sum.splits)

lemma insert_created_insert_all:
  "insert_all utxo_insert es s = Some s' \<Longrightarrow>
     insert_created es s u = (s', Inr (u\<lparr>created := created u @ es\<rparr>))"
  by (induction es arbitrary: s u) (auto split: prod.splits sum.splits)

end
