(* ===== verification/Address.thy ===== *)
theory Address
  imports Network Encoding
begin

text \<open>
  Addresses (\<^verbatim>\<open>crates/atho-core/src/address.rs\<close>). A Rust string is the list of its UTF-8
  bytes, so that \<open>len\<close> counts bytes and slicing checks character boundaries as the
  language does: a slice through a character is the failure \<open>Panic\<close>. Base-56 digits and decoded
  bytes are natural numbers below the radix while they are accumulated.
\<close>

section \<open>Definitions\<close>

datatype address_error = InvalidAlphabet | InvalidPrefix | InvalidChecksum

datatype address_failure = AddressError address_error | Panic

record address_parts =
  ap_network :: network
  ap_visible_prefix :: char
  base56_address :: string
  hashed_public_key :: string
  payment_digest :: bytes
  checksum :: bytes

fun position :: "'a \<Rightarrow> 'a list \<Rightarrow> nat option" where
  "position c [] = None"
| "position c (x # xs) = (if x = c then Some 0 else map_option Suc (position c xs))"

definition base56_value :: "char \<Rightarrow> nat option" where
  "base56_value c = position c BASE56_ALPHABET"

text \<open>One pass of the inner loops: multiply a little-endian number by \<open>m\<close>, add a carry and push
  what is left of the carry.\<close>

fun propagate :: "nat \<Rightarrow> nat \<Rightarrow> nat list \<Rightarrow> nat \<Rightarrow> nat list \<times> nat" where
  "propagate m base [] carry = ([], carry)"
| "propagate m base (d # ds) carry =
     (let v = d * m + carry; (ds', carry') = propagate m base ds (v div base)
      in (v mod base # ds', carry'))"

fun push_carry :: "nat \<Rightarrow> nat \<Rightarrow> nat list" where
  "push_carry base carry =
     (if carry > 0 \<and> base > 1 then (carry mod base) # push_carry base (carry div base) else [])"

declare push_carry.simps [simp del]

definition radix_step :: "nat \<Rightarrow> nat \<Rightarrow> nat list \<Rightarrow> nat \<Rightarrow> nat list" where
  "radix_step m base ds carry =
     (let (ds', carry') = propagate m base ds carry in ds' @ push_carry base carry')"

definition base56_digits :: "bytes \<Rightarrow> nat list" where
  "base56_digits bs = foldl (\<lambda>ds b. radix_step 256 (length BASE56_ALPHABET) ds (unat b)) [0] bs"

definition base56_encode_bytes :: "bytes \<Rightarrow> string" where
  "base56_encode_bytes bs =
     (if bs = [] then [BASE56_ALPHABET ! 0]
      else map (\<lambda>d. BASE56_ALPHABET ! d) (rev (base56_digits bs)))"

definition base56_encode_fixed_bytes :: "bytes \<Rightarrow> usize \<Rightarrow> string" where
  "base56_encode_fixed_bytes bs width =
     (let encoded = base56_encode_bytes bs
      in if length encoded \<ge> width then encoded
         else replicate (width - length encoded) (BASE56_ALPHABET ! 0) @ encoded)"

fun base56_accumulate :: "string \<Rightarrow> nat list \<Rightarrow> nat list option" where
  "base56_accumulate [] bs = Some bs"
| "base56_accumulate (c # cs) bs = (case base56_value c of
       None \<Rightarrow> None
     | Some v \<Rightarrow> base56_accumulate cs (rev (radix_step (length BASE56_ALPHABET) 256 (rev bs) v)))"

definition base56_decode_to_bytes :: "string \<Rightarrow> usize \<Rightarrow> address_error + bytes" where
  "base56_decode_to_bytes s expected_len =
     (if s = [] then Inl InvalidAlphabet
      else case base56_accumulate s [0] of
        None \<Rightarrow> Inl InvalidAlphabet
      | Some bs \<Rightarrow>
          if length bs > expected_len then Inl InvalidChecksum
          else Inr (replicate (expected_len - length bs) 0 @ map word_of_nat bs))"

definition address_checksum :: "primitives \<Rightarrow> char \<Rightarrow> string \<Rightarrow> bytes" where
  "address_checksum P prefix body =
     take ADDRESS_CHECKSUM_BYTES (sha3_256 P (of_char prefix # as_bytes body))"

definition role_digest_from_pubkey :: "primitives \<Rightarrow> network \<Rightarrow> bytes \<Rightarrow> string \<Rightarrow> bytes" where
  "role_digest_from_pubkey P network public_key role =
     sha3_256 P (as_bytes role @ [0] @ as_bytes (domain_tag network) @ [0] @ public_key)"

definition public_key_digest :: "primitives \<Rightarrow> network \<Rightarrow> bytes \<Rightarrow> bytes" where
  "public_key_digest P network public_key =
     role_digest_from_pubkey P network public_key ADDRESS_ROLE_DOMAIN"

text \<open>\<open>hex::encode\<close> and \<open>hex::decode\<close>: lower-case output, either case accepted.\<close>

definition hex_digits :: string where "hex_digits = ''0123456789abcdef''"

definition hex_encode :: "bytes \<Rightarrow> string" where
  "hex_encode bs = concat (map (\<lambda>b. [hex_digits ! (unat b div 16), hex_digits ! (unat b mod 16)]) bs)"

definition hex_value :: "char \<Rightarrow> nat option" where
  "hex_value c = (case position c hex_digits of Some v \<Rightarrow> Some v | None \<Rightarrow> position c ''0123456789ABCDEF'')"

fun hex_decode :: "string \<Rightarrow> bytes option" where
  "hex_decode [] = Some []"
| "hex_decode [c] = None"
| "hex_decode (a # b # s) = (case (hex_value a, hex_value b, hex_decode s) of
       (Some x, Some y, Some bs) \<Rightarrow> Some (word_of_nat (x * 16 + y) # bs)
     | _ \<Rightarrow> None)"

definition hashed_public_key_from_digest :: "network \<Rightarrow> bytes \<Rightarrow> string" where
  "hashed_public_key_from_digest network digest = internal_hpk_prefix network @ hex_encode digest"

definition payment_digest_from_locking_script :: "bytes \<Rightarrow> bytes option" where
  "payment_digest_from_locking_script locking_script =
     (if length locking_script = ADDRESS_DIGEST_BYTES then Some locking_script else None)"

definition is_canonical_payment_locking_script :: "bytes \<Rightarrow> bool" where
  "is_canonical_payment_locking_script locking_script \<longleftrightarrow>
     payment_digest_from_locking_script locking_script \<noteq> None"

definition strip_prefix :: "string \<Rightarrow> string \<Rightarrow> string option" where
  "strip_prefix p s = (if take (length p) s = p then Some (drop (length p) s) else None)"

definition internal_hpk_bytes :: "network \<Rightarrow> string \<Rightarrow> bytes option" where
  "internal_hpk_bytes network internal_hpk =
     (case strip_prefix (internal_hpk_prefix network) internal_hpk of
        None \<Rightarrow> None
      | Some body \<Rightarrow> if length body \<noteq> SHA3_384_HASH_HEX_CHARS then None else hex_decode body)"

definition is_base56_char :: "char \<Rightarrow> bool" where
  "is_base56_char c \<longleftrightarrow> c \<in> set BASE56_ALPHABET"

definition is_visible_prefix :: "char \<Rightarrow> bool" where
  "is_visible_prefix c \<longleftrightarrow> c \<in> set ''ATRP''"

definition encode_base56_address :: "primitives \<Rightarrow> network \<Rightarrow> bytes \<Rightarrow> string" where
  "encode_base56_address P network digest =
     (let prefix = visible_prefix network;
          body = base56_encode_bytes digest;
          sum = address_checksum P prefix body;
          checksum_body = base56_encode_fixed_bytes sum ADDRESS_CHECKSUM_BASE56_CHARS
      in [prefix] @ body @ checksum_body)"

definition address_parts_from_public_key :: "primitives \<Rightarrow> network \<Rightarrow> bytes \<Rightarrow> address_parts" where
  "address_parts_from_public_key P network public_key =
     (let digest = public_key_digest P network public_key;
          prefix = visible_prefix network;
          body = base56_encode_bytes digest;
          sum = address_checksum P prefix body;
          checksum_body = base56_encode_fixed_bytes sum ADDRESS_CHECKSUM_BASE56_CHARS
      in \<lparr>ap_network = network, ap_visible_prefix = prefix,
          base56_address = [prefix] @ body @ checksum_body,
          hashed_public_key = hashed_public_key_from_digest network digest,
          payment_digest = digest, checksum = sum\<rparr>)"

definition address_from_public_key :: "primitives \<Rightarrow> network \<Rightarrow> bytes \<Rightarrow> string" where
  "address_from_public_key P network public_key =
     base56_address (address_parts_from_public_key P network public_key)"

text \<open>Slicing a string at byte offsets panics unless both ends are character boundaries; a
  continuation byte has the form \<open>10xxxxxx\<close>.\<close>

definition is_char_boundary :: "string \<Rightarrow> nat \<Rightarrow> bool" where
  "is_char_boundary s i \<longleftrightarrow> i = 0 \<or> i = length s
     \<or> (i < length s \<and> \<not> (0x80 \<le> (of_char (s ! i) :: byte) \<and> (of_char (s ! i) :: byte) < 0xC0))"

definition str_slice :: "string \<Rightarrow> nat \<Rightarrow> nat \<Rightarrow> address_failure + string" where
  "str_slice s i j =
     (if i \<le> j \<and> j \<le> length s \<and> is_char_boundary s i \<and> is_char_boundary s j
      then Inr (take (j - i) (drop i s)) else Inl Panic)"

definition network_of_prefix :: "char \<Rightarrow> network option" where
  "network_of_prefix c =
     (if c = CHR ''A'' then Some Mainnet
      else if c = CHR ''T'' then Some Testnet
      else if c = CHR ''R'' then Some Regnet
      else if c = CHR ''P'' then Some Prunetest
      else None)"

definition decode_base56_address :: "primitives \<Rightarrow> string \<Rightarrow> address_failure + (bytes \<times> network)" where
  "decode_base56_address P address =
     (if address = [] \<or> \<not> is_visible_prefix (hd address) then Inl (AddressError InvalidPrefix)
      else if length address \<le> 1 + ADDRESS_CHECKSUM_BASE56_CHARS
      then Inl (AddressError InvalidChecksum)
      else
        let prefix = hd address; cut = length address - ADDRESS_CHECKSUM_BASE56_CHARS
        in rbind (str_slice address 1 cut) (\<lambda>body.
           rbind (str_slice address cut (length address)) (\<lambda>checksum_body.
           rbind (ok_or (AddressError InvalidPrefix) (network_of_prefix prefix)) (\<lambda>network.
           let expected_checksum_body = base56_encode_fixed_bytes (address_checksum P prefix body)
                 ADDRESS_CHECKSUM_BASE56_CHARS
           in if checksum_body \<noteq> expected_checksum_body then Inl (AddressError InvalidChecksum)
              else rbind (map_err AddressError (base56_decode_to_bytes body ADDRESS_DIGEST_BYTES))
                (\<lambda>decoded. Inr (decoded, network))))))"

section \<open>Radix conversion\<close>

fun radix_value :: "nat \<Rightarrow> nat list \<Rightarrow> nat" where
  "radix_value base [] = 0"
| "radix_value base (d # ds) = d + base * radix_value base ds"

definition digits_ok :: "nat \<Rightarrow> nat list \<Rightarrow> bool" where
  "digits_ok base ds \<longleftrightarrow> ds \<noteq> [] \<and> list_all (\<lambda>d. d < base) ds \<and> (length ds > 1 \<longrightarrow> last ds > 0)"

lemma radix_value_append:
  "radix_value base (xs @ ys) = radix_value base xs + base ^ length xs * radix_value base ys"
  by (induction xs) (simp_all add: algebra_simps)

lemma propagate_value:
  assumes "propagate m base ds carry = (ds', carry')"
  shows "length ds' = length ds
    \<and> radix_value base ds' + base ^ length ds * carry' = radix_value base ds * m + carry"
  using assms
proof (induction m base ds carry arbitrary: ds' carry' rule: propagate.induct)
  case (2 m base d ds carry)
  let ?v = "d * m + carry"
  obtain es c where rec: "propagate m base ds (?v div base) = (es, c)" by fastforce
  with 2 have out: "ds' = ?v mod base # es" "carry' = c" by (simp_all add: Let_def)
  from "2.IH" [OF refl rec] have ih: "length es = length ds"
    "radix_value base es + base ^ length ds * c = radix_value base ds * m + ?v div base" by simp_all
  have "radix_value base ds' + base ^ length (d # ds) * carry' =
      ?v mod base + base * (radix_value base es + base ^ length ds * c)"
    by (simp add: out algebra_simps)
  also have "\<dots> = base * radix_value base ds * m + (?v mod base + base * (?v div base))"
    unfolding ih(2) by (simp add: algebra_simps)
  also have "\<dots> = radix_value base (d # ds) * m + carry" by (simp add: algebra_simps)
  finally show ?case using ih(1) out by simp
qed simp

lemma propagate_digits:
  "0 < base \<Longrightarrow> propagate m base ds carry = (ds', carry') \<Longrightarrow> list_all (\<lambda>d. d < base) ds'"
  by (induction m base ds carry arbitrary: ds' carry' rule: propagate.induct)
    (auto simp: Let_def split: prod.splits)

lemma push_carry_value: "1 < base \<Longrightarrow> radix_value base (push_carry base c) = c"
proof (induction base c rule: push_carry.induct)
  case (1 base c)
  then show ?case by (subst push_carry.simps) (simp add: mult.commute)
qed

lemma push_carry_digits:
  "1 < base \<Longrightarrow> list_all (\<lambda>d. d < base) (push_carry base c) \<and> (push_carry base c \<noteq> [] \<longrightarrow> last (push_carry base c) > 0)"
proof (induction base c rule: push_carry.induct)
  case (1 base c)
  show ?case
  proof (cases "c > 0")
    case True
    with 1 have ih: "list_all (\<lambda>d. d < base) (push_carry base (c div base))"
      "push_carry base (c div base) \<noteq> [] \<longrightarrow> last (push_carry base (c div base)) > 0" by simp_all
    have "c mod base > 0" if "push_carry base (c div base) = []"
    proof -
      have "c div base = 0" using that push_carry_value [OF "1.prems", of "c div base"] by simp
      then show ?thesis using True "1.prems" by (simp add: div_eq_0_iff)
    qed
    with ih True "1.prems" show ?thesis by (subst (1 2 3) push_carry.simps) simp
  qed (simp add: push_carry.simps)
qed

lemma radix_step_value:
  assumes "1 < base" shows "radix_value base (radix_step m base ds c) = radix_value base ds * m + c"
proof -
  obtain es c' where p: "propagate m base ds c = (es, c')" by fastforce
  from propagate_value [OF p] show ?thesis
    by (simp add: radix_step_def p radix_value_append push_carry_value [OF assms])
qed

lemma radix_value_last:
  assumes "ds \<noteq> []" and "last ds > 0"
  shows "base ^ (length ds - 1) \<le> radix_value base ds"
proof -
  have "radix_value base ds = radix_value base (butlast ds) + base ^ (length ds - 1) * last ds"
    using assms(1) radix_value_append [of base "butlast ds" "[last ds]"] by simp
  then show ?thesis using assms(2) by (simp add: trans_le_add2)
qed

lemma propagate_last:
  assumes "1 < m" and "ds \<noteq> []" and "last ds > 0" and "propagate m base ds c = (es, 0)"
  shows "base ^ (length ds - 1) \<le> radix_value base es"
proof -
  have "radix_value base es = radix_value base ds * m + c" using propagate_value [OF assms(4)] by simp
  moreover have "radix_value base ds \<le> radix_value base ds * m" using assms(1) by simp
  ultimately show ?thesis using radix_value_last [OF assms(2,3), of base] by linarith
qed

lemma radix_value_bound: "list_all (\<lambda>d. d < base) ds \<Longrightarrow> radix_value base ds < base ^ length ds"
proof (induction ds)
  case (Cons d ds)
  then have "d + base * radix_value base ds < base * (radix_value base ds + 1)"
    by (simp add: algebra_simps)
  also have "\<dots> \<le> base * base ^ length ds" using Cons by (intro mult_le_mono) auto
  finally show ?case by simp
qed simp

lemma digits_ok_lower: "digits_ok base ds \<Longrightarrow> length ds > 1 \<Longrightarrow> base ^ (length ds - 1) \<le> radix_value base ds"
  by (rule radix_value_last) (auto simp: digits_ok_def)

lemma digits_ok_length:
  assumes "digits_ok base ds" and "radix_value base ds < base ^ n" and "0 < n" and "1 < base"
  shows "length ds \<le> n"
proof (rule ccontr)
  assume "\<not> length ds \<le> n"
  then have "n \<le> length ds - 1" "length ds > 1" using assms(3) by simp_all
  then have "base ^ n \<le> base ^ (length ds - 1)" using assms(4) by (intro power_increasing) auto
  with digits_ok_lower [OF assms(1) \<open>length ds > 1\<close>] assms(2) show False by linarith
qed

lemma radix_step_ok:
  assumes "1 < base" and "1 < m" and "digits_ok base ds"
  shows "digits_ok base (radix_step m base ds c)"
proof -
  obtain es c' where p: "propagate m base ds c = (es, c')" by fastforce
  have len: "length es = length ds" and es: "list_all (\<lambda>d. d < base) es"
    using propagate_value [OF p] propagate_digits [OF _ p] assms(1) by auto
  have step: "radix_step m base ds c = es @ push_carry base c'" by (simp add: radix_step_def p)
  show ?thesis
  proof (cases "push_carry base c' = []")
    case True
    have c0: "c' = 0" using True push_carry_value [OF assms(1), of c'] by simp
    have "last es > 0" if "length es > 1"
    proof (rule ccontr)
      assume "\<not> last es > 0"
      then have "radix_value base es = radix_value base (butlast es)"
        using that radix_value_append [of base "butlast es" "[last es]"]
        by (metis append_butlast_last_id add.right_neutral list.size(3) mult_0_right not_gr0
            not_one_less_zero radix_value.simps)
      also have "\<dots> < base ^ (length ds - 1)"
        using radix_value_bound [of base "butlast es"] es len
        by (metis append_butlast_last_id butlast.simps(1) length_butlast list_all_append)
      finally have "radix_value base es < base ^ (length ds - 1)" .
      moreover have "ds \<noteq> []" "last ds > 0" using assms(3) that len by (auto simp: digits_ok_def)
      ultimately show False
        using propagate_last [of m ds base c es] assms(1,2) p c0 by simp
    qed
    with True es len assms(3) step show ?thesis by (auto simp: digits_ok_def)
  next
    case False
    with push_carry_digits [OF assms(1), of c'] es step show ?thesis
      by (auto simp: digits_ok_def)
  qed
qed

section \<open>Base-56 strings\<close>

lemma alphabet_length [simp]: "length BASE56_ALPHABET = 54"
  by (simp add: BASE56_ALPHABET_def)

lemma position_nth: "distinct xs \<Longrightarrow> i < length xs \<Longrightarrow> position (xs ! i) xs = Some i"
proof (induction xs arbitrary: i)
  case (Cons x xs)
  then show ?case by (cases i) auto
qed simp

lemma base56_value_nth: "d < 54 \<Longrightarrow> base56_value (BASE56_ALPHABET ! d) = Some d"
  unfolding base56_value_def by (rule position_nth) (simp_all add: BASE56_ALPHABET_def)

lemma position_bound: "position c xs = Some v \<Longrightarrow> v < length xs"
  by (induction xs arbitrary: v) (auto split: if_splits)

lemma base56_digits_correct:
  "digits_ok 54 (base56_digits bs) \<and> radix_value 54 (base56_digits bs) = be_to_nat bs"
proof (induction bs rule: rev_induct)
  case Nil
  then show ?case by (simp add: base56_digits_def digits_ok_def)
next
  case (snoc b bs)
  then have "base56_digits (bs @ [b]) = radix_step 256 54 (base56_digits bs) (unat b)"
    by (simp add: base56_digits_def)
  with snoc show ?case by (simp add: radix_step_ok radix_step_value be_to_nat_snoc)
qed

lemma radix_value_rev_foldl:
  "radix_value base (rev ds) = foldl (\<lambda>v d. v * base + d) 0 ds"
proof (induction ds rule: rev_induct)
  case (snoc d ds)
  then show ?case by (simp add: mult.commute)
qed simp

lemma base56_accumulate_digits:
  assumes "list_all (\<lambda>d. d < 54) ds" and "digits_ok 256 (rev bs)"
  shows "\<exists>out. base56_accumulate (map (\<lambda>d. BASE56_ALPHABET ! d) ds) bs = Some out
    \<and> digits_ok 256 (rev out)
    \<and> radix_value 256 (rev out) = foldl (\<lambda>v d. v * 54 + d) (radix_value 256 (rev bs)) ds"
  using assms
proof (induction ds arbitrary: bs)
  case (Cons d ds)
  let ?bs = "rev (radix_step 54 256 (rev bs) d)"
  from Cons.prems have "digits_ok 256 (rev ?bs)" by (simp add: radix_step_ok)
  from Cons.IH [OF _ this] Cons.prems show ?case
    by (simp add: base56_value_nth radix_step_value)
qed simp

lemma be_to_nat_radix:
  "list_all (\<lambda>d. d < 256) bs \<Longrightarrow> be_to_nat (map word_of_nat bs) = radix_value 256 (rev bs)"
proof (induction bs rule: rev_induct)
  case (snoc b bs)
  then have "unat (word_of_nat b :: byte) = b" by (intro unat_small_word) simp
  with snoc show ?case by (simp add: be_to_nat_snoc)
qed simp

lemma base56_decode_encode:
  assumes "bs \<noteq> []"
  shows "base56_decode_to_bytes (base56_encode_bytes bs) (length bs) = Inr bs"
proof -
  let ?ds = "base56_digits bs"
  have ok: "digits_ok 54 ?ds" and val: "radix_value 54 ?ds = be_to_nat bs"
    using base56_digits_correct [of bs] by simp_all
  have enc: "base56_encode_bytes bs = map (\<lambda>d. BASE56_ALPHABET ! d) (rev ?ds)"
    using assms by (simp add: base56_encode_bytes_def)
  have "list_all (\<lambda>d. d < 54) (rev ?ds)" using ok by (simp add: digits_ok_def)
  moreover have "digits_ok 256 (rev [0])" by (simp add: digits_ok_def)
  ultimately obtain out where out: "base56_accumulate (base56_encode_bytes bs) [0] = Some out"
    "digits_ok 256 (rev out)" "radix_value 256 (rev out) = foldl (\<lambda>v d. v * 54 + d) 0 (rev ?ds)"
    using base56_accumulate_digits [of "rev ?ds" "[0]"] enc by auto
  then have v: "radix_value 256 (rev out) = be_to_nat bs"
    using val radix_value_rev_foldl [of 54 "rev ?ds"] by simp
  have len: "length out \<le> length bs"
    using digits_ok_length [OF out(2), of "length bs"] be_to_nat_bound [of bs] assms v by simp
  have "be_to_nat (replicate (length bs - length out) 0 @ map word_of_nat out) = be_to_nat bs"
    using be_to_nat_radix [of out] out(2) v by (simp add: be_to_nat_append digits_ok_def)
  then have "replicate (length bs - length out) 0 @ map word_of_nat out = bs"
    using len be_to_nat_inject [of "replicate (length bs - length out) 0 @ map word_of_nat out" bs] by simp
  with out(1) len ok enc show ?thesis by (simp add: base56_decode_to_bytes_def digits_ok_def)
qed

lemma base56_encode_length:
  assumes "bs \<noteq> []" and "256 ^ length bs \<le> (54::nat) ^ n" and "0 < n"
  shows "length (base56_encode_bytes bs) \<le> n \<and> base56_encode_bytes bs \<noteq> []"
proof -
  have ok: "digits_ok 54 (base56_digits bs)" and "radix_value 54 (base56_digits bs) = be_to_nat bs"
    using base56_digits_correct [of bs] by simp_all
  with be_to_nat_bound [of bs] assms(2) have "radix_value 54 (base56_digits bs) < 54 ^ n" by simp
  from digits_ok_length [OF ok this assms(3)] assms(1) ok show ?thesis
    by (simp add: base56_encode_bytes_def digits_ok_def)
qed

lemma checksum_chars:
  assumes "digest_widths P"
  shows "length (base56_encode_fixed_bytes (address_checksum P prefix body) ADDRESS_CHECKSUM_BASE56_CHARS) = 6"
proof -
  have "length (address_checksum P prefix body) = 4" using assms by (simp add: address_checksum_def)
  then have "length (base56_encode_bytes (address_checksum P prefix body)) \<le> 6"
    using base56_encode_length [of "address_checksum P prefix body" 6] by fastforce
  then show ?thesis by (simp add: base56_encode_fixed_bytes_def Let_def)
qed

lemma alphabet_ascii: "c \<in> set BASE56_ALPHABET \<Longrightarrow> (of_char c :: byte) < 0x80"
  by (auto simp: BASE56_ALPHABET_def)

lemma base56_encode_chars: "set (base56_encode_bytes bs) \<subseteq> set BASE56_ALPHABET"
  using base56_digits_correct [of bs]
  by (auto simp: base56_encode_bytes_def digits_ok_def list_all_iff intro!: nth_mem)

lemma base56_fixed_chars: "set (base56_encode_fixed_bytes bs n) \<subseteq> set BASE56_ALPHABET"
proof -
  have "BASE56_ALPHABET ! 0 \<in> set BASE56_ALPHABET" by (rule nth_mem) simp
  with base56_encode_chars [of bs] show ?thesis
    by (auto simp: base56_encode_fixed_bytes_def Let_def split: if_splits)
qed

section \<open>Properties\<close>

lemma ascii_boundary:
  "i < length s \<Longrightarrow> (of_char (s ! i) :: byte) < 0x80 \<Longrightarrow> is_char_boundary s i"
  by (auto simp: is_char_boundary_def dest: leD)

lemma visible_prefix_facts:
  "is_visible_prefix (visible_prefix n)" "network_of_prefix (visible_prefix n) = Some n"
  by (cases n; simp add: is_visible_prefix_def network_of_prefix_def)+

text \<open>C34: an address decodes back to the digest and the network it was made from, for every 32-byte
  payment digest and every network.\<close>

theorem address_roundtrip:
  assumes "digest_widths P" and "length digest = ADDRESS_DIGEST_BYTES"
  shows "decode_base56_address P (encode_base56_address P n digest) = Inr (digest, n)"
proof -
  let ?p = "visible_prefix n" and ?body = "base56_encode_bytes digest"
  let ?sum = "base56_encode_fixed_bytes (address_checksum P ?p ?body) ADDRESS_CHECKSUM_BASE56_CHARS"
  have enc: "encode_base56_address P n digest = ?p # ?body @ ?sum"
    by (simp add: encode_base56_address_def Let_def)
  have ne: "digest \<noteq> []" using assms(2) by auto
  have body: "?body \<noteq> []" using ne base56_digits_correct [of digest]
    by (simp add: base56_encode_bytes_def digits_ok_def)
  have sum: "length ?sum = 6" by (rule checksum_chars [OF assms(1)])
  have first: "?body ! 0 \<in> set BASE56_ALPHABET" "?sum ! 0 \<in> set BASE56_ALPHABET"
    using base56_encode_chars [of digest] body base56_fixed_chars sum
    by (metis length_greater_0_conv nth_mem subsetD, metis base56_fixed_chars nth_mem subsetD zero_less_numeral)
  have cuts: "is_char_boundary (?p # ?body @ ?sum) 1"
    "is_char_boundary (?p # ?body @ ?sum) (Suc (length ?body))"
    using first body sum by (auto intro!: ascii_boundary alphabet_ascii simp: nth_append)
  have stop: "is_char_boundary (?p # ?body @ ?sum) (Suc (length ?body + 6))"
    using sum by (simp add: is_char_boundary_def)
  have slices: "str_slice (?p # ?body @ ?sum) 1 (Suc (length ?body)) = Inr ?body"
    "str_slice (?p # ?body @ ?sum) (Suc (length ?body)) (Suc (length ?body + 6)) = Inr ?sum"
    unfolding str_slice_def using cuts sum stop by simp_all
  show ?thesis
    unfolding enc decode_base56_address_def Let_def
    using body sum slices visible_prefix_facts [of n] base56_decode_encode [OF ne] assms(2)
    by (simp add: ok_or_def map_err_def)
qed

theorem address_roundtrip_witness:
  "decode_base56_address example_primitives (encode_base56_address example_primitives Testnet (replicate 32 7)) =
     Inr (replicate 32 7, Testnet)"
  by (rule address_roundtrip) simp_all

text \<open>C35: decoding an address never panics on an ASCII string, whatever it contains; it returns a
  digest of 32 bytes or one of the three address errors, and a returned network is the one of
  the visible prefix.\<close>

theorem decode_address_total_on_ascii:
  assumes "\<forall>c \<in> set s. (of_char c :: byte) < 0x80"
  shows "(\<exists>e. decode_base56_address P s = Inl (AddressError e))
    \<or> (\<exists>d n. decode_base56_address P s = Inr (d, n) \<and> length d = ADDRESS_DIGEST_BYTES \<and> hd s = visible_prefix n)"
proof -
  have cut: "is_char_boundary s i" if "i \<le> length s" for i
  proof (cases "i < length s")
    case True
    with assms show ?thesis by (intro ascii_boundary) auto
  next
    case False
    with that show ?thesis by (simp add: is_char_boundary_def)
  qed
  have slice: "str_slice s i j = Inr (take (j - i) (drop i s))" if "i \<le> j" "j \<le> length s" for i j
    using that cut by (simp add: str_slice_def)
  have len: "length d = ADDRESS_DIGEST_BYTES"
    if "base56_decode_to_bytes b ADDRESS_DIGEST_BYTES = Inr d" for b d
    using that by (auto simp: base56_decode_to_bytes_def split: if_splits option.splits)
  have prefix: "c = visible_prefix n" if "network_of_prefix c = Some n" for c n
    using that by (auto simp: network_of_prefix_def split: if_splits)
  show ?thesis
    unfolding decode_base56_address_def Let_def
    using slice len prefix
    by (auto simp: ok_or_def map_err_def split: sum.splits option.splits)
qed

theorem decode_address_total_on_ascii_witness:
  "(\<exists>e. decode_base56_address example_primitives ''hello'' = Inl (AddressError e))
    \<or> (\<exists>d n. decode_base56_address example_primitives ''hello'' = Inr (d, n)
        \<and> length d = ADDRESS_DIGEST_BYTES \<and> hd ''hello'' = visible_prefix n)"
  by (rule decode_address_total_on_ascii) simp


text \<open>C37: the internal hashed-public-key string that the code produces from a 32-byte digest is
  never accepted by the function that is meant to parse it, which asks for 96 instead of 64
  hexadecimal characters.\<close>

theorem internal_hpk_never_parses:
  assumes "length digest = ADDRESS_DIGEST_BYTES"
  shows "internal_hpk_bytes n (hashed_public_key_from_digest n digest) = None"
proof -
  have "length (hex_encode bs) = 2 * length bs" for bs
    by (induction bs) (simp_all add: hex_encode_def)
  with assms show ?thesis
    by (simp add: internal_hpk_bytes_def hashed_public_key_from_digest_def strip_prefix_def)
qed

theorem internal_hpk_never_parses_witness:
  "internal_hpk_bytes Mainnet (hashed_public_key_from_digest Mainnet (replicate 32 1)) = None"
  by (rule internal_hpk_never_parses) simp

end
