(* ===== verification/Pow.thy ===== *)
theory Pow
  imports Block "HOL-Library.Option_ord"
begin

text \<open>
  Proof-of-work targets, retargeting and branch preference
  (\<^verbatim>\<open>crates/atho-core/src/consensus/pow.rs\<close>). Big integers are natural numbers and a
  target is the list of its 48 bytes, compared lexicographically as Rust compares arrays.
\<close>

section \<open>Definitions\<close>

record proof_of_work =
  target_block_time_seconds :: u64
  retarget_interval_blocks :: u64
  averaging_window_blocks :: u64
  median_window_blocks :: u64
  damping_factor :: u64
  max_adjust_up_percent :: u64
  max_adjust_down_percent :: u64

record difficulty_target_profile =
  genesis_target :: bytes
  min_difficulty_target :: bytes
  max_difficulty_target :: bytes
  dp_standard_transaction_allocation_bps :: u16

definition POW_PROFILE :: proof_of_work where
  "POW_PROFILE = \<lparr>target_block_time_seconds = TARGET_BLOCK_TIME_SECONDS,
     retarget_interval_blocks = 1, averaging_window_blocks = 17, median_window_blocks = 11,
     damping_factor = 4, max_adjust_up_percent = 16, max_adjust_down_percent = 32\<rparr>"

definition SHA3_384_HASH_BITS :: usize where [simp]: "SHA3_384_HASH_BITS = 384"
definition TESTNET_STALL_RESET_SECONDS :: u64 where [simp]: "TESTNET_STALL_RESET_SECONDS = 600"

definition DIFFICULTY_PROFILE :: difficulty_target_profile where
  "DIFFICULTY_PROFILE = \<lparr>
     genesis_target = replicate 2 0x00 @ replicate 46 0xFF,
     min_difficulty_target = replicate 2 0x00 @ replicate 46 0xFF,
     max_difficulty_target = replicate 46 0x00 @ [0x0F, 0xFF],
     dp_standard_transaction_allocation_bps = 9500\<rparr>"

definition expected_timespan_seconds_for_window :: "usize \<Rightarrow> u64" where
  "expected_timespan_seconds_for_window window_blocks =
     sat_mul (target_block_time_seconds POW_PROFILE) (word_of_nat (window_blocks - 1))"

definition expected_timespan_seconds :: u64 where
  "expected_timespan_seconds =
     expected_timespan_seconds_for_window (unat (averaging_window_blocks POW_PROFILE))"

text \<open>Signed 64-bit integers are integers with their range written out.\<close>

definition i64_sat_add :: "int \<Rightarrow> int \<Rightarrow> int" where
  "i64_sat_add a b = max (- (2 ^ 63)) (min (2 ^ 63 - 1) (a + b))"

definition i64_neg :: "int \<Rightarrow> int" where
  "i64_neg a = (if a = - (2 ^ 63) then a else - a)"

definition clamp_difficulty_delta :: "int \<Rightarrow> int \<Rightarrow> int \<Rightarrow> int" where
  "clamp_difficulty_delta current change limit =
     (let next = i64_sat_add current change
      in if next > limit then limit else if next < i64_neg limit then i64_neg limit else next)"

fun initial_target_for_network :: "network \<Rightarrow> bytes" where
  "initial_target_for_network Mainnet = genesis_target DIFFICULTY_PROFILE"
| "initial_target_for_network Testnet = genesis_target DIFFICULTY_PROFILE"
| "initial_target_for_network Regnet = genesis_target DIFFICULTY_PROFILE"
| "initial_target_for_network Prunetest = min_difficulty_target DIFFICULTY_PROFILE"

definition target_for_height :: "network \<Rightarrow> u64 \<Rightarrow> bytes" where
  "target_for_height network h =
     (if h = 0 then genesis_target DIFFICULTY_PROFILE else initial_target_for_network network)"

definition target_to_biguint :: "bytes \<Rightarrow> nat" where
  "target_to_biguint target = be_to_nat target"

text \<open>\<open>BigUint::to_bytes_be\<close>: no leading zero byte, and one zero byte for zero.\<close>

fun to_bytes_be :: "nat \<Rightarrow> bytes" where
  "to_bytes_be v = (if v < 256 then [word_of_nat v] else to_bytes_be (v div 256) @ [word_of_nat (v mod 256)])"

declare to_bytes_be.simps [simp del]

definition biguint_to_target :: "nat \<Rightarrow> bytes" where
  "biguint_to_target v =
     (let bytes = to_bytes_be v; out_len = 48
      in if length bytes \<ge> out_len then drop (length bytes - out_len) bytes
         else replicate (out_len - length bytes) 0 @ bytes)"

definition block_proof :: "bytes \<Rightarrow> nat" where
  "block_proof target =
     (let target = target_to_biguint target
      in if target = 0 then 0
         else ((2 ^ SHA3_384_HASH_BITS - 1 - target) div (target + 1)) + 1)"

definition block_proof_work :: "bytes \<Rightarrow> nat" where
  "block_proof_work target = block_proof target"

definition median_u64 :: "u64 list \<Rightarrow> u64" where
  "median_u64 values = (let sorted = sort values in sorted ! (length sorted div 2))"

definition median_time_past_blocks :: "block list \<Rightarrow> usize \<Rightarrow> u64" where
  "median_time_past_blocks blocks index =
     (let span = unat (median_window_blocks POW_PROFILE);
          start = usize_sat_add index 1 - span;
          timestamps = map (\<lambda>b. timestamp (header b)) (take (index + 1 - start) (drop start blocks))
      in median_u64 timestamps)"

definition bounded_actual_timespan :: "u64 \<Rightarrow> u64 \<Rightarrow> u64" where
  "bounded_actual_timespan actual_timespan target =
     (let min_actual = sat_mul target (sat_sub 100 (max_adjust_down_percent POW_PROFILE)) div 100;
          max_actual = sat_mul target (sat_add 100 (max_adjust_up_percent POW_PROFILE)) div 100;
          damped = (if actual_timespan \<ge> target
            then sat_add target ((actual_timespan - target) div damping_factor POW_PROFILE)
            else sat_sub target ((target - actual_timespan) div damping_factor POW_PROFILE))
      in max min_actual (min damped max_actual))"

definition mean_target_blocks :: "block list \<Rightarrow> nat" where
  "mean_target_blocks blocks =
     foldl (\<lambda>total b. total + target_to_biguint (difficulty_target_or_bits (header b))) 0 blocks
       div length blocks"

definition clamp_target :: "bytes \<Rightarrow> bytes" where
  "clamp_target target =
     (if target < max_difficulty_target DIFFICULTY_PROFILE then max_difficulty_target DIFFICULTY_PROFILE
      else if target > min_difficulty_target DIFFICULTY_PROFILE then min_difficulty_target DIFFICULTY_PROFILE
      else target)"

definition strip_genesis :: "block list \<Rightarrow> block list" where
  "strip_genesis blocks = (case blocks of
       first # rest \<Rightarrow> if height (header first) = 0 \<and> rest \<noteq> [] then rest else blocks
     | [] \<Rightarrow> blocks)"

definition next_target_from_blocks :: "network \<Rightarrow> block list \<Rightarrow> bytes" where
  "next_target_from_blocks network blocks =
     (let blocks = strip_genesis blocks;
          averaging_window = unat (averaging_window_blocks POW_PROFILE);
          window_len = min (length blocks) averaging_window
      in if window_len < 2 then initial_target_for_network network
         else
           let window = drop (length blocks - window_len) blocks;
               tip_index = length blocks - 1;
               old_index = length blocks - window_len;
               actual_timespan = (if window_len < averaging_window
                 then sat_sub (timestamp (header (blocks ! tip_index)))
                        (timestamp (header (blocks ! old_index)))
                 else sat_sub (median_time_past_blocks blocks tip_index)
                        (median_time_past_blocks blocks old_index));
               expected_timespan = expected_timespan_seconds_for_window window_len;
               bounded_timespan = bounded_actual_timespan actual_timespan expected_timespan;
               average_target = mean_target_blocks window;
               threshold = (average_target * unat bounded_timespan) div unat expected_timespan
           in clamp_target (biguint_to_target threshold))"

definition target_for_next_block_with_timestamp :: "network \<Rightarrow> block list \<Rightarrow> u64 \<Rightarrow> bytes" where
  "target_for_next_block_with_timestamp network previous_blocks next_timestamp =
     (if network = Testnet \<and> previous_blocks \<noteq> []
         \<and> sat_sub next_timestamp (timestamp (header (last previous_blocks))) > TESTNET_STALL_RESET_SECONDS
      then min_difficulty_target DIFFICULTY_PROFILE
      else next_target_from_blocks network previous_blocks)"

definition target_for_next_block :: "network \<Rightarrow> block list \<Rightarrow> bytes" where
  "target_for_next_block network previous_blocks =
     (let next_timestamp = (if previous_blocks = [] then 0
            else sat_add (timestamp (header (last previous_blocks)))
                   (target_block_time_seconds POW_PROFILE))
      in target_for_next_block_with_timestamp network previous_blocks next_timestamp)"

definition accumulated_chain_work :: "block list \<Rightarrow> nat" where
  "accumulated_chain_work blocks =
     foldl (\<lambda>total b. total + block_proof (difficulty_target_or_bits (header b))) 0 blocks"

definition u64_try_from :: "nat \<Rightarrow> u64" where
  "u64_try_from v = (if v < u64_bound then word_of_nat v else - 1)"

definition difficulty_ratio_scaled :: "bytes \<Rightarrow> u64 \<Rightarrow> u64" where
  "difficulty_ratio_scaled target scale =
     (let target = target_to_biguint target
      in if target = 0 then - 1
         else u64_try_from
           (target_to_biguint (min_difficulty_target DIFFICULTY_PROFILE) * unat scale div target))"

definition estimated_hashes_per_second :: "block list \<Rightarrow> u64" where
  "estimated_hashes_per_second blocks =
     (if length blocks < 2 then 0
      else let elapsed = sat_sub (timestamp (header (last blocks))) (timestamp (header (hd blocks)))
           in if elapsed = 0 then 0
              else u64_try_from (accumulated_chain_work blocks div unat elapsed))"

datatype ordering = Less | Equal | Greater

definition cmp :: "'a::linorder \<Rightarrow> 'a \<Rightarrow> ordering" where
  "cmp a b = (if a < b then Less else if a = b then Equal else Greater)"

fun then_with :: "ordering \<Rightarrow> ordering \<Rightarrow> ordering" where
  "then_with Equal r = r"
| "then_with l r = l"

definition tip :: "block list \<Rightarrow> block option" where
  "tip blocks = (if blocks = [] then None else Some (last blocks))"

definition compare_branch_work :: "primitives \<Rightarrow> block list \<Rightarrow> block list \<Rightarrow> ordering" where
  "compare_branch_work P candidate current =
     then_with
       (then_with (cmp (accumulated_chain_work candidate) (accumulated_chain_work current))
          (cmp (map_option (\<lambda>b. height (header b)) (tip candidate))
               (map_option (\<lambda>b. height (header b)) (tip current))))
       (cmp (map_option (\<lambda>b. block_hash P (header b)) (tip current))
            (map_option (\<lambda>b. block_hash P (header b)) (tip candidate)))"

definition branch_is_preferred :: "primitives \<Rightarrow> block list \<Rightarrow> block list \<Rightarrow> bool" where
  "branch_is_preferred P candidate current \<longleftrightarrow> compare_branch_work P candidate current = Greater"

definition median_time_past_from_blocks :: "block list \<Rightarrow> u64 option" where
  "median_time_past_from_blocks previous_blocks =
     (if previous_blocks = [] then None
      else Some (median_time_past_blocks previous_blocks (length previous_blocks - 1)))"

definition minimum_next_block_timestamp :: "block list \<Rightarrow> u64 option" where
  "minimum_next_block_timestamp previous_blocks =
     map_option (\<lambda>t. sat_add t 1) (median_time_past_from_blocks previous_blocks)"

definition target_within_bounds :: "bytes \<Rightarrow> bool" where
  "target_within_bounds target \<longleftrightarrow>
     target \<ge> max_difficulty_target DIFFICULTY_PROFILE \<and> target \<le> min_difficulty_target DIFFICULTY_PROFILE"

definition meets_target :: "bytes \<Rightarrow> bytes \<Rightarrow> bool" where
  "meets_target hash target \<longleftrightarrow> hash \<le> target"

section \<open>Targets as numbers\<close>

abbreviation LO :: nat where "LO \<equiv> 4095"
abbreviation HI :: nat where "HI \<equiv> 256 ^ 46 - 1"

lemma be_to_nat_ones: "be_to_nat (replicate n 0xFF) = 256 ^ n - 1"
proof (induction n)
  case (Suc n)
  have "(256::nat) ^ n \<ge> 1" by simp
  with Suc show ?case by (simp add: be_to_nat_Cons)
qed (simp add: be_to_nat_def)

lemma profile_targets:
  "length (min_difficulty_target DIFFICULTY_PROFILE) = 48"
  "length (max_difficulty_target DIFFICULTY_PROFILE) = 48"
  "be_to_nat (min_difficulty_target DIFFICULTY_PROFILE) = HI"
  "be_to_nat (max_difficulty_target DIFFICULTY_PROFILE) = LO"
  "genesis_target DIFFICULTY_PROFILE = min_difficulty_target DIFFICULTY_PROFILE"
  by (simp_all add: DIFFICULTY_PROFILE_def be_to_nat_append be_to_nat_ones be_to_nat_Cons)

lemma within_bounds_iff:
  "length t = 48 \<Longrightarrow> target_within_bounds t \<longleftrightarrow> LO \<le> be_to_nat t \<and> be_to_nat t \<le> HI"
  by (simp add: target_within_bounds_def lex_le_iff_be profile_targets)

lemma initial_target [simp]: "initial_target_for_network n = min_difficulty_target DIFFICULTY_PROFILE"
  by (cases n) (simp_all add: profile_targets)

lemma clamp_within_bounds:
  "length t = 48 \<Longrightarrow> length (clamp_target t) = 48 \<and> target_within_bounds (clamp_target t)"
  by (auto simp: clamp_target_def within_bounds_iff profile_targets lex_less_iff_be lex_le_iff_be not_less)

lemma clamp_value:
  "length t = 48 \<Longrightarrow> be_to_nat (clamp_target t) = max LO (min HI (be_to_nat t))"
  by (auto simp: clamp_target_def profile_targets lex_less_iff_be)

lemma to_bytes_be_exact: "be_to_nat (to_bytes_be v) = v"
proof (induction v rule: to_bytes_be.induct)
  case (1 v)
  then show ?case
    by (subst to_bytes_be.simps) (simp add: be_to_nat_snoc unat_small_word be_to_nat_Cons be_to_nat_def)
qed

lemma biguint_to_target_value: "biguint_to_target v = be_of_nat 48 v"
proof -
  let ?b = "to_bytes_be v"
  have "length (biguint_to_target v) = 48" by (simp add: biguint_to_target_def Let_def)
  moreover have "be_to_nat (biguint_to_target v) = v mod 256 ^ 48"
  proof (cases "length ?b \<ge> 48")
    case True
    let ?hi = "take (length ?b - 48) ?b" and ?lo = "drop (length ?b - 48) ?b"
    have "be_to_nat ?b = be_to_nat ?hi * 256 ^ 48 + be_to_nat ?lo"
      using be_to_nat_append [of ?hi ?lo] True by simp
    moreover have "be_to_nat ?lo < 256 ^ 48" using be_to_nat_bound [of ?lo] True by simp
    ultimately show ?thesis
      using True to_bytes_be_exact [of v] by (simp add: biguint_to_target_def Let_def)
        (metis mod_less mod_mult_self3)
  next
    case False
    have "v < 256 ^ length ?b" using be_to_nat_bound [of ?b] to_bytes_be_exact [of v] by simp
    also have "\<dots> \<le> 256 ^ 48" using False by (intro power_increasing) auto
    finally show ?thesis
      using False to_bytes_be_exact [of v] by (simp add: biguint_to_target_def Let_def be_to_nat_append)
  qed
  ultimately show ?thesis
    using be_to_nat_inject [of "biguint_to_target v" "be_of_nat 48 v"] by (simp add: be_to_nat_of_nat)
qed

lemma next_target_bounds:
  "length (next_target_from_blocks n blocks) = 48 \<and> target_within_bounds (next_target_from_blocks n blocks)"
proof -
  have "target_within_bounds (min_difficulty_target DIFFICULTY_PROFILE)"
    by (simp add: within_bounds_iff profile_targets)
  then show ?thesis
    by (simp add: next_target_from_blocks_def Let_def profile_targets clamp_within_bounds
        biguint_to_target_value)
qed

section \<open>Retargeting\<close>

lemma expected_timespan_window:
  "2 \<le> w \<Longrightarrow> w \<le> 17 \<Longrightarrow> unat (expected_timespan_seconds_for_window w) = 100 * (w - 1)"
proof -
  assume "2 \<le> w" "w \<le> 17"
  then have "unat (word_of_nat (w - 1) :: u64) = w - 1" by (intro unat_small_word) simp
  with \<open>w \<le> 17\<close> show ?thesis
    unfolding expected_timespan_seconds_for_window_def
    by (simp add: POW_PROFILE_def unat_sat_mul min_def del: of_nat_diff)
qed

lemma bounded_timespan_range:
  assumes "unat target \<le> 2 ^ 32"
  shows "unat target * 68 div 100 \<le> unat (bounded_actual_timespan actual target)
    \<and> unat (bounded_actual_timespan actual target) \<le> unat target * 116 div 100"
proof -
  have lo: "unat (sat_mul target (sat_sub 100 (max_adjust_down_percent POW_PROFILE)) div 100) =
      unat target * 68 div 100"
    using assms by (simp add: POW_PROFILE_def unat_div unat_sat_mul unat_sat_sub min_def)
  have hi: "unat (sat_mul target (sat_add 100 (max_adjust_up_percent POW_PROFILE)) div 100) =
      unat target * 116 div 100"
    using assms by (simp add: POW_PROFILE_def unat_div unat_sat_mul unat_sat_add min_def)
  have le: "unat target * 68 div 100 \<le> unat target * 116 div 100" by (intro div_le_mono) simp
  show ?thesis
    unfolding bounded_actual_timespan_def Let_def
    using lo hi le by (auto simp: max_def min_def word_le_nat_alt)
qed

lemma scale_by_window:
  fixes k b m :: nat
  assumes "0 < k" and "68 * k \<le> b" and "b \<le> 116 * k"
  shows "m * 68 div 100 \<le> m * b div (100 * k)" "m * b div (100 * k) \<le> m * 116 div 100"
proof -
  have exact: "m * (c * k) div (100 * k) = m * c div 100" for c
    using assms(1) by (metis div_mult_mult2 mult.assoc not_gr0)
  show "m * 68 div 100 \<le> m * b div (100 * k)"
    unfolding exact [symmetric] using assms(2) by (intro div_le_mono mult_le_mono) auto
  show "m * b div (100 * k) \<le> m * 116 div 100"
    unfolding exact [symmetric] using assms(3) by (intro div_le_mono mult_le_mono) auto
qed

lemma scaled_target_fits: "m \<le> HI \<Longrightarrow> m * 116 div 100 < 256 ^ 48"
proof -
  assume "m \<le> HI"
  then have "m * 116 div 100 \<le> HI * 116 div 100" by (intro div_le_mono mult_le_mono1)
  also have "\<dots> < 256 ^ 48" by simp
  finally show ?thesis .
qed

lemma clamp_between:
  fixes a t c :: nat
  assumes "a \<le> t" and "t \<le> c"
  shows "min H a \<le> max L (min H t) \<and> max L (min H t) \<le> max L c"
  using assms by (auto simp: min_def max_def)

lemma next_target_shape:
  fixes n :: network
  assumes "2 \<le> length (strip_genesis blocks)"
  obtains actual where "next_target_from_blocks n blocks = clamp_target (biguint_to_target
    (mean_target_blocks (drop (length (strip_genesis blocks) - 17) (strip_genesis blocks))
      * unat (bounded_actual_timespan actual
          (expected_timespan_seconds_for_window (min (length (strip_genesis blocks)) 17)))
      div unat (expected_timespan_seconds_for_window (min (length (strip_genesis blocks)) 17))))"
proof -
  have window: "drop (length bs - min (length bs) 17) bs = drop (length bs - 17) bs" for bs :: "block list"
    by (simp add: min_def)
  have "\<not> min (length (strip_genesis blocks)) 17 < 2" using assms by simp
  then show thesis
    using that unfolding next_target_from_blocks_def Let_def
    by (simp add: POW_PROFILE_def window)
qed

lemma sum_targets_fold:
  "foldl (\<lambda>total b. total + f b) acc bs = acc + sum_list (map f bs)" for acc :: nat
  by (induction bs arbitrary: acc) simp_all

lemma mean_target_bounds:
  assumes "bs \<noteq> []" and "\<And>b. b \<in> set bs \<Longrightarrow> be_to_nat (difficulty_target_or_bits (header b)) \<le> HI"
  shows "mean_target_blocks bs \<le> HI"
proof -
  have "sum_list (map (\<lambda>b. be_to_nat (difficulty_target_or_bits (header b))) bs) \<le> length bs * HI"
    using assms(2) by (induction bs) (auto simp: add_mono)
  then have "sum_list (map (\<lambda>b. be_to_nat (difficulty_target_or_bits (header b))) bs) div length bs \<le> HI"
    using assms(1) by (metis div_le_mono length_0_conv nonzero_mult_div_cancel_left)
  then show ?thesis by (simp add: mean_target_blocks_def sum_targets_fold target_to_biguint_def)
qed

section \<open>Medians\<close>

lemma sort_nth_ge_iff:
  fixes m :: "'a::linorder"
  assumes "k < length xs"
  shows "m \<le> sort xs ! k \<longleftrightarrow> length (filter (\<lambda>x. x < m) xs) \<le> k"
proof -
  have sorted_case: "m \<le> ys ! k \<longleftrightarrow> length (filter (\<lambda>x. x < m) ys) \<le> k"
    if "sorted ys" "k < length ys" for ys :: "'a list"
    using that
  proof (induction ys arbitrary: k)
    case (Cons y ys)
    show ?case
    proof (cases "y < m")
      case True
      then show ?thesis using Cons by (cases k) auto
    next
      case False
      then have "\<forall>x \<in> set (y # ys). m \<le> x" using Cons.prems(1) by auto
      then have "filter (\<lambda>x. x < m) (y # ys) = []" and "m \<le> (y # ys) ! k"
        using Cons.prems(2) nth_mem [of k "y # ys"] by (auto simp: filter_empty_conv not_less)
      then show ?thesis by simp
    qed
  qed simp
  have "length (filter (\<lambda>x. x < m) (sort xs)) = length (filter (\<lambda>x. x < m) xs)"
    by (metis filter_sort length_sort)
  with sorted_case [of "sort xs"] assms show ?thesis by simp
qed

definition mtp_window :: "block list \<Rightarrow> u64 list" where
  "mtp_window blocks = map (\<lambda>b. timestamp (header b)) (drop (length blocks - 11) blocks)"

lemma mtp_tip:
  assumes "blocks \<noteq> []" and "length blocks < u64_bound"
  shows "median_time_past_blocks blocks (length blocks - 1) = median_u64 (mtp_window blocks)"
  using assms
  by (auto simp: median_time_past_blocks_def Let_def POW_PROFILE_def usize_sat_add_def mtp_window_def
      min_def Suc_le_eq)

lemma median_grows:
  assumes "xs \<noteq> []" and "ys \<noteq> []" and "length xs div 2 \<le> length ys div 2"
    and "length (filter (\<lambda>x. x < median_u64 xs) ys) \<le> length (filter (\<lambda>x. x < median_u64 xs) xs)"
  shows "median_u64 xs \<le> median_u64 ys"
proof -
  have k: "length xs div 2 < length xs" "length ys div 2 < length ys" using assms(1,2) by auto
  have "length (filter (\<lambda>x. x < median_u64 xs) xs) \<le> length xs div 2"
    using sort_nth_ge_iff [OF k(1), of "median_u64 xs"] by (simp add: median_u64_def)
  with assms(3,4) have "length (filter (\<lambda>x. x < median_u64 xs) ys) \<le> length ys div 2" by linarith
  then show ?thesis
    using sort_nth_ge_iff [OF k(2), of "median_u64 xs"] by (simp add: median_u64_def [of ys])
qed

lemma mtp_window_snoc:
  "mtp_window (blocks @ [b]) =
     (if length blocks < 11 then mtp_window blocks else tl (mtp_window blocks)) @ [timestamp (header b)]"
proof (cases "length blocks < 11")
  case False
  then have "drop (Suc (length blocks) - 11) blocks = tl (drop (length blocks - 11) blocks)"
    by (metis Suc_diff_le drop_Suc linorder_not_less tl_drop)
  with False show ?thesis by (simp add: mtp_window_def map_tl)
qed (simp add: mtp_window_def)

section \<open>Properties\<close>

text \<open>C30: every target the retargeting rule can ask for, on every network, every history and
  every candidate timestamp, is a 48-byte target within the configured difficulty bounds.\<close>

theorem next_target_always_within_bounds:
  "length (target_for_next_block_with_timestamp n blocks ts) = 48
   \<and> target_within_bounds (target_for_next_block_with_timestamp n blocks ts)"
  using next_target_bounds [of n blocks] within_bounds_iff [OF profile_targets(1)]
  by (simp add: target_for_next_block_with_timestamp_def profile_targets)

text \<open>C31: one retargeting step moves the target by at most a bounded factor: with at least two
  blocks of history, the next target lies between 68 and 116 percent of the mean target of the
  averaging window, up to the global bounds, whatever the timestamps of the blocks are.\<close>

theorem retarget_step_is_bounded:
  assumes "2 \<le> length (strip_genesis blocks)"
    and "\<forall>b \<in> set blocks. length (difficulty_target_or_bits (header b)) = 48
      \<and> target_within_bounds (difficulty_target_or_bits (header b))"
  defines "m \<equiv> mean_target_blocks
    (drop (length (strip_genesis blocks) - 17) (strip_genesis blocks))"
  shows "min (256 ^ 46 - 1) (m * 68 div 100) \<le> target_to_biguint (next_target_from_blocks n blocks)
    \<and> target_to_biguint (next_target_from_blocks n blocks) \<le> max 4095 (m * 116 div 100)"
proof -
  let ?bs = "strip_genesis blocks"
  let ?w = "min (length ?bs) 17"
  have w: "2 \<le> ?w" "?w \<le> 17" using assms(1) by auto
  have sub: "set ?bs \<subseteq> set blocks" by (auto simp: strip_genesis_def split: list.splits if_splits)
  have "m \<le> HI" unfolding m_def
  proof (rule mean_target_bounds)
    show "drop (length ?bs - 17) ?bs \<noteq> []" using assms(1) by auto
    fix b assume "b \<in> set (drop (length ?bs - 17) ?bs)"
    with sub have "b \<in> set blocks" by (meson in_set_dropD subsetD)
    with assms(2) show "be_to_nat (difficulty_target_or_bits (header b)) \<le> HI"
      by (auto simp: within_bounds_iff)
  qed
  define e where "e = expected_timespan_seconds_for_window ?w"
  have e: "unat e = 100 * (?w - 1)" unfolding e_def using expected_timespan_window [OF w] .
  obtain actual where nxt: "next_target_from_blocks n blocks = clamp_target
      (biguint_to_target (m * unat (bounded_actual_timespan actual e) div unat e))"
    unfolding e_def m_def by (rule next_target_shape [OF assms(1)])
  define b where "b = unat (bounded_actual_timespan actual e)"
  have b: "68 * (?w - 1) \<le> b" "b \<le> 116 * (?w - 1)"
    using bounded_timespan_range [of e actual] w e unfolding b_def by auto
  have scale: "m * 68 div 100 \<le> m * b div unat e" "m * b div unat e \<le> m * 116 div 100"
    using scale_by_window [OF _ b, of m] w unfolding e by simp_all
  have "m * b div unat e < 256 ^ 48" by (rule order_le_less_trans [OF scale(2) scaled_target_fits [OF \<open>m \<le> HI\<close>]])
  then have "be_to_nat (biguint_to_target (m * b div unat e)) = m * b div unat e"
    unfolding biguint_to_target_value be_to_nat_of_nat by (rule mod_less)
  then have val: "target_to_biguint (next_target_from_blocks n blocks) = max LO (min HI (m * b div unat e))"
    unfolding nxt target_to_biguint_def b_def [symmetric]
    by (subst clamp_value) (simp_all only: biguint_to_target_value length_be_of_nat)
  show ?thesis unfolding val by (rule clamp_between [OF scale])
qed

definition example_chain_block :: "u64 \<Rightarrow> u64 \<Rightarrow> block" where
  "example_chain_block h ts = default_block\<lparr>header := default_header\<lparr>height := h, timestamp := ts,
     difficulty_target_or_bits := min_difficulty_target DIFFICULTY_PROFILE\<rparr>\<rparr>"

lemma example_chain_block_fields [simp]:
  "height (header (example_chain_block h ts)) = h"
  "timestamp (header (example_chain_block h ts)) = ts"
  "difficulty_target_or_bits (header (example_chain_block h ts)) = min_difficulty_target DIFFICULTY_PROFILE"
  by (simp_all add: example_chain_block_def)

theorem retarget_step_is_bounded_witness:
  "(let blocks = [example_chain_block 1 100, example_chain_block 2 200]
    in mean_target_blocks blocks * 68 div 100
         \<le> target_to_biguint (next_target_from_blocks Mainnet blocks))"
proof -
  let ?blocks = "[example_chain_block 1 100, example_chain_block 2 200]"
  have strip: "strip_genesis ?blocks = ?blocks" by (simp add: strip_genesis_def)
  have mean: "mean_target_blocks ?blocks = 256 ^ 46 - 1"
    by (simp add: mean_target_blocks_def target_to_biguint_def profile_targets flip: numeral_2_eq_2)
  have "\<forall>b \<in> set ?blocks. length (difficulty_target_or_bits (header b)) = 48
      \<and> target_within_bounds (difficulty_target_or_bits (header b))"
    using within_bounds_iff [OF profile_targets(1)] by (simp add: profile_targets)
  from retarget_step_is_bounded [OF _ this, of Mainnet] show ?thesis
    unfolding strip Let_def by (simp add: mean)
qed

text \<open>On the test network, a candidate whose timestamp is more than ten minutes after the tip
  may be mined at the easiest target, and on the other networks the candidate timestamp has no
  influence on the target.\<close>

theorem testnet_stall_reset:
  "target_for_next_block_with_timestamp n blocks ts =
     (if n = Testnet \<and> blocks \<noteq> [] \<and> unat (timestamp (header (last blocks))) + 600 < unat ts
      then min_difficulty_target DIFFICULTY_PROFILE else next_target_from_blocks n blocks)"
  by (auto simp: target_for_next_block_with_timestamp_def word_less_nat_alt unat_sat_sub)

text \<open>The work of a non-zero target is the whole number of attempts \<open>2 ^ 384 div (target + 1)\<close>
  that it takes on average to find a block, so an easier target never counts for more work.\<close>

theorem block_proof_is_expected_attempts:
  assumes "length t = 48" and "target_to_biguint t \<noteq> 0"
  shows "block_proof t = 2 ^ 384 div (target_to_biguint t + 1)
    \<and> (length t' = 48 \<and> t \<le> t' \<longrightarrow> block_proof t' \<le> block_proof t)"
proof -
  have exact: "block_proof x = 2 ^ 384 div (target_to_biguint x + 1)"
    if "length x = 48" "target_to_biguint x \<noteq> 0" for x
  proof -
    let ?v = "target_to_biguint x"
    have "?v < 2 ^ 384" using be_to_nat_bound [of x] that(1)
      by (simp add: target_to_biguint_def power_mult [of 2 8 48, symmetric])
    then have split: "(2::nat) ^ 384 = (2 ^ 384 - 1 - ?v) + (?v + 1)" by simp
    have "2 ^ 384 div (?v + 1) = (2 ^ 384 - 1 - ?v) div (?v + 1) + 1"
      by (subst split) (metis Suc_eq_plus1 add_is_0 div_add_self2 one_neq_zero)
    with that(2) show ?thesis by (simp add: block_proof_def Let_def)
  qed
  show ?thesis
  proof (intro conjI impI)
    assume t': "length t' = 48 \<and> t \<le> t'"
    then have "target_to_biguint t \<le> target_to_biguint t'"
      using assms(1) lex_le_iff_be [of t t'] by (simp add: target_to_biguint_def)
    then show "block_proof t' \<le> block_proof t"
      using t' assms exact [of t] exact [of t'] by (auto intro: div_le_mono2)
  qed (rule exact [OF assms])
qed

theorem block_proof_is_expected_attempts_witness:
  "block_proof (min_difficulty_target DIFFICULTY_PROFILE) = 65536
   \<and> block_proof (min_difficulty_target DIFFICULTY_PROFILE)
     \<le> block_proof (max_difficulty_target DIFFICULTY_PROFILE)"
proof -
  have le: "max_difficulty_target DIFFICULTY_PROFILE \<le> min_difficulty_target DIFFICULTY_PROFILE"
    using lex_le_iff_be [of "max_difficulty_target DIFFICULTY_PROFILE"
        "min_difficulty_target DIFFICULTY_PROFILE"] by (simp add: profile_targets)
  show ?thesis
    using block_proof_is_expected_attempts [OF profile_targets(1)]
      block_proof_is_expected_attempts [OF profile_targets(2), of "min_difficulty_target DIFFICULTY_PROFILE"] le
    by (simp add: target_to_biguint_def profile_targets)
qed



text \<open>C33: the median time past never goes backwards: appending a block whose timestamp exceeds the
  median of the chain so far keeps or raises the median.\<close>

theorem median_time_past_is_monotone:
  assumes "blocks \<noteq> []" and "Suc (length blocks) < u64_bound"
    and "median_time_past_blocks blocks (length blocks - 1) < timestamp (header b)"
  shows "median_time_past_blocks blocks (length blocks - 1)
    \<le> median_time_past_blocks (blocks @ [b]) (length blocks)"
proof -
  let ?w = "mtp_window blocks" and ?t = "timestamp (header b)"
  have ne: "?w \<noteq> []" using assms(1) by (cases blocks) (auto simp: mtp_window_def)
  have m: "median_time_past_blocks blocks (length blocks - 1) = median_u64 ?w"
    "median_time_past_blocks (blocks @ [b]) (length blocks) = median_u64 (mtp_window (blocks @ [b]))"
    using mtp_tip [of blocks] mtp_tip [of "blocks @ [b]"] assms(1,2) by simp_all
  have len: "length ?w = min (length blocks) 11" by (simp add: mtp_window_def min_def)
  have "\<not> ?t < median_u64 ?w" using assms(3) m(1) by simp
  then have "length (filter (\<lambda>x. x < median_u64 ?w) (mtp_window (blocks @ [b])))
      \<le> length (filter (\<lambda>x. x < median_u64 ?w) ?w)"
    using ne by (cases ?w) (auto simp: mtp_window_snoc)
  moreover have "length ?w div 2 \<le> length (mtp_window (blocks @ [b])) div 2"
    using len by (auto simp: mtp_window_snoc min_def)
  ultimately have "median_u64 ?w \<le> median_u64 (mtp_window (blocks @ [b]))"
    using ne by (intro median_grows) (auto simp: mtp_window_snoc)
  then show ?thesis unfolding m .
qed

theorem median_time_past_is_monotone_witness:
  "median_time_past_blocks [example_chain_block 1 10] 0
     \<le> median_time_past_blocks ([example_chain_block 1 10] @ [example_chain_block 2 11]) 1"
  using median_time_past_is_monotone [of "[example_chain_block 1 10]" "example_chain_block 2 11"]
  by (simp add: median_time_past_blocks_def Let_def POW_PROFILE_def usize_sat_add_def median_u64_def)

end
