(* ===== verification/Rules.thy ===== *)
theory Rules
  imports Network
begin

text \<open>
  Ruleset activation (\<^verbatim>\<open>crates/atho-core/src/consensus/rules.rs\<close>): which block and
  transaction version a height requires under a schedule of activations.
\<close>

section \<open>Definitions\<close>

record consensus_rules =
  protocol_version :: u32
  ruleset_version :: u32
  block_version :: u16
  transaction_version :: u16
  activation_height :: u64

record scheduled_activation =
  sa_name :: string
  sa_ruleset_version :: u32
  sa_block_version :: u16
  sa_transaction_version :: u16
  sa_activation_height :: "u64 option"

definition PROTOCOL_VERSION :: u32 where [simp]: "PROTOCOL_VERSION = 1"
definition RULESET_VERSION_V1 :: u32 where [simp]: "RULESET_VERSION_V1 = 1"
definition BLOCK_VERSION_V1 :: u16 where [simp]: "BLOCK_VERSION_V1 = 1"
definition TRANSACTION_VERSION_V1 :: u16 where [simp]: "TRANSACTION_VERSION_V1 = 1"
definition RULESET_V1_ACTIVATION_HEIGHT :: u64 where [simp]: "RULESET_V1_ACTIVATION_HEIGHT = 0"
definition RULESET_VERSION_V2_PLACEHOLDER :: u32 where [simp]: "RULESET_VERSION_V2_PLACEHOLDER = 2"
definition BLOCK_VERSION_V2_PLACEHOLDER :: u16 where [simp]: "BLOCK_VERSION_V2_PLACEHOLDER = 2"
definition TRANSACTION_VERSION_V2_PLACEHOLDER :: u16
  where [simp]: "TRANSACTION_VERSION_V2_PLACEHOLDER = 2"
definition RULESET_V2_ACTIVATION_HEIGHT :: "u64 option" where [simp]: "RULESET_V2_ACTIVATION_HEIGHT = None"

definition ACTIVE_RULESET_V1 :: consensus_rules where
  "ACTIVE_RULESET_V1 = \<lparr>protocol_version = PROTOCOL_VERSION, ruleset_version = RULESET_VERSION_V1,
     block_version = BLOCK_VERSION_V1, transaction_version = TRANSACTION_VERSION_V1,
     activation_height = RULESET_V1_ACTIVATION_HEIGHT\<rparr>"

definition SCHEDULED_ACTIVATION_V1 :: scheduled_activation where
  "SCHEDULED_ACTIVATION_V1 = \<lparr>sa_name = ''atho-ruleset-v1'', sa_ruleset_version = RULESET_VERSION_V1,
     sa_block_version = BLOCK_VERSION_V1, sa_transaction_version = TRANSACTION_VERSION_V1,
     sa_activation_height = Some RULESET_V1_ACTIVATION_HEIGHT\<rparr>"

definition SCHEDULED_ACTIVATIONS :: "scheduled_activation list" where
  "SCHEDULED_ACTIVATIONS = [SCHEDULED_ACTIVATION_V1,
     \<lparr>sa_name = ''atho-ruleset-v2-placeholder'', sa_ruleset_version = RULESET_VERSION_V2_PLACEHOLDER,
      sa_block_version = BLOCK_VERSION_V2_PLACEHOLDER,
      sa_transaction_version = TRANSACTION_VERSION_V2_PLACEHOLDER,
      sa_activation_height = RULESET_V2_ACTIVATION_HEIGHT\<rparr>]"

text \<open>\<open>Iterator::max_by_key\<close> returns the last of the elements with the largest key.\<close>

fun max_by_key :: "('a \<Rightarrow> 'k::linorder) \<Rightarrow> 'a list \<Rightarrow> 'a option" where
  "max_by_key key [] = None"
| "max_by_key key (x # xs) =
     Some (foldl (\<lambda>best y. if key y \<ge> key best then y else best) x xs)"

definition active_entries :: "u64 \<Rightarrow> scheduled_activation list \<Rightarrow> (scheduled_activation \<times> u64) list" where
  "active_entries h schedule = List.map_filter (\<lambda>activation.
     case sa_activation_height activation of
       Some start \<Rightarrow>
         if start \<le> h then Some (activation, start) else None
     | None \<Rightarrow> None) schedule"

definition rules_at_height_with_schedule :: "u64 \<Rightarrow> scheduled_activation list \<Rightarrow> consensus_rules" where
  "rules_at_height_with_schedule h schedule =
     (let activation = (case max_by_key snd (active_entries h schedule) of
            Some (activation, _) \<Rightarrow> activation
          | None \<Rightarrow> (case schedule of a # _ \<Rightarrow> a | [] \<Rightarrow> SCHEDULED_ACTIVATIONS ! 0))
      in \<lparr>protocol_version = PROTOCOL_VERSION,
          ruleset_version = sa_ruleset_version activation,
          block_version = sa_block_version activation,
          transaction_version = sa_transaction_version activation,
          activation_height = (case sa_activation_height activation of
              Some a \<Rightarrow> a | None \<Rightarrow> RULESET_V1_ACTIVATION_HEIGHT)\<rparr>)"

definition rules_at_height :: "u64 \<Rightarrow> consensus_rules" where
  "rules_at_height h = rules_at_height_with_schedule h SCHEDULED_ACTIVATIONS"

definition block_version_at_height :: "u64 \<Rightarrow> u16" where
  "block_version_at_height h = block_version (rules_at_height h)"

definition block_version_at_height_with_schedule :: "u64 \<Rightarrow> scheduled_activation list \<Rightarrow> u16" where
  "block_version_at_height_with_schedule h schedule =
     block_version (rules_at_height_with_schedule h schedule)"

definition transaction_version_at_height :: "u64 \<Rightarrow> u16" where
  "transaction_version_at_height h = transaction_version (rules_at_height h)"

definition transaction_version_at_height_with_schedule :: "u64 \<Rightarrow> scheduled_activation list \<Rightarrow> u16" where
  "transaction_version_at_height_with_schedule h schedule =
     transaction_version (rules_at_height_with_schedule h schedule)"

definition ruleset_version_at_height :: "u64 \<Rightarrow> u32" where
  "ruleset_version_at_height h = ruleset_version (rules_at_height h)"

definition is_supported_block_version :: "u16 \<Rightarrow> u64 \<Rightarrow> bool" where
  "is_supported_block_version version h \<longleftrightarrow> block_version_at_height h = version"

definition is_supported_block_version_with_schedule ::
    "u16 \<Rightarrow> u64 \<Rightarrow> scheduled_activation list \<Rightarrow> bool" where
  "is_supported_block_version_with_schedule version h schedule \<longleftrightarrow>
     block_version_at_height_with_schedule h schedule = version"

definition is_supported_transaction_version :: "u16 \<Rightarrow> u64 \<Rightarrow> bool" where
  "is_supported_transaction_version version h \<longleftrightarrow> transaction_version_at_height h = version"

definition is_supported_transaction_version_with_schedule ::
    "u16 \<Rightarrow> u64 \<Rightarrow> scheduled_activation list \<Rightarrow> bool" where
  "is_supported_transaction_version_with_schedule version h schedule \<longleftrightarrow>
     transaction_version_at_height_with_schedule h schedule = version"

section \<open>The latest live activation\<close>

lemma max_by_key_fold:
  fixes key :: "'a \<Rightarrow> 'k::linorder"
  shows "foldl (\<lambda>best y. if key y \<ge> key best then y else best) x xs \<in> set (x # xs)
    \<and> (\<forall>y \<in> set (x # xs). key y \<le> key (foldl (\<lambda>best y. if key y \<ge> key best then y else best) x xs))"
proof (induction xs arbitrary: x)
  case (Cons a xs)
  let ?b = "if key a \<ge> key x then a else x"
  from Cons.IH [of ?b] show ?case by (auto split: if_splits)
qed simp

lemma max_by_key_Some:
  "max_by_key key xs = Some m \<Longrightarrow> m \<in> set xs \<and> (\<forall>y \<in> set xs. key y \<le> key m)"
  using max_by_key_fold [of key] by (cases xs) (auto simp del: foldl_Cons)

lemma active_entries_iff:
  "(a, k) \<in> set (active_entries h schedule) \<longleftrightarrow>
     a \<in> set schedule \<and> sa_activation_height a = Some k \<and> k \<le> h"
  by (force simp: active_entries_def List.map_filter_def split: option.splits if_splits)

lemma rules_default: "rules_at_height h = ACTIVE_RULESET_V1"
proof -
  have "active_entries h SCHEDULED_ACTIVATIONS = [(SCHEDULED_ACTIVATION_V1, 0)]"
    by (simp add: active_entries_def SCHEDULED_ACTIVATIONS_def SCHEDULED_ACTIVATION_V1_def
        List.map_filter_def)
  then show ?thesis
    by (simp add: rules_at_height_def rules_at_height_with_schedule_def ACTIVE_RULESET_V1_def
        SCHEDULED_ACTIVATION_V1_def)
qed

section \<open>Properties\<close>

text \<open>C22: whenever some entry of a schedule is live at a height, the versions in force are those
  of a live entry with the greatest activation height, never those of a dormant or a future
  entry.\<close>

theorem rules_follow_latest_live_activation:
  assumes "a \<in> set schedule" and "sa_activation_height a = Some k" and "k \<le> h"
  shows "\<exists>b \<in> set schedule. \<exists>m. sa_activation_height b = Some m \<and> m \<le> h \<and> k \<le> m
    \<and> block_version_at_height_with_schedule h schedule = sa_block_version b
    \<and> transaction_version_at_height_with_schedule h schedule = sa_transaction_version b
    \<and> activation_height (rules_at_height_with_schedule h schedule) = m"
proof -
  have live: "(a, k) \<in> set (active_entries h schedule)" using assms by (simp add: active_entries_iff)
  then have "max_by_key snd (active_entries h schedule) \<noteq> None"
    by (cases "active_entries h schedule") auto
  then obtain b m where best: "max_by_key snd (active_entries h schedule) = Some (b, m)"
    by fast
  from max_by_key_Some [OF best] live have "(b, m) \<in> set (active_entries h schedule)" "k \<le> m" by auto
  then show ?thesis
    using best by (intro bexI [of _ b])
      (auto simp: active_entries_iff rules_at_height_with_schedule_def
        block_version_at_height_with_schedule_def transaction_version_at_height_with_schedule_def)
qed

theorem rules_follow_latest_live_activation_witness:
  "\<exists>b \<in> set SCHEDULED_ACTIVATIONS. \<exists>m. sa_activation_height b = Some m \<and> m \<le> 5 \<and> 0 \<le> m
    \<and> block_version_at_height_with_schedule 5 SCHEDULED_ACTIVATIONS = sa_block_version b
    \<and> transaction_version_at_height_with_schedule 5 SCHEDULED_ACTIVATIONS = sa_transaction_version b
    \<and> activation_height (rules_at_height_with_schedule 5 SCHEDULED_ACTIVATIONS) = m"
  by (rule rules_follow_latest_live_activation [of SCHEDULED_ACTIVATION_V1])
    (simp_all add: SCHEDULED_ACTIVATIONS_def SCHEDULED_ACTIVATION_V1_def)

end
