(* ===== verification/Subsidy.thy ===== *)
theory Subsidy
  imports Network
begin

text \<open>
  Emission schedule (\<^verbatim>\<open>crates/atho-core/src/consensus/subsidy.rs\<close>): the reward of a
  block and the loop that adds up the issuance era by era. The 128-bit total is a natural number
  with the saturation written out.
\<close>

section \<open>Definitions\<close>

record emission_schedule =
  initial_block_reward_atoms :: u64
  tail_reward_atoms :: u64
  halving_interval_blocks :: u64
  es_blocks_per_year :: u64

definition EMISSION_SCHEDULE :: emission_schedule where
  "EMISSION_SCHEDULE = \<lparr>initial_block_reward_atoms = INITIAL_BLOCK_REWARD_ATOMS,
     tail_reward_atoms = TAIL_REWARD_ATOMS, halving_interval_blocks = HALVING_INTERVAL_BLOCKS,
     es_blocks_per_year = BLOCKS_PER_YEAR\<rparr>"

definition TAIL_EMISSION_START_HEIGHT :: u64 where
  "TAIL_EMISSION_START_HEIGHT = halving_interval_blocks EMISSION_SCHEDULE * 7"

definition YEAR_20_HEIGHT :: u64 where
  "YEAR_20_HEIGHT = es_blocks_per_year EMISSION_SCHEDULE * 20"

definition get_block_reward_atoms :: "u64 \<Rightarrow> u64" where
  "get_block_reward_atoms h =
     (let halvings = h div HALVING_INTERVAL_BLOCKS;
          reward = (if halvings \<ge> 64 then 0 else drop_bit (unat halvings) INITIAL_BLOCK_REWARD_ATOMS)
      in if reward < TAIL_REWARD_ATOMS then TAIL_REWARD_ATOMS else reward)"

definition block_subsidy_atoms :: "u64 \<Rightarrow> u64" where
  "block_subsidy_atoms h = get_block_reward_atoms h"

definition block_subsidy_atoms_for_network :: "network \<Rightarrow> u64 \<Rightarrow> u64" where
  "block_subsidy_atoms_for_network network h = get_block_reward_atoms h"

definition genesis_coinbase_atoms_for_network :: "network \<Rightarrow> u64" where
  "genesis_coinbase_atoms_for_network network = get_block_reward_atoms 0"

definition u128_sat_add :: "nat \<Rightarrow> nat \<Rightarrow> nat" where
  "u128_sat_add a b = min (a + b) (2 ^ 128 - 1)"

lemma min_word_sub: "unat (a - min a b) = unat a - unat b" for a b :: u64
  by (auto simp: min_def unat_sub word_le_nat_alt)

text \<open>The \<open>while remaining_blocks > 0\<close> loop.\<close>

function issue_eras :: "u64 \<Rightarrow> nat \<Rightarrow> u64 \<Rightarrow> nat" where
  "issue_eras remaining_blocks issued reward =
     (if remaining_blocks > 0 then
        let era_blocks = min remaining_blocks HALVING_INTERVAL_BLOCKS;
            effective_reward = max reward TAIL_REWARD_ATOMS;
            issued = u128_sat_add issued (unat era_blocks * unat effective_reward);
            remaining_blocks = remaining_blocks - era_blocks
        in issue_eras remaining_blocks issued
             (if reward > TAIL_REWARD_ATOMS then max (reward div 2) TAIL_REWARD_ATOMS
              else TAIL_REWARD_ATOMS)
      else issued)"
  by auto

termination
proof (relation "measure (\<lambda>(r, i, w). unat r)")
  fix remaining_blocks reward x xa xb xc and issued :: nat
  assume "(0 :: u64) < remaining_blocks" and "x = min remaining_blocks HALVING_INTERVAL_BLOCKS"
    and "xc = remaining_blocks - x"
  then show "((xc, xb, if TAIL_REWARD_ATOMS < reward then max (reward div 2) TAIL_REWARD_ATOMS
      else TAIL_REWARD_ATOMS), remaining_blocks, issued, reward) \<in> measure (\<lambda>(r, i, w). unat r)"
    by (simp add: min_word_sub word_less_nat_alt del: HALVING_INTERVAL_BLOCKS_def)
      (simp add: word_less_nat_alt)
qed simp

declare issue_eras.simps [simp del]

definition cumulative_issued_before_height :: "u64 \<Rightarrow> nat" where
  "cumulative_issued_before_height h =
     (if h = 0 then 0 else issue_eras h 0 INITIAL_BLOCK_REWARD_ATOMS)"

definition cumulative_issued_through_height :: "u64 \<Rightarrow> nat" where
  "cumulative_issued_through_height h = cumulative_issued_before_height (sat_add h 1)"

definition cumulative_issued_before_height_for_network :: "network \<Rightarrow> u64 \<Rightarrow> nat" where
  "cumulative_issued_before_height_for_network network h = cumulative_issued_before_height h"

definition cumulative_issued_through_height_for_network :: "network \<Rightarrow> u64 \<Rightarrow> nat" where
  "cumulative_issued_through_height_for_network network h = cumulative_issued_through_height h"

definition max_supply_atoms_for_network :: "network \<Rightarrow> nat option" where
  "max_supply_atoms_for_network network = None"

section \<open>The schedule as a function of the era\<close>

definition era_reward :: "nat \<Rightarrow> nat" where
  "era_reward k = max (5000000000 div 2 ^ k) 39062500"

lemma unat_block_reward: "unat (get_block_reward_atoms h) = era_reward (unat h div 1260000)"
proof -
  let ?k = "unat h div 1260000"
  have k: "unat (h div 1260000) = ?k" by (simp add: unat_div)
  have big: "5000000000 div 2 ^ n = (0::nat)" if "n \<ge> 64" for n
  proof -
    have "(2::nat) ^ 64 \<le> 2 ^ n" using that by (rule power_increasing) simp
    then have "(5000000000::nat) < 2 ^ n" by simp
    then show ?thesis by simp
  qed
  have "(64 :: u64) \<le> h div 1260000 \<longleftrightarrow> 64 \<le> ?k" by (simp add: word_le_nat_alt k)
  moreover have "unat (drop_bit n (5000000000 :: u64)) = 5000000000 div 2 ^ n" for n
    by (subst unat_drop_bit_eq) (simp add: drop_bit_eq_div)
  ultimately show ?thesis
    using big [of ?k]
    by (simp add: get_block_reward_atoms_def Let_def word_less_nat_alt k era_reward_def max_def)
qed

lemma era_reward_bounds: "39062500 \<le> era_reward k" "era_reward k \<le> 5000000000"
  by (simp_all add: era_reward_def)

lemma era_reward_antimono: "j \<le> k \<Longrightarrow> era_reward k \<le> era_reward j"
  unfolding era_reward_def by (intro max.mono div_le_mono2) (simp_all add: power_increasing)

lemma era_reward_tail: "7 \<le> k \<Longrightarrow> era_reward k = 39062500"
  using era_reward_antimono [of 7 k] era_reward_bounds(1) [of k] by (simp add: era_reward_def [of 7])

lemma era_reward_Suc:
  "era_reward (Suc k) = (if era_reward k > 39062500 then max (era_reward k div 2) 39062500 else 39062500)"
proof -
  have *: "(5000000000::nat) div 2 ^ Suc k = 5000000000 div 2 ^ k div 2"
    by (metis div_mult2_eq mult.commute power_Suc)
  show ?thesis unfolding era_reward_def * by (auto simp: max_def)
qed

definition issued_between :: "nat \<Rightarrow> nat \<Rightarrow> nat" where
  "issued_between from n = (\<Sum>j<n. era_reward ((from + j) div 1260000))"

lemma issued_between_add:
  "issued_between from (a + b) = issued_between from a + issued_between (from + a) b"
  unfolding issued_between_def by (induction b) (simp_all add: add.assoc)

lemma issued_between_era:
  "n \<le> 1260000 \<Longrightarrow> issued_between (k * 1260000) n = n * era_reward k"
proof (induction n)
  case (Suc n)
  then have "(k * 1260000 + n) div 1260000 = k" by (simp add: div_nat_eqI)
  with Suc show ?case by (simp add: issued_between_def)
qed (simp add: issued_between_def)

lemma issued_between_bound: "issued_between from n \<le> n * 5000000000"
  unfolding issued_between_def
  using sum_bounded_above [of "{..<n}" "\<lambda>j. era_reward ((from + j) div 1260000)" 5000000000]
  by (simp add: era_reward_bounds)

lemma issue_eras_sum:
  "unat reward = era_reward k \<Longrightarrow> issued + unat remaining * 5000000000 < 2 ^ 128 \<Longrightarrow>
     issue_eras remaining issued reward = issued + issued_between (k * 1260000) (unat remaining)"
proof (induction remaining issued reward arbitrary: k rule: issue_eras.induct)
  case (1 remaining issued reward)
  show ?case
  proof (cases "remaining > 0")
    case False
    then have "remaining = 0" by (simp add: word_gt_0)
    then show ?thesis by (simp add: issue_eras.simps [of 0] issued_between_def)
  next
    case True
    let ?era = "min remaining HALVING_INTERVAL_BLOCKS"
    let ?next = "if reward > TAIL_REWARD_ATOMS then max (reward div 2) TAIL_REWARD_ATOMS
      else TAIL_REWARD_ATOMS"
    let ?issued = "u128_sat_add issued (unat ?era * unat (max reward TAIL_REWARD_ATOMS))"
    have era: "unat ?era = min (unat remaining) 1260000"
      by (auto simp: min_def word_le_nat_alt)
    have eff: "unat (max reward TAIL_REWARD_ATOMS) = era_reward k"
      using "1.prems"(1) era_reward_bounds(1) [of k] by (auto simp: max_def word_le_nat_alt)
    have nxt: "unat ?next = era_reward (Suc k)"
      using "1.prems"(1) unfolding era_reward_Suc
      by (auto simp: word_less_nat_alt word_le_nat_alt max_def unat_div)
    have le: "unat ?era * era_reward k \<le> unat ?era * 5000000000"
      using era_reward_bounds(2) [of k] by (rule mult_left_mono) simp
    have rest: "unat remaining = unat ?era + unat (remaining - ?era)"
      unfolding min_word_sub era by simp
    then have tot: "issued + unat ?era * era_reward k + unat (remaining - ?era) * 5000000000 < 2 ^ 128"
      using "1.prems"(2) le unfolding rest add_mult_distrib by linarith
    then have iss: "?issued = issued + unat ?era * era_reward k"
      unfolding eff by (simp add: u128_sat_add_def)
    have "issue_eras remaining issued reward = issue_eras (remaining - ?era) ?issued ?next"
      using True by (subst issue_eras.simps) (simp only: Let_def if_True)
    also have "\<dots> = ?issued + issued_between (Suc k * 1260000) (unat (remaining - ?era))"
    proof (rule "1.IH" [OF True refl refl refl refl nxt])
      show "?issued + unat (remaining - ?era) * 5000000000 < 2 ^ 128" using tot unfolding iss .
    qed
    also have "\<dots> = issued + issued_between (k * 1260000) (unat remaining)"
    proof (cases "unat remaining \<le> 1260000")
      case True
      then show ?thesis
        using issued_between_era [of "unat remaining" k] iss era
        by (simp add: min_word_sub issued_between_def)
    next
      case False
      then show ?thesis
        using issued_between_era [of 1260000 k] iss era rest
          issued_between_add [of "k * 1260000" 1260000 "unat (remaining - ?era)"]
        by (simp add: add.commute)
    qed
    finally show ?thesis .
  qed
qed

lemma issued_before_sum:
  "cumulative_issued_before_height h = (\<Sum>j<unat h. unat (get_block_reward_atoms (word_of_nat j)))"
proof -
  have "unat h * 5000000000 < 2 ^ 128" using u64_unat_bound [of h] by simp
  moreover have "unat (INITIAL_BLOCK_REWARD_ATOMS) = era_reward 0" by (simp add: era_reward_def)
  ultimately have "cumulative_issued_before_height h = issued_between 0 (unat h)"
    using issue_eras_sum [of INITIAL_BLOCK_REWARD_ATOMS 0 0 h]
    by (auto simp: cumulative_issued_before_height_def issued_between_def
        simp del: INITIAL_BLOCK_REWARD_ATOMS_def)
  also have "\<dots> = (\<Sum>j<unat h. unat (get_block_reward_atoms (word_of_nat j)))"
    unfolding issued_between_def
  proof (rule sum.cong [OF refl])
    fix j assume "j \<in> {..<unat h}"
    then have "j < 2 ^ 64" using u64_unat_bound [of h] by simp
    then have "unat (word_of_nat j :: u64) = j" by (simp add: unat_of_nat)
    then show "era_reward ((0 + j) div 1260000) = unat (get_block_reward_atoms (word_of_nat j))"
      by (simp add: unat_block_reward)
  qed
  finally show ?thesis .
qed

section \<open>Properties\<close>

text \<open>C21: the era-by-era loop computes exactly the sum of the rewards of all blocks below the
  given height, for every 64-bit height: the loop never loses a block at an era boundary and the
  128-bit total never saturates.\<close>

theorem issued_before_height_is_sum_of_rewards:
  "cumulative_issued_before_height h = (\<Sum>j<unat h. unat (get_block_reward_atoms (word_of_nat j)))"
  by (rule issued_before_sum)

text \<open>The reward never falls below the tail reward nor rises above the initial reward, never
  increases with the height, and is the tail reward at every height from the start of the tail
  emission on, so issuance never stops.\<close>

theorem reward_schedule_bounds:
  "TAIL_REWARD_ATOMS \<le> get_block_reward_atoms h
   \<and> get_block_reward_atoms h \<le> INITIAL_BLOCK_REWARD_ATOMS
   \<and> (h \<le> h' \<longrightarrow> get_block_reward_atoms h' \<le> get_block_reward_atoms h)
   \<and> (get_block_reward_atoms h = TAIL_REWARD_ATOMS \<longleftrightarrow> TAIL_EMISSION_START_HEIGHT \<le> h)"
proof -
  have start: "unat TAIL_EMISSION_START_HEIGHT = 7 * 1260000"
    by (simp add: TAIL_EMISSION_START_HEIGHT_def EMISSION_SCHEDULE_def)
  have early: "era_reward k \<noteq> 39062500" if "k < 7" for k
    using era_reward_antimono [of k 6] that by (simp add: era_reward_def [of 6])
  have "unat (get_block_reward_atoms h) = 39062500 \<longleftrightarrow> 7 * 1260000 \<le> unat h"
  proof
    assume "unat (get_block_reward_atoms h) = 39062500"
    then have "\<not> unat h div 1260000 < 7" using early [of "unat h div 1260000"]
      by (auto simp: unat_block_reward)
    then show "7 * 1260000 \<le> unat h" by (simp add: not_less)
  next
    assume "7 * 1260000 \<le> unat h"
    then have "7 \<le> unat h div 1260000" by simp
    then show "unat (get_block_reward_atoms h) = 39062500" by (simp add: unat_block_reward era_reward_tail)
  qed
  then have "get_block_reward_atoms h = TAIL_REWARD_ATOMS \<longleftrightarrow> TAIL_EMISSION_START_HEIGHT \<le> h"
    by (simp add: word_unat_eq_iff word_le_nat_alt start)
  moreover have "get_block_reward_atoms h' \<le> get_block_reward_atoms h" if "h \<le> h'"
    using that by (simp add: word_le_nat_alt unat_block_reward era_reward_antimono div_le_mono)
  ultimately show ?thesis
    using era_reward_bounds [of "unat h div 1260000"] by (simp add: word_le_nat_alt unat_block_reward)
qed

theorem reward_schedule_bounds_witness:
  "get_block_reward_atoms 2520000 \<le> get_block_reward_atoms 1260000
   \<and> get_block_reward_atoms 8820000 = TAIL_REWARD_ATOMS"
  using reward_schedule_bounds [of 1260000 2520000] reward_schedule_bounds [of 8820000 8820000]
  by (simp add: TAIL_EMISSION_START_HEIGHT_def EMISSION_SCHEDULE_def)

text \<open>The issuance through a height is the issuance before it plus the reward of the block at
  that height, for every height but the largest representable one, where the saturating increment
  loses the last block.\<close>

theorem issued_through_height:
  assumes "unat h < u64_max"
  shows "cumulative_issued_through_height h =
    cumulative_issued_before_height h + unat (get_block_reward_atoms h)"
proof -
  have "unat (sat_add h 1) = Suc (unat h)" using assms by (simp add: unat_sat_add)
  then show ?thesis by (simp add: cumulative_issued_through_height_def issued_before_sum)
qed

theorem issued_through_height_witness:
  "cumulative_issued_through_height 0 = 5000000000"
  using issued_through_height [of 0]
  by (simp add: cumulative_issued_before_height_def get_block_reward_atoms_def)

end
