(* ===== verification/Genesis.thy ===== *)
theory Genesis
  imports Pow Subsidy Rules
begin

text \<open>
  Genesis blocks (\<^verbatim>\<open>crates/atho-core/src/genesis.rs\<close>) and the signature digests that are
  bound to them (\<^verbatim>\<open>crates/atho-core/src/consensus/signatures.rs\<close>). The assertions of
  \<open>genesis_state_from_parts\<close> stop the process when they fail; a genesis state exists exactly when
  they hold. The static caches of the code return the value they were initialised with.
\<close>

section \<open>Definitions\<close>

definition MAINNET_GENESIS_REWARD_SCRIPT :: bytes where
  "MAINNET_GENESIS_REWARD_SCRIPT =
     [0x95, 0x29, 0xa6, 0x35, 0x86, 0x12, 0xb1, 0x93, 0xcc, 0x10, 0x0b, 0x41, 0x50, 0xf4, 0x62, 0x35,
      0x50, 0x5a, 0x94, 0x8c, 0xaa, 0xcf, 0x33, 0x1b, 0x15, 0xa1, 0x71, 0x99, 0x3a, 0xd3, 0x12, 0x4c]"

definition TESTNET_GENESIS_REWARD_SCRIPT :: bytes where
  "TESTNET_GENESIS_REWARD_SCRIPT =
     [0x22, 0xb5, 0x38, 0x2e, 0x49, 0xb9, 0xa2, 0xda, 0xfb, 0x0d, 0x2c, 0x7b, 0x1c, 0x2a, 0xfe, 0x64,
      0x3a, 0x3c, 0x14, 0xa2, 0x3f, 0x7a, 0x90, 0xe4, 0xe5, 0xdc, 0xe0, 0x16, 0x2b, 0x75, 0x46, 0x23]"

definition MAINNET_GENESIS_COINBASE_TXID :: bytes where
  "MAINNET_GENESIS_COINBASE_TXID =
     [0x93, 0xa6, 0x3c, 0xf7, 0x9e, 0xde, 0x43, 0x32, 0xf7, 0xf0, 0xff, 0xb3, 0x42, 0x8f, 0xff, 0x05,
      0xb1, 0x7e, 0x0b, 0x94, 0x4d, 0xbd, 0x0b, 0x03, 0xe3, 0x7f, 0x72, 0xc5, 0xef, 0xb5, 0x2e, 0xf5,
      0xbd, 0x15, 0xbf, 0xea, 0x9c, 0x81, 0x6f, 0xda, 0xef, 0xc7, 0xf1, 0xf8, 0xef, 0xde, 0x14, 0x6d]"

definition TESTNET_GENESIS_COINBASE_TXID :: bytes where
  "TESTNET_GENESIS_COINBASE_TXID =
     [0xa9, 0x89, 0x12, 0x54, 0xd5, 0x2b, 0x0e, 0x84, 0x04, 0x8c, 0x45, 0x41, 0xc5, 0x28, 0x19, 0x44,
      0x58, 0x8c, 0x78, 0x0e, 0x60, 0x8b, 0x2f, 0xac, 0x3f, 0x75, 0xd9, 0x9e, 0x93, 0xd2, 0x1d, 0xb2,
      0x4d, 0x7d, 0xc3, 0xdd, 0xf7, 0x3a, 0x22, 0x48, 0x57, 0x93, 0xd6, 0xbb, 0xf5, 0xc7, 0xb1, 0x4f]"

definition MAINNET_GENESIS_BLOCK_HASH :: bytes where
  "MAINNET_GENESIS_BLOCK_HASH =
     [0x00, 0x00, 0x71, 0x59, 0x7c, 0x30, 0xa1, 0x80, 0x03, 0xdc, 0x29, 0xfd, 0x92, 0x7e, 0xc9, 0x7b,
      0x36, 0x1a, 0x4f, 0xdb, 0x63, 0xa2, 0xbb, 0x2c, 0xd3, 0x6e, 0x9e, 0x97, 0x6f, 0x36, 0x5f, 0x5a,
      0x23, 0x27, 0x3e, 0xd0, 0x57, 0x0f, 0x40, 0x0e, 0x3e, 0xa2, 0x53, 0x1b, 0xb2, 0x5f, 0xed, 0x26]"

definition TESTNET_GENESIS_BLOCK_HASH :: bytes where
  "TESTNET_GENESIS_BLOCK_HASH =
     [0x00, 0x00, 0x0e, 0x52, 0x49, 0x58, 0x48, 0x7f, 0x70, 0xcf, 0xe3, 0x50, 0xa6, 0x50, 0x93, 0xd4,
      0x0e, 0x70, 0xbd, 0x15, 0xe2, 0x61, 0x14, 0x51, 0x99, 0x5c, 0x59, 0xc0, 0xd5, 0xb1, 0x26, 0xe1,
      0xae, 0xa7, 0xf5, 0x1c, 0x4b, 0x09, 0x9e, 0xa2, 0x39, 0x3e, 0x9c, 0xff, 0xf4, 0x5f, 0x9e, 0xb9]"

definition REGNET_GENESIS_BLOCK_HASH :: bytes where
  "REGNET_GENESIS_BLOCK_HASH =
     [0x00, 0x00, 0x92, 0x10, 0xae, 0xf5, 0x3e, 0x3d, 0xf4, 0xd3, 0x79, 0x45, 0xe7, 0xb8, 0xc8, 0xc8,
      0x62, 0xed, 0x5c, 0x29, 0xfc, 0x36, 0xb0, 0xf6, 0x05, 0x94, 0x11, 0x5c, 0xad, 0x46, 0x03, 0xc4,
      0x2c, 0x14, 0x00, 0x82, 0x51, 0x54, 0xb1, 0x5f, 0x21, 0x51, 0x81, 0x57, 0xe5, 0x35, 0x66, 0xe8]"

definition PRUNETEST_GENESIS_BLOCK_HASH :: bytes where
  "PRUNETEST_GENESIS_BLOCK_HASH =
     [0x00, 0x00, 0x76, 0xce, 0x84, 0xde, 0x16, 0x8b, 0x72, 0xcb, 0xcb, 0x30, 0x9a, 0xde, 0x2a, 0x0b,
      0x0e, 0x4d, 0xb5, 0x7a, 0x8d, 0xb8, 0xee, 0x8b, 0x3f, 0xb1, 0xd3, 0x24, 0x34, 0x9a, 0x27, 0xc4,
      0x5f, 0x10, 0x40, 0xde, 0x1b, 0xa5, 0xd3, 0x7d, 0xeb, 0xa7, 0x4d, 0x0a, 0xf4, 0xd0, 0xf7, 0xc0]"

record genesis_parts =
  gp_network :: network
  gp_reward_address :: string
  gp_reward_script :: bytes
  gp_block_version :: u16
  gp_tx_version :: u16
  gp_lock_time :: u32
  gp_timestamp :: u64
  gp_nonce :: u64
  gp_target :: bytes
  expected_coinbase_txid :: bytes
  expected_block_hash :: bytes
  gp_utxo_flag :: string

record genesis_state_record =
  gs_network :: network
  gs_block :: block
  gs_block_hash :: bytes
  gs_coinbase_txid :: bytes
  gs_reward_address :: string
  gs_utxo_flag :: string

text \<open>The arguments of \<open>mainnet()\<close>, \<open>testnet()\<close>, \<open>regnet()\<close> and \<open>prunetest()\<close>.\<close>

fun genesis_parts_for :: "network \<Rightarrow> genesis_parts" where
  "genesis_parts_for Mainnet = \<lparr>gp_network = Mainnet,
     gp_reward_address = ''A62s8JWk8J7NmcvZkK9Sssf7nNZxVEQ7Yy7RFWSPkACNFwB3t7Ty'',
     gp_reward_script = MAINNET_GENESIS_REWARD_SCRIPT, gp_block_version = BLOCK_VERSION_V1,
     gp_tx_version = TRANSACTION_VERSION_V1, gp_lock_time = 0, gp_timestamp = 1773360488,
     gp_nonce = 9135, gp_target = genesis_target DIFFICULTY_PROFILE,
     expected_coinbase_txid = MAINNET_GENESIS_COINBASE_TXID,
     expected_block_hash = MAINNET_GENESIS_BLOCK_HASH, gp_utxo_flag = utxo_flag Mainnet\<rparr>"
| "genesis_parts_for Testnet = \<lparr>gp_network = Testnet,
     gp_reward_address = ''TwTmNYk9t7UX8jZGNUpwC5WWxCdekJHa3ehgpJY8Xznec56mTYY'',
     gp_reward_script = TESTNET_GENESIS_REWARD_SCRIPT, gp_block_version = BLOCK_VERSION_V1,
     gp_tx_version = TRANSACTION_VERSION_V1, gp_lock_time = 0, gp_timestamp = 1773360489,
     gp_nonce = 124947, gp_target = genesis_target DIFFICULTY_PROFILE,
     expected_coinbase_txid = TESTNET_GENESIS_COINBASE_TXID,
     expected_block_hash = TESTNET_GENESIS_BLOCK_HASH, gp_utxo_flag = utxo_flag Testnet\<rparr>"
| "genesis_parts_for Regnet = \<lparr>gp_network = Regnet,
     gp_reward_address = ''RwTmNYk9t7UX8jZGNUpwC5WWxCdekJHa3ehgpJY8Xznec7JEMkX'',
     gp_reward_script = TESTNET_GENESIS_REWARD_SCRIPT, gp_block_version = BLOCK_VERSION_V1,
     gp_tx_version = TRANSACTION_VERSION_V1, gp_lock_time = 0, gp_timestamp = 1773360489,
     gp_nonce = 64646, gp_target = genesis_target DIFFICULTY_PROFILE,
     expected_coinbase_txid = TESTNET_GENESIS_COINBASE_TXID,
     expected_block_hash = REGNET_GENESIS_BLOCK_HASH, gp_utxo_flag = utxo_flag Regnet\<rparr>"
| "genesis_parts_for Prunetest = \<lparr>gp_network = Prunetest,
     gp_reward_address = ''PwTmNYk9t7UX8jZGNUpwC5WWxCdekJHa3ehgpJY8Xznec8BerQp'',
     gp_reward_script = TESTNET_GENESIS_REWARD_SCRIPT, gp_block_version = BLOCK_VERSION_V1,
     gp_tx_version = TRANSACTION_VERSION_V1, gp_lock_time = 0, gp_timestamp = 1773360490,
     gp_nonce = 22299, gp_target = min_difficulty_target DIFFICULTY_PROFILE,
     expected_coinbase_txid = TESTNET_GENESIS_COINBASE_TXID,
     expected_block_hash = PRUNETEST_GENESIS_BLOCK_HASH, gp_utxo_flag = utxo_flag Prunetest\<rparr>"

definition genesis_coinbase :: "genesis_parts \<Rightarrow> transaction" where
  "genesis_coinbase parts = \<lparr>tx_version = gp_tx_version parts, inputs = [],
     outputs = [\<lparr>value_atoms = genesis_coinbase_atoms_for_network (gp_network parts),
                locking_script = gp_reward_script parts\<rparr>],
     lock_time = gp_lock_time parts, witness = [], tx_pow_nonce = 0, tx_pow_bits = 0\<rparr>"

definition genesis_header :: "primitives \<Rightarrow> genesis_parts \<Rightarrow> block_header" where
  "genesis_header P parts = \<lparr>hdr_version = gp_block_version parts, network_id = gp_network parts,
     height = 0, previous_block_hash = replicate 48 0,
     hdr_merkle_root = merkle_root P [genesis_coinbase parts],
     hdr_witness_root = witness_root P [genesis_coinbase parts],
     founders_hash_sha3_384 = FOUNDERS_HASH_SHA3_384, founders_hash_sha3_512 = FOUNDERS_HASH_SHA3_512,
     timestamp = gp_timestamp parts, difficulty_target_or_bits = gp_target parts,
     nonce = gp_nonce parts\<rparr>"

definition genesis_block_from_parts :: "primitives \<Rightarrow> genesis_parts \<Rightarrow> block" where
  "genesis_block_from_parts P parts = \<lparr>header = genesis_header P parts,
     transactions = [genesis_coinbase parts], witnesses = Map.empty,
     fees_total_atoms = 0, fees_miner_atoms = 0\<rparr>"

text \<open>The assertions that do not compare a field with the expression it was just built from.\<close>

definition genesis_assertions :: "primitives \<Rightarrow> genesis_parts \<Rightarrow> bool" where
  "genesis_assertions P parts \<longleftrightarrow>
     txid P (genesis_coinbase parts) = expected_coinbase_txid parts
     \<and> block_hash P (genesis_header P parts) = expected_block_hash parts
     \<and> meets_target (block_hash P (genesis_header P parts)) (gp_target parts)"

definition genesis_state_from_parts :: "primitives \<Rightarrow> genesis_parts \<Rightarrow> genesis_state_record option" where
  "genesis_state_from_parts P parts =
     (if genesis_assertions P parts
      then Some \<lparr>gs_network = gp_network parts, gs_block = genesis_block_from_parts P parts,
        gs_block_hash = block_hash P (genesis_header P parts),
        gs_coinbase_txid = txid P (genesis_coinbase parts),
        gs_reward_address = gp_reward_address parts, gs_utxo_flag = gp_utxo_flag parts\<rparr>
      else None)"

definition genesis_state :: "primitives \<Rightarrow> network \<Rightarrow> genesis_state_record option" where
  "genesis_state P n = genesis_state_from_parts P (genesis_parts_for n)"

text \<open>The accessors return a field of the state that the assertions let through; they are
  defined on the parts of the state, so that they have a value for every choice of the digests.\<close>

definition genesis_block :: "primitives \<Rightarrow> network \<Rightarrow> block" where
  "genesis_block P n = genesis_block_from_parts P (genesis_parts_for n)"

definition genesis_hash :: "primitives \<Rightarrow> network \<Rightarrow> bytes" where
  "genesis_hash P n = block_hash P (genesis_header P (genesis_parts_for n))"

definition genesis_coinbase_txid :: "primitives \<Rightarrow> network \<Rightarrow> bytes" where
  "genesis_coinbase_txid P n = txid P (genesis_coinbase (genesis_parts_for n))"

definition genesis_utxo_value :: "network \<Rightarrow> u64" where
  "genesis_utxo_value n = genesis_coinbase_atoms_for_network n"

text \<open>The nonce search of \<open>regenerate_genesis_profile\<close>; it need not end.\<close>

partial_function (option) regenerate_genesis_header ::
    "primitives \<Rightarrow> bytes \<Rightarrow> block_header \<Rightarrow> block_header option" where
  "regenerate_genesis_header P target h =
     (if meets_target (block_hash P h) target then Some h
      else regenerate_genesis_header P target (h\<lparr>nonce := nonce h + 1\<rparr>))"

subsection \<open>Signature digests\<close>

datatype signature_domain = TransactionDomain | BlockDomain | WalletLocalDomain | PackageDomain | TestDevDomain

fun domain_label :: "signature_domain \<Rightarrow> string" where
  "domain_label TransactionDomain = ''ATHO_TX_SIGN_V1''"
| "domain_label BlockDomain = ''ATHO_BLOCK_SIG_V1''"
| "domain_label WalletLocalDomain = ''ATHO_WALLET_LOCAL_SIG_V1''"
| "domain_label PackageDomain = ''ATHO_PACKAGE_SIG_V1''"
| "domain_label TestDevDomain = ''ATHO_TEST_DEV_SIG_V1''"

definition transaction_signing_digest :: "primitives \<Rightarrow> network \<Rightarrow> transaction \<Rightarrow> bytes" where
  "transaction_signing_digest P network tx =
     sha3_384 P (as_bytes (domain_label TransactionDomain) @ [consensus_id network]
       @ genesis_hash P network @ signing_digest P tx)"

definition transaction_signing_digest_for_input_indexes ::
    "primitives \<Rightarrow> network \<Rightarrow> transaction \<Rightarrow> u32 list \<Rightarrow> bytes" where
  "transaction_signing_digest_for_input_indexes P network tx input_indexes =
     sha3_384 P (as_bytes (domain_label TransactionDomain) @ [consensus_id network]
       @ genesis_hash P network @ signing_digest_for_input_indexes P tx input_indexes)"

section \<open>Lemmas\<close>

lemma genesis_header_ok: "digest_widths P \<Longrightarrow> header_ok (genesis_header P (genesis_parts_for n))"
  by (cases n) (simp_all add: genesis_header_def header_ok_def length_founders_hashes profile_targets
      merkle_root_def witness_root_def layer_root.simps txid_def witness_commitment_hash_def Let_def)

lemma genesis_state_hash:
  "genesis_state P n = Some s \<Longrightarrow> gs_block_hash s = genesis_hash P n
     \<and> gs_block s = genesis_block P n \<and> gs_coinbase_txid s = genesis_coinbase_txid P n"
  by (auto simp: genesis_state_def genesis_state_from_parts_def genesis_hash_def genesis_block_def
      genesis_coinbase_txid_def split: if_splits)

lemma consensus_id_inject: "consensus_id a = consensus_id b \<longleftrightarrow> a = b"
  by (cases a; cases b) simp_all

lemma concat_u32_inject:
  "length xs = length ys \<Longrightarrow> concat (map u32_le xs) = concat (map u32_le ys) \<longleftrightarrow> xs = ys"
proof (induction xs ys rule: list_induct2)
  case (Cons x xs y ys)
  then show ?case by (simp add: int_bytes_inject)
qed simp

lemma base_prefix_decodes:
  assumes "base_ok tx" and "length (tx_base_bytes tx @ suf) < u64_bound"
  shows "read_base (tx_base_bytes tx @ suf) 0 = Some (base_part tx, length (tx_base_bytes tx))"
  using codec.decode_encoded [OF codec_read_base, of "base_part tx" "tx_base_bytes tx @ suf" 0 suf] assms
  by (simp add: base_part_def base_ok_def tx_base_bytes_def write_base_bytes_def)

definition signing_message :: "transaction \<Rightarrow> u32 list \<Rightarrow> bytes" where
  "signing_message tx is = tx_base_bytes tx @ u32_le (len_u32 (length is)) @ concat (map u32_le is)"

lemma signing_digest_message: "signing_digest_for_input_indexes P tx is = sha3_384 P (signing_message tx is)"
  by (simp add: signing_digest_for_input_indexes_def signing_hasher_bytes signing_message_def)

lemma signing_message_inject:
  assumes "base_ok a" and "base_ok b" and "length is < u32_bound" and "length js < u32_bound"
    and "length (signing_message a is) < u64_bound" and "signing_message a is = signing_message b js"
  shows "base_part a = base_part b \<and> is = js"
proof -
  have dec: "read_base (signing_message a is) 0 = Some (base_part a, length (tx_base_bytes a))"
    "read_base (signing_message b js) 0 = Some (base_part b, length (tx_base_bytes b))"
    using base_prefix_decodes [OF assms(1), of "u32_le (len_u32 (length is)) @ concat (map u32_le is)"]
      base_prefix_decodes [OF assms(2), of "u32_le (len_u32 (length js)) @ concat (map u32_le js)"]
      assms(5,6) unfolding signing_message_def [symmetric] by simp_all
  then have part: "base_part a = base_part b" and len: "length (tx_base_bytes a) = length (tx_base_bytes b)"
    using assms(6) by simp_all
  then have rest: "u32_le (len_u32 (length is)) @ concat (map u32_le is) =
      u32_le (len_u32 (length js)) @ concat (map u32_le js)"
    using assms(6) unfolding signing_message_def by simp
  then have "len_u32 (length is) = len_u32 (length js)" by (simp add: int_bytes_inject)
  then have "length is = length js" using assms(3,4) by (metis len_u32_small)
  with rest part show ?thesis by (simp add: concat_u32_inject)
qed

definition signature_preimage :: "primitives \<Rightarrow> network \<Rightarrow> transaction \<Rightarrow> u32 list \<Rightarrow> bytes" where
  "signature_preimage P n tx is = as_bytes (domain_label TransactionDomain) @ [consensus_id n]
     @ genesis_hash P n @ signing_digest_for_input_indexes P tx is"

section \<open>Properties\<close>

text \<open>C18: the digest that a Falcon signature covers commits to the network, to the covered input
  indexes and to the version, inputs, outputs and lock time of the transaction: a signature for
  one network or one transaction is a signature for no other, unless SHA3-384 collides on the
  messages involved.\<close>

theorem signing_digest_commits:
  assumes "digest_widths P" and "base_ok tx" and "base_ok tx'"
    and "length is < u32_bound" and "length is' < u32_bound"
    and "length (signing_message tx is) < u64_bound"
    and "inj_on (sha3_384 P) {signature_preimage P n tx is, signature_preimage P n' tx' is',
      signing_message tx is, signing_message tx' is'}"
    and "transaction_signing_digest_for_input_indexes P n tx is =
      transaction_signing_digest_for_input_indexes P n' tx' is'"
  shows "n = n' \<and> is = is' \<and> tx_version tx = tx_version tx' \<and> inputs tx = inputs tx'
    \<and> outputs tx = outputs tx' \<and> lock_time tx = lock_time tx'"
proof -
  have pre: "signature_preimage P n tx is = signature_preimage P n' tx' is'"
    by (rule inj_onD [OF assms(7)])
      (use assms(8) in \<open>simp_all add: transaction_signing_digest_for_input_indexes_def signature_preimage_def\<close>)
  then have net: "n = n'" by (simp add: signature_preimage_def consensus_id_inject)
  with pre have "sha3_384 P (signing_message tx is) = sha3_384 P (signing_message tx' is')"
    by (simp add: signature_preimage_def signing_digest_message)
  then have "signing_message tx is = signing_message tx' is'"
    by (rule inj_onD [OF assms(7)]) simp_all
  from signing_message_inject [OF assms(2-6) this] net show ?thesis by (simp add: base_part_def)
qed

theorem signing_digest_commits_witness:
  "(let tx' = example_spend\<lparr>witness := [1]\<rparr>
    in transaction_signing_digest_for_input_indexes example_primitives Testnet example_spend [0] =
         transaction_signing_digest_for_input_indexes example_primitives Testnet tx' [0]
       \<and> inputs example_spend = inputs tx')"
proof -
  let ?tx = "example_spend\<lparr>witness := [1]\<rparr>"
  have base: "tx_base_bytes ?tx = tx_base_bytes example_spend"
    by (simp add: tx_base_bytes_def write_base_bytes_def)
  then have msg: "signing_message ?tx is = signing_message example_spend is" for "is"
    by (simp add: signing_message_def)
  have dig: "signature_preimage example_primitives Testnet ?tx [0] =
      signature_preimage example_primitives Testnet example_spend [0]"
    by (simp add: signature_preimage_def signing_digest_message msg)
  have ok: "base_ok ?tx" using example_spend_ok(2) by (simp add: base_ok_def tx_base_size_bytes_def)
  have len: "length (signing_message example_spend [0]) = 93"
    using base_size_is_length [OF example_spend_txids] by (simp add: signing_message_def example_spend_sizes)
  define A where "A = signature_preimage example_primitives Testnet example_spend [0]"
  define B where "B = signing_message example_spend [0]"
  have first: "hd (sha3_384 example_primitives m) = hd m" if "m \<noteq> []" for m
    using that by (cases m) (simp_all add: example_primitives_def)
  have "hd A = 0x41" "A \<noteq> []" by (simp_all add: A_def signature_preimage_def as_bytes_def)
  moreover have "hd B = 1" "B \<noteq> []"
    by (simp_all add: B_def signing_message_def tx_base_bytes_def write_base_bytes_def example_spend_def
        u16_le_def numeral_2_eq_2)
  ultimately have "sha3_384 example_primitives A \<noteq> sha3_384 example_primitives B"
    using first [of A] first [of B] by auto
  then have inj: "inj_on (sha3_384 example_primitives) {A, A, B, B}" by (auto simp: inj_on_def)
  have eq: "transaction_signing_digest_for_input_indexes example_primitives Testnet example_spend [0] =
      transaction_signing_digest_for_input_indexes example_primitives Testnet ?tx [0]"
    using msg by (simp add: transaction_signing_digest_for_input_indexes_def signing_digest_message)
  from signing_digest_commits [OF example_primitives_widths example_spend_ok(2) ok, of "[0]" "[0]" Testnet Testnet]
    inj eq len msg dig
  show ?thesis by (simp add: Let_def A_def B_def)
qed

text \<open>When the start-up assertions of a network hold, its genesis state carries the hard-coded
  block hash and coinbase identifier, that hash meets the committed target, and the genesis
  coinbase pays exactly the first block reward.\<close>

theorem genesis_state_is_the_pinned_one:
  "genesis_state P n = Some s \<longleftrightarrow>
     genesis_hash P n = expected_block_hash (genesis_parts_for n)
     \<and> genesis_coinbase_txid P n = expected_coinbase_txid (genesis_parts_for n)
     \<and> meets_target (genesis_hash P n) (difficulty_target_or_bits (header (genesis_block P n)))
     \<and> s = \<lparr>gs_network = n, gs_block = genesis_block P n, gs_block_hash = genesis_hash P n,
        gs_coinbase_txid = genesis_coinbase_txid P n,
        gs_reward_address = gp_reward_address (genesis_parts_for n), gs_utxo_flag = utxo_flag n\<rparr>"
proof -
  have parts: "gp_network (genesis_parts_for n) = n" "gp_utxo_flag (genesis_parts_for n) = utxo_flag n"
    by (cases n; simp)+
  show ?thesis
    by (auto simp: genesis_state_def genesis_state_from_parts_def genesis_assertions_def genesis_hash_def
        genesis_coinbase_txid_def genesis_block_def genesis_block_from_parts_def parts genesis_header_def)
qed

end
