(* ===== verification/Tx_Policy.thy ===== *)
theory Tx_Policy
  imports Genesis
begin

text \<open>
  Transaction policy and transaction proof of work
  (\<^verbatim>\<open>crates/atho-core/src/consensus/tx_policy.rs\<close>). The start nonce, the number of
  available threads and the reads of the stop flag come from the operating system and are
  arguments. The parallel search is a relation on the shared flags and the workers, one rule per
  atomic access of the code.
\<close>

section \<open>Definitions\<close>

definition TESTNET_TX_POW_BITS :: byte where [simp]: "TESTNET_TX_POW_BITS = 12"

record tx_pow_solve_config =
  auto_threads :: bool
  thread_percent :: byte
  max_threads :: "usize option"
  min_threads :: usize

definition default_solve_config :: tx_pow_solve_config where
  "default_solve_config = \<lparr>auto_threads = True, thread_percent = 75, max_threads = None, min_threads = 1\<rparr>"

definition resolved_thread_count_for_available :: "tx_pow_solve_config \<Rightarrow> usize \<Rightarrow> usize" where
  "resolved_thread_count_for_available config available_threads =
     (let available_threads = max available_threads 1;
          min_threads = min (max (min_threads config) 1) available_threads;
          max_threads = min (max (case max_threads config of Some m \<Rightarrow> m | None \<Rightarrow> available_threads) 1)
            available_threads;
          threads = (if auto_threads config
            then usize_sat_mul available_threads (max 1 (min (unat (thread_percent config)) 100)) div 100
            else max_threads);
          threads = (if threads = 0 then 1 else threads)
      in max (min (max threads min_threads) max_threads) 1)"

definition signer_group_message :: "bytes \<times> bytes \<times> witness_input_ref list \<Rightarrow> bytes" where
  "signer_group_message = (\<lambda>(sig, key, refs).
     u32_le (len_u32 (length sig)) @ sig @ u32_le (len_u32 (length key)) @ key
     @ u32_le (len_u32 (length refs))
     @ concat (map (\<lambda>r. u32_le (input_index r) @ sig_ref_short r) refs))"

definition update_tx_pow_message_hasher :: "bytes \<Rightarrow> transaction \<Rightarrow> bytes" where
  "update_tx_pow_message_hasher hasher tx =
     (let h = update_base_hasher tx hasher
      in if witness tx = [] then h @ u32_le 0
         else case witness_payload tx of
           None \<Rightarrow> h @ u32_le 0
         | Some w \<Rightarrow> foldl (\<lambda>h g. h @ signer_group_message g)
             (h @ u32_le (len_u32 (signer_group_count w))) (signer_groups w))"

definition minimum_required_fee_atoms :: "network \<Rightarrow> transaction \<Rightarrow> u64" where
  "minimum_required_fee_atoms network tx =
     (let vbytes = word_of_nat (max (tx_vsize_bytes tx) 1)
      in max MIN_TX_FEE_ATOMS (sat_mul vbytes MIN_RELAY_FEE_RATE_ATOMS_PER_VBYTE))"

definition minimum_output_amount_atoms :: "network \<Rightarrow> transaction \<Rightarrow> u64" where
  "minimum_output_amount_atoms network tx = DUST_RELAY_VALUE_ATOMS"

definition maximum_standard_outputs :: "network \<Rightarrow> transaction \<Rightarrow> usize" where
  "maximum_standard_outputs network tx = MAX_STANDARD_OUTPUTS"

definition required_tx_pow_bits :: "network \<Rightarrow> transaction \<Rightarrow> u64 \<Rightarrow> byte" where
  "required_tx_pow_bits network tx fee_atoms =
     (if is_coinbase tx then 0
      else if network = Testnet then TESTNET_TX_POW_BITS
      else
        let tx_vbytes = word_of_nat (max (tx_vsize_bytes tx) 1) :: u64;
            fee_rate = fee_atoms div tx_vbytes;
            output_count = length (outputs tx);
            bits = (int (unat TX_POW_MIN_BITS));
            bits = (if tx_vbytes > 500 then bits + 1 else bits);
            bits = (if tx_vbytes > 1000 then bits + 1 else bits);
            bits = (if tx_vbytes > 2000 then bits + 1 else bits);
            bits = (if output_count > 2 then bits + 1 else bits);
            bits = (if output_count > 8 then bits + 1 else bits);
            bits = (if output_count > 32 then bits + 1 else bits);
            bits = (if fee_rate \<ge> 100 then bits - 1
                    else if fee_rate \<ge> 10 then bits
                    else if fee_rate \<ge> 1 then bits + 2
                    else bits + 4);
            bits = (if output_count > 32 \<and> fee_rate \<le> 1 then bits + 2 else bits)
        in word_of_int (max (int (unat TX_POW_MIN_BITS)) (min bits (int (unat TX_POW_MAX_BITS)))))"

definition transaction_pow_preimage :: "primitives \<Rightarrow> network \<Rightarrow> transaction \<Rightarrow> bytes" where
  "transaction_pow_preimage P network tx =
     sha3_256 P (update_tx_pow_message_hasher
       (TX_POW_DOMAIN @ [consensus_id network] @ genesis_hash P network) tx)"

text \<open>The inner loop over the bits of one byte: \<open>Inl\<close> returns from the function.\<close>

fun scan_bits :: "byte \<Rightarrow> nat list \<Rightarrow> byte \<Rightarrow> byte + byte" where
  "scan_bits b [] count = Inr count"
| "scan_bits b (i # is) count =
     (if and b (push_bit i 1) \<noteq> 0 then Inl count else scan_bits b is (sat_add count 1))"

fun leading_zero_bits_from :: "bytes \<Rightarrow> byte \<Rightarrow> byte" where
  "leading_zero_bits_from [] count = count"
| "leading_zero_bits_from (b # bs) count =
     (if b = 0 then leading_zero_bits_from bs (sat_add count 8)
      else case scan_bits b (rev [0..<8]) count of
        Inl result \<Rightarrow> result
      | Inr count \<Rightarrow> leading_zero_bits_from bs count)"

definition leading_zero_bits :: "bytes \<Rightarrow> byte" where
  "leading_zero_bits bs = leading_zero_bits_from bs 0"

definition transaction_pow_hash :: "primitives \<Rightarrow> bytes \<Rightarrow> u64 \<Rightarrow> bytes" where
  "transaction_pow_hash P preimage candidate = sha3_256 P (preimage @ u64_be candidate)"

definition transaction_pow_is_valid_for_bits :: "primitives \<Rightarrow> network \<Rightarrow> transaction \<Rightarrow> byte \<Rightarrow> bool" where
  "transaction_pow_is_valid_for_bits P network tx required_bits \<longleftrightarrow>
     (if required_bits = 0 then True
      else if tx_pow_bits tx \<noteq> required_bits then False
      else leading_zero_bits (transaction_pow_hash P (transaction_pow_preimage P network tx)
             (tx_pow_nonce tx)) \<ge> required_bits)"

definition transaction_pow_is_valid :: "primitives \<Rightarrow> network \<Rightarrow> transaction \<Rightarrow> u64 \<Rightarrow> bool" where
  "transaction_pow_is_valid P network tx fee_atoms \<longleftrightarrow>
     transaction_pow_is_valid_for_bits P network tx (required_tx_pow_bits network tx fee_atoms)"

subsection \<open>The single-threaded solver\<close>

datatype tx_pow_cancelled = TxPowCancelled

text \<open>\<open>stop i\<close> is what the \<open>i\<close>-th read of the stop flag returns. The loop need not end.\<close>

partial_function (option) search_nonce ::
    "primitives \<Rightarrow> (nat \<Rightarrow> bool) \<Rightarrow> bytes \<Rightarrow> byte \<Rightarrow> nat \<Rightarrow> u64 \<Rightarrow> (tx_pow_cancelled + u64) option" where
  "search_nonce P stop preimage required_bits i candidate =
     (if stop i then Some (Inl TxPowCancelled)
      else if leading_zero_bits (transaction_pow_hash P preimage candidate) \<ge> required_bits
      then Some (Inr candidate)
      else search_nonce P stop preimage required_bits (Suc i) (candidate + 1))"

definition solve_transaction_pow_single_thread ::
    "primitives \<Rightarrow> (nat \<Rightarrow> bool) \<Rightarrow> transaction \<Rightarrow> bytes \<Rightarrow> byte \<Rightarrow> u64 \<Rightarrow>
     (transaction \<times> (tx_pow_cancelled + u64)) option" where
  "solve_transaction_pow_single_thread P stop tx preimage required_bits start_nonce =
     map_option (\<lambda>r. case r of
         Inl c \<Rightarrow> (tx\<lparr>tx_pow_nonce := 0\<rparr>, Inl c)
       | Inr n \<Rightarrow> (tx\<lparr>tx_pow_nonce := n\<rparr>, Inr n))
       (search_nonce P stop preimage required_bits 0 start_nonce)"

text \<open>\<open>solve_transaction_pow_with_config_and_cancel\<close> when one worker is resolved.\<close>

definition solve_transaction_pow_one_worker ::
    "primitives \<Rightarrow> (nat \<Rightarrow> bool) \<Rightarrow> network \<Rightarrow> transaction \<Rightarrow> u64 \<Rightarrow> u64 \<Rightarrow>
     (transaction \<times> (tx_pow_cancelled + u64)) option" where
  "solve_transaction_pow_one_worker P stop network tx fee_atoms start_nonce =
     (let required_bits = required_tx_pow_bits network tx fee_atoms;
          tx = tx\<lparr>tx_pow_bits := required_bits, tx_pow_nonce := 0\<rparr>
      in if required_bits = 0 then Some (tx, Inr 0)
         else solve_transaction_pow_single_thread P stop tx (transaction_pow_preimage P network tx)
                required_bits start_nonce)"

subsection \<open>The parallel search\<close>

datatype worker = Running u64 | Won u64 | Finished

record pow_search =
  found :: bool
  solved_nonce :: u64
  stop_requested :: bool
  parallel_abort :: bool
  workers :: "worker list"

text \<open>A worker leaves its loop when it reads one of the flags, tests its candidate, wins or loses
  the compare-and-exchange on \<open>found\<close>, and stores its nonce after a win. Another thread may raise
  the stop flag at any time.\<close>

inductive pow_step :: "(u64 \<Rightarrow> bool) \<Rightarrow> pow_search \<Rightarrow> pow_search \<Rightarrow> bool" for hit where
  leave: "\<lbrakk> i < length (workers s); workers s ! i = Running c;
            found s \<or> stop_requested s \<or> parallel_abort s \<rbrakk>
    \<Longrightarrow> pow_step hit s (s\<lparr>workers := (workers s)[i := Finished]\<rparr>)"
| miss: "\<lbrakk> i < length (workers s); workers s ! i = Running c; \<not> hit c \<rbrakk>
    \<Longrightarrow> pow_step hit s (s\<lparr>workers := (workers s)[i := Running (c + word_of_nat (length (workers s)))]\<rparr>)"
| win: "\<lbrakk> i < length (workers s); workers s ! i = Running c; hit c; \<not> found s \<rbrakk>
    \<Longrightarrow> pow_step hit s (s\<lparr>found := True, workers := (workers s)[i := Won c]\<rparr>)"
| lose: "\<lbrakk> i < length (workers s); workers s ! i = Running c; hit c; found s \<rbrakk>
    \<Longrightarrow> pow_step hit s (s\<lparr>workers := (workers s)[i := Finished]\<rparr>)"
| store: "\<lbrakk> i < length (workers s); workers s ! i = Won c \<rbrakk>
    \<Longrightarrow> pow_step hit s (s\<lparr>solved_nonce := c, workers := (workers s)[i := Finished]\<rparr>)"
| stop: "pow_step hit s (s\<lparr>stop_requested := True\<rparr>)"
| abort: "pow_step hit s (s\<lparr>parallel_abort := True\<rparr>)"

definition pow_search_start :: "u64 \<Rightarrow> nat \<Rightarrow> pow_search" where
  "pow_search_start start_nonce worker_count =
     \<lparr>found = False, solved_nonce = 0, stop_requested = False, parallel_abort = False,
      workers = map (\<lambda>w. Running (start_nonce + word_of_nat w)) [0..<worker_count]\<rparr>"

text \<open>What the caller does with the flags once every worker has joined.\<close>

definition finish_parallel_search ::
    "primitives \<Rightarrow> (nat \<Rightarrow> bool) \<Rightarrow> transaction \<Rightarrow> bytes \<Rightarrow> byte \<Rightarrow> u64 \<Rightarrow> bool \<Rightarrow> pow_search \<Rightarrow>
     (transaction \<times> (tx_pow_cancelled + u64)) option" where
  "finish_parallel_search P stop tx preimage required_bits start_nonce spawn_failed s =
     (if found s then Some (tx\<lparr>tx_pow_nonce := solved_nonce s\<rparr>, Inr (solved_nonce s))
      else if spawn_failed
      then solve_transaction_pow_single_thread P stop tx preimage required_bits start_nonce
      else if stop_requested s then Some (tx\<lparr>tx_pow_nonce := 0\<rparr>, Inl TxPowCancelled)
      else solve_transaction_pow_single_thread P stop tx preimage required_bits start_nonce)"

inductive_cases pow_step_cases: "pow_step hit s t"

section \<open>Leading zeros\<close>


lemma byte_bit_split:
  fixes b :: byte
  assumes "unat b < 2 ^ Suc n" and "n < 8"
  shows "bit b n \<longleftrightarrow> 2 ^ n \<le> unat b"
proof -
  have "unat b div 2 ^ n < 2" using assms(1) by (simp add: div_less_iff_less_mult mult.commute)
  then have "odd (unat b div 2 ^ n) \<longleftrightarrow> unat b div 2 ^ n \<noteq> 0" by (auto simp: less_2_cases_iff)
  moreover have "bit b n \<longleftrightarrow> odd (unat b div 2 ^ n)"
    by (simp add: bit_iff_odd [symmetric] bit_unsigned_iff)
  ultimately show ?thesis by (auto simp: div_eq_0_iff)
qed

lemma scan_bits_zeros:
  assumes "b \<noteq> 0" and "unat b < 2 ^ n" and "n \<le> 8"
  shows "\<exists>z r. scan_bits b (rev [0..<n]) c = Inl r \<and> z < n \<and> unat r = min 255 (unat c + z)
    \<and> 2 ^ (n - 1 - z) \<le> unat b \<and> unat b < 2 ^ (n - z)"
  using assms(2,3)
proof (induction n arbitrary: c)
  case 0
  with assms(1) show ?case by (simp add: unat_eq_0)
next
  case (Suc n)
  show ?case
  proof (cases "bit b n")
    case True
    with Suc.prems byte_bit_split [of b n] show ?thesis
      using byte_unat_bound [of c] by (intro exI [of _ 0] exI [of _ c]) (simp add: and_exp_eq_0_iff_not_bit)
  next
    case False
    with Suc.prems byte_bit_split [of b n] have "unat b < 2 ^ n" by simp
    from Suc.IH [OF this, of "sat_add c 1"] Suc.prems(2) obtain z r where ih:
      "scan_bits b (rev [0..<n]) (sat_add c 1) = Inl r" "z < n"
      "unat r = min 255 (unat (sat_add c 1) + z)" "2 ^ (n - 1 - z) \<le> unat b" "unat b < 2 ^ (n - z)"
      by auto
    then show ?thesis
      using False by (intro exI [of _ "Suc z"] exI [of _ r]) (auto simp: and_exp_eq_0_iff_not_bit unat_sat_add)
  qed
qed

lemma leading_zero_bits_from_value:
  "\<exists>z. unat (leading_zero_bits_from bs c) = min 255 (unat c + z) \<and> z \<le> 8 * length bs
     \<and> be_to_nat bs < 2 ^ (8 * length bs - z)
     \<and> (z < 8 * length bs \<longrightarrow> 2 ^ (8 * length bs - z - 1) \<le> be_to_nat bs)"
proof (induction bs arbitrary: c)
  case Nil
  then show ?case using byte_unat_bound [of c] by simp
next
  case (Cons b bs)
  let ?l = "length bs"
  have pow: "(256::nat) ^ ?l = 2 ^ (8 * ?l)" by (simp add: power_mult)
  show ?case
  proof (cases "b = 0")
    case True
    from Cons.IH [of "sat_add c 8"] obtain z where "unat (leading_zero_bits_from bs (sat_add c 8)) =
        min 255 (unat (sat_add c 8) + z)" "z \<le> 8 * ?l" "be_to_nat bs < 2 ^ (8 * ?l - z)"
      "z < 8 * ?l \<longrightarrow> 2 ^ (8 * ?l - z - 1) \<le> be_to_nat bs" by blast
    then show ?thesis
      using True by (intro exI [of _ "z + 8"]) (auto simp: be_to_nat_Cons unat_sat_add)
  next
    case False
    obtain z r where z: "scan_bits b (rev [0..<8]) c = Inl r" "z < 8" "unat r = min 255 (unat c + z)"
      "2 ^ (8 - 1 - z) \<le> unat b" "unat b < 2 ^ (8 - z)"
      using scan_bits_zeros [OF False, of 8 c] byte_unat_bound [of b] by auto
    have "2 ^ (8 * Suc ?l - z - 1) = 2 ^ (8 - 1 - z) * (256::nat) ^ ?l"
      using z(2) by (simp add: pow flip: power_add)
    also have "\<dots> \<le> unat b * 256 ^ ?l" using z(4) by simp
    finally have lo: "2 ^ (8 * Suc ?l - z - 1) \<le> be_to_nat (b # bs)" by (simp add: be_to_nat_Cons)
    have "be_to_nat (b # bs) < (unat b + 1) * 256 ^ ?l"
      using be_to_nat_bound [of bs] by (simp add: be_to_nat_Cons)
    also have "\<dots> \<le> 2 ^ (8 - z) * 256 ^ ?l" using z(5) by (intro mult_le_mono) auto
    also have "\<dots> = 2 ^ (8 * Suc ?l - z)" using z(2) by (simp add: pow flip: power_add)
    finally have hi: "be_to_nat (b # bs) < 2 ^ (8 * Suc ?l - z)" .
    from z lo hi False show ?thesis by (intro exI [of _ z]) auto
  qed
qed

lemma leading_zero_bits_iff:
  assumes "length h = 32"
  shows "k \<le> leading_zero_bits h \<longleftrightarrow> be_to_nat h < 2 ^ (256 - unat k)"
proof -
  obtain z where z: "unat (leading_zero_bits h) = min 255 z" "z \<le> 256"
    "be_to_nat h < 2 ^ (256 - z)" "z < 256 \<longrightarrow> 2 ^ (256 - z - 1) \<le> be_to_nat h"
    using leading_zero_bits_from_value [of h 0] assms by (auto simp: leading_zero_bits_def)
  have k: "k \<le> leading_zero_bits h \<longleftrightarrow> unat k \<le> z"
    using byte_unat_bound [of k] z(1) by (simp add: word_le_nat_alt)
  show ?thesis
  proof (cases "unat k \<le> z")
    case True
    then have "(2::nat) ^ (256 - z) \<le> 2 ^ (256 - unat k)" by (intro power_increasing) auto
    with z(3) True k show ?thesis by linarith
  next
    case False
    then have "z < 256" using byte_unat_bound [of k] by linarith
    moreover have "(2::nat) ^ (256 - unat k) \<le> 2 ^ (256 - z - 1)"
      using False by (intro power_increasing) auto
    ultimately show ?thesis using z(4) False k by linarith
  qed
qed

section \<open>The solver\<close>

lemma pow_preimage_ignores_pow_fields:
  "transaction_pow_preimage P n (tx\<lparr>tx_pow_nonce := a\<rparr>) = transaction_pow_preimage P n tx"
  "transaction_pow_preimage P n (tx\<lparr>tx_pow_bits := b\<rparr>) = transaction_pow_preimage P n tx"
  by (simp_all add: transaction_pow_preimage_def update_tx_pow_message_hasher_def update_base_hasher_def
      witness_payload_def cong: if_cong)

lemma vsize_ignores_pow_fields:
  "tx_vsize_bytes (tx\<lparr>tx_pow_nonce := a\<rparr>) = tx_vsize_bytes tx"
  "tx_vsize_bytes (tx\<lparr>tx_pow_bits := b\<rparr>) = tx_vsize_bytes tx"
  by (simp_all add: tx_vsize_bytes_def tx_weight_bytes_def tx_base_size_bytes_def tx_full_size_bytes_def)

lemma required_bits_ignore_pow_fields:
  "required_tx_pow_bits n (tx\<lparr>tx_pow_nonce := a\<rparr>) fee = required_tx_pow_bits n tx fee"
  "required_tx_pow_bits n (tx\<lparr>tx_pow_bits := b\<rparr>) fee = required_tx_pow_bits n tx fee"
proof -
  have "inputs (tx\<lparr>tx_pow_nonce := a\<rparr>) = inputs tx" "inputs (tx\<lparr>tx_pow_bits := b\<rparr>) = inputs tx"
    "outputs (tx\<lparr>tx_pow_nonce := a\<rparr>) = outputs tx" "outputs (tx\<lparr>tx_pow_bits := b\<rparr>) = outputs tx"
    by simp_all
  note same = this vsize_ignores_pow_fields
  show "required_tx_pow_bits n (tx\<lparr>tx_pow_nonce := a\<rparr>) fee = required_tx_pow_bits n tx fee"
    "required_tx_pow_bits n (tx\<lparr>tx_pow_bits := b\<rparr>) fee = required_tx_pow_bits n tx fee"
    unfolding required_tx_pow_bits_def is_coinbase_def same by (rule refl)+
qed

lemma search_nonce_sound:
  assumes "search_nonce P stop preimage bits i start = Some (Inr n)"
  shows "bits \<le> leading_zero_bits (transaction_pow_hash P preimage n)"
proof -
  let ?Q = "\<lambda>(((((P, stop), preimage), bits), i), c) r.
      case r of Inl _ \<Rightarrow> True | Inr n \<Rightarrow> bits \<le> leading_zero_bits (transaction_pow_hash P preimage n)"
  have "?Q (((((P, stop :: nat \<Rightarrow> bool), preimage), bits), i :: nat), start :: u64) (Inr n :: tx_pow_cancelled + u64)"
    by (rule search_nonce.raw_induct [OF _ assms]) (auto split: if_splits)
  then show ?thesis by simp
qed

lemma search_nonce_live:
  assumes "\<forall>j. \<not> stop j" and "bits \<le> leading_zero_bits (transaction_pow_hash P preimage (start + word_of_nat d))"
  shows "\<exists>n. search_nonce P stop preimage bits i start = Some (Inr n)"
  using assms(2)
proof (induction d arbitrary: i start)
  case 0
  then show ?case using assms(1) [rule_format, of i] by (subst search_nonce.simps) simp
next
  case (Suc d)
  then have "bits \<le> leading_zero_bits (transaction_pow_hash P preimage ((start + 1) + word_of_nat d))"
    by (simp add: add.assoc)
  from Suc.IH [OF this, of "Suc i"] show ?case
    using assms(1) [rule_format, of i] by (subst search_nonce.simps) simp
qed

lemma solver_result_valid:
  assumes "solve_transaction_pow_one_worker P stop n tx fee start = Some (tx', Inr k)"
  shows "transaction_pow_is_valid P n tx' fee"
proof (cases "required_tx_pow_bits n tx fee = 0")
  case True
  with assms show ?thesis
    by (auto simp: solve_transaction_pow_one_worker_def transaction_pow_is_valid_def
        transaction_pow_is_valid_for_bits_def required_bits_ignore_pow_fields)
next
  case False
  let ?bits = "required_tx_pow_bits n tx fee"
  let ?tx = "tx\<lparr>tx_pow_bits := ?bits, tx_pow_nonce := 0\<rparr>"
  from assms False obtain z where
    z: "search_nonce P stop (transaction_pow_preimage P n ?tx) ?bits 0 start = Some z"
      "(tx', Inr k) = (case z of Inl c \<Rightarrow> (?tx\<lparr>tx_pow_nonce := 0\<rparr>, Inl c)
         | Inr m \<Rightarrow> (?tx\<lparr>tx_pow_nonce := m\<rparr>, Inr m))"
    by (auto simp: solve_transaction_pow_one_worker_def Let_def solve_transaction_pow_single_thread_def)
  then obtain m where s: "search_nonce P stop (transaction_pow_preimage P n ?tx) ?bits 0 start = Some (Inr m)"
    and tx': "tx' = ?tx\<lparr>tx_pow_nonce := m\<rparr>"
    by (cases z) auto
  from search_nonce_sound [OF s] show ?thesis
    by (simp add: tx' transaction_pow_is_valid_def transaction_pow_is_valid_for_bits_def
        required_bits_ignore_pow_fields pow_preimage_ignores_pow_fields)
qed

section \<open>The parallel search\<close>

definition pow_search_ok :: "(u64 \<Rightarrow> bool) \<Rightarrow> pow_search \<Rightarrow> bool" where
  "pow_search_ok hit s \<longleftrightarrow>
     (\<forall>c. Won c \<in> set (workers s) \<longrightarrow> found s \<and> hit c)
     \<and> (found s \<longrightarrow> (\<exists>c. Won c \<in> set (workers s)) \<or> hit (solved_nonce s))"

lemma pow_search_ok_start: "pow_search_ok hit (pow_search_start start n)"
  by (auto simp: pow_search_ok_def pow_search_start_def)

lemma won_update_iff:
  assumes "i < length ws" and "ws ! i = Running r" and "\<And>d. w \<noteq> Won d"
  shows "Won c \<in> set (ws[i := w]) \<longleftrightarrow> Won c \<in> set ws"
proof
  assume "Won c \<in> set (ws[i := w])"
  then show "Won c \<in> set ws" using set_update_subset_insert [of ws i w] assms(3) by auto
next
  assume "Won c \<in> set ws"
  then obtain j where j: "j < length ws" "ws ! j = Won c" by (auto simp: in_set_conv_nth)
  with assms(2) have "i \<noteq> j" by auto
  with j show "Won c \<in> set (ws[i := w])" by (metis length_list_update nth_list_update_neq nth_mem)
qed

lemma pow_step_ok: "pow_step hit s t \<Longrightarrow> pow_search_ok hit s \<Longrightarrow> pow_search_ok hit t"
proof (induction rule: pow_step.induct)
  case (win i s c)
  have "Won d \<in> set ((workers s)[i := Won c]) \<Longrightarrow> d = c \<or> Won d \<in> set (workers s)" for d
    using set_update_subset_insert [of "workers s" i "Won c"] by auto
  moreover have "Won c \<in> set ((workers s)[i := Won c])" using win(1) by (rule set_update_memI)
  ultimately show ?case using win by (auto simp: pow_search_ok_def)
next
  case (store i s c)
  have "Won d \<in> set ((workers s)[i := Finished]) \<Longrightarrow> Won d \<in> set (workers s)" for d
    using set_update_subset_insert [of "workers s" i Finished] by auto
  moreover have "Won c \<in> set (workers s)" using store by (metis nth_mem)
  ultimately show ?case using store by (auto simp: pow_search_ok_def)
qed (auto simp: pow_search_ok_def won_update_iff)

lemma pow_steps_ok: "(pow_step hit)\<^sup>*\<^sup>* s t \<Longrightarrow> pow_search_ok hit s \<Longrightarrow> pow_search_ok hit t"
  by (induction rule: rtranclp_induct) (auto intro: pow_step_ok)

section \<open>Properties\<close>

text \<open>For a 32-byte digest and every requested number of bits, the bit-by-bit count that the
  code compares with the requirement says exactly that the digest, read as a big-endian number,
  is below the corresponding power of two, saturation at 255 included.\<close>

theorem leading_zero_bits_is_numeric_threshold:
  assumes "length h = 32"
  shows "k \<le> leading_zero_bits h \<longleftrightarrow> be_to_nat h < 2 ^ (256 - unat k)"
  by (rule leading_zero_bits_iff [OF assms])

theorem leading_zero_bits_is_numeric_threshold_witness:
  "(12 \<le> leading_zero_bits (replicate 2 0 @ replicate 30 255)) =
     (be_to_nat (replicate 2 0 @ replicate 30 255) < 2 ^ (256 - unat (12 :: byte)))"
  by (rule leading_zero_bits_is_numeric_threshold) simp

text \<open>The required number of bits is zero exactly for a coinbase, twelve on the test network
  and between 16 and 28 elsewhere, whatever the size, the outputs and the fee.\<close>

theorem required_bits_range:
  "(is_coinbase tx \<longleftrightarrow> required_tx_pow_bits n tx fee = 0)
   \<and> (\<not> is_coinbase tx \<and> n = Testnet \<longrightarrow> required_tx_pow_bits n tx fee = 12)
   \<and> (\<not> is_coinbase tx \<and> n \<noteq> Testnet \<longrightarrow>
        16 \<le> required_tx_pow_bits n tx fee \<and> required_tx_pow_bits n tx fee \<le> 28)"
proof -
  have clamp: "16 \<le> (word_of_int (max 16 (min x 28)) :: byte) \<and> (word_of_int (max 16 (min x 28)) :: byte) \<le> 28"
    for x :: int
  proof -
    define m where "m = nat (max 16 (min x 28))"
    have m: "max 16 (min x 28) = int m" "16 \<le> m" "m \<le> 28" by (simp_all add: m_def)
    then have "unat (word_of_int (int m) :: byte) = m" by (simp add: unat_of_nat)
    with m show ?thesis by (simp add: word_le_nat_alt)
  qed
  have shape: "\<exists>x. required_tx_pow_bits n tx fee = word_of_int (max (int (unat TX_POW_MIN_BITS))
      (min x (int (unat TX_POW_MAX_BITS))))" if "\<not> is_coinbase tx" "n \<noteq> Testnet"
    unfolding required_tx_pow_bits_def Let_def if_not_P [OF that(1)] if_not_P [OF that(2)]
    by (rule exI, rule refl)
  show ?thesis
  proof (cases "is_coinbase tx")
    case True
    then show ?thesis by (simp add: required_tx_pow_bits_def)
  next
    case nc: False
    show ?thesis
    proof (cases "n = Testnet")
      case True
      with nc show ?thesis by (simp add: required_tx_pow_bits_def)
    next
      case False
      with shape [OF nc False] clamp have "16 \<le> required_tx_pow_bits n tx fee" "required_tx_pow_bits n tx fee \<le> 28"
        by auto
      moreover from this(1) have "required_tx_pow_bits n tx fee \<noteq> 0" by auto
      ultimately show ?thesis using nc False by simp
    qed
  qed
qed

theorem required_bits_range_witness:
  "required_tx_pow_bits Testnet example_spend 0 = 12 \<and> 16 \<le> required_tx_pow_bits Mainnet example_spend 0"
  using required_bits_range [of example_spend Testnet 0] required_bits_range [of example_spend Mainnet 0]
  by (simp add: is_coinbase_def example_spend_def)



text \<open>C39: in every interleaving of the parallel search, once all workers have finished, a raised
  \<open>found\<close> flag means that the stored nonce satisfies the requirement: the store that follows the
  winning compare-and-exchange is never missed and never replaced by a worker that lost.\<close>

theorem parallel_search_stores_valid_nonce:
  assumes "(pow_step hit)\<^sup>*\<^sup>* (pow_search_start start n) s"
    and "\<forall>w \<in> set (workers s). w = Finished" and "found s"
  shows "hit (solved_nonce s)"
  using pow_steps_ok [OF assms(1) pow_search_ok_start] assms(2,3) by (auto simp: pow_search_ok_def)

theorem parallel_search_stores_valid_nonce_witness:
  "\<exists>s. (pow_step (\<lambda>c. c = 7))\<^sup>*\<^sup>* (pow_search_start 7 1) s \<and> found s \<and> solved_nonce s = 7"
proof -
  let ?s0 = "pow_search_start 7 1"
  let ?s1 = "?s0\<lparr>found := True, workers := (workers ?s0)[0 := Won 7]\<rparr>"
  let ?s2 = "?s1\<lparr>solved_nonce := 7, workers := (workers ?s1)[0 := Finished]\<rparr>"
  have a: "pow_step (\<lambda>c. c = 7) ?s0 ?s1" by (rule pow_step.win) (simp_all add: pow_search_start_def)
  have b: "pow_step (\<lambda>c. c = 7) ?s1 ?s2" by (rule pow_step.store) (simp_all add: pow_search_start_def)
  from a b have steps: "(pow_step (\<lambda>c. c = 7))\<^sup>*\<^sup>* ?s0 ?s2" by (rule rtranclp.rtrancl_into_rtrancl [OF r_into_rtranclp])
  have "solved_nonce ?s2 = 7"
    by (rule parallel_search_stores_valid_nonce [OF steps]) (simp_all add: pow_search_start_def)
  with steps show ?thesis by (intro exI [of _ ?s2]) simp
qed

text \<open>The number of solver threads is at least one and never more than the machine has, for
  every configuration.\<close>

theorem thread_count_bounds:
  "1 \<le> resolved_thread_count_for_available config available
   \<and> resolved_thread_count_for_available config available \<le> max available 1"
  unfolding resolved_thread_count_for_available_def Let_def
  by (intro conjI max.cobounded2 max.boundedI order_trans [OF min.cobounded2 min.cobounded2])

end
