(* ===== verification/Validation.thy ===== *)
theory Validation
  imports Utxo_Store Address Pow Rules Subsidy Tx_Policy
begin

text \<open>
  Transaction and block validation (\<^verbatim>\<open>crates/atho-storage/src/validation.rs\<close>) on top of the
  signature check of \<^verbatim>\<open>crates/atho-crypto/src/falcon.rs\<close>: witness preparation, the checks with
  and without UTXO context, coinbase and block checks, and the overlay in which a block is tried
  before it is applied. An \<open>if\<close> that yields \<open>Inl\<close> is an early return of the code. Lookups are
  functions from an outpoint to an entry; the wall clock is the argument \<open>now\<close>.
\<close>

section \<open>Signatures\<close>

datatype crypto_error = BackendUnavailable | InvalidKeyLength | OperationFailed

definition public_key_len_ok :: "usize \<Rightarrow> bool" where
  "public_key_len_ok len \<longleftrightarrow> len = FALCON_512_PUBLIC_KEY_BYTES"

definition signature_len_ok :: "usize \<Rightarrow> bool" where
  "signature_len_ok len \<longleftrightarrow> len = FALCON_512_SIGNATURE_BYTES"

definition decode_verifying_key :: "primitives \<Rightarrow> bytes \<Rightarrow> crypto_error + bytes" where
  "decode_verifying_key P bs =
     (if \<not> public_key_len_ok (length bs) then Inl InvalidKeyLength
      else if vk_decodes P bs then Inr bs else Inl OperationFailed)"

definition falcon_verify ::
  "primitives \<Rightarrow> signature_domain \<Rightarrow> bytes \<Rightarrow> bytes \<Rightarrow> bytes \<Rightarrow> crypto_error + bool" where
  "falcon_verify P sd public_key message sig =
     (case decode_verifying_key P public_key of
        Inl InvalidKeyLength \<Rightarrow> Inr False
      | Inl OperationFailed \<Rightarrow> Inr False
      | Inl err \<Rightarrow> Inl err
      | Inr key \<Rightarrow>
          if \<not> signature_len_ok (length sig) then Inr False
          else Inr (vk_verify P key sig (as_bytes (domain_label sd)) message))"

section \<open>Witness references\<close>

definition MAX_FUTURE_BLOCK_TIMESTAMP_DRIFT_SECS :: u64 where
  [simp]: "MAX_FUTURE_BLOCK_TIMESTAMP_DRIFT_SECS = 2 * 60 * 60"

record prepared_signer_group =
  prep_signature :: bytes
  prep_pubkey :: bytes
  prep_input_refs :: "witness_input_ref list"

text \<open>\<open>None\<close> stands for the marker \<open>usize::MAX\<close> of the code's vector.\<close>

record prepared_transaction =
  prep_txid :: bytes
  prep_signer_groups :: "prepared_signer_group list"
  prep_group_by_input :: "nat option list"

definition derive_sig_ref_short :: "primitives \<Rightarrow> bytes \<Rightarrow> bytes \<Rightarrow> u32 \<Rightarrow> bytes" where
  "derive_sig_ref_short P t sig i =
     (let digest = sha3_256 P (as_bytes ''ATHO_SIG_REF_SHORT_V1'' @ t @ sig @ u32_be i)
      in [digest ! 0, digest ! 1])"

definition derive_witness_commit_ref :: "primitives \<Rightarrow> bytes \<Rightarrow> bytes \<Rightarrow> u32 \<Rightarrow> bytes" where
  "derive_witness_commit_ref P t block_witness_root i =
     take 16 (sha3_256 P (as_bytes ''ATHO_WITNESS_COMMIT_REF_V1'' @ t @ u32_be i
       @ block_witness_root))"

definition finalize_witness_commit_refs :: "primitives \<Rightarrow> transaction \<Rightarrow> bytes \<Rightarrow> transaction" where
  "finalize_witness_commit_refs P tx block_witness_root =
     (case witness_payload tx of
        None \<Rightarrow> tx
      | Some w \<Rightarrow>
          let t = txid P tx;
              w = for_each_input_ref_mut (\<lambda>r. r\<lparr>witness_commit_ref :=
                    derive_witness_commit_ref P t block_witness_root (input_index r)\<rparr>) w
          in tx\<lparr>witness := witness_canonical_bytes w\<rparr>)"

definition verify_signer_group ::
  "primitives \<Rightarrow> transaction \<Rightarrow> network \<Rightarrow> bytes \<Rightarrow> bytes \<Rightarrow> witness_input_ref list
     \<Rightarrow> validation_error + unit" where
  "verify_signer_group P tx n key sig refs =
     (if length key \<noteq> FALCON_512_PUBLIC_KEY_BYTES then Inl InvalidWitness
      else if length sig \<noteq> FALCON_512_SIGNATURE_BYTES then Inl InvalidWitness
      else
        let input_indexes = map input_index refs;
            digest = (if length input_indexes = length (inputs tx)
                      then transaction_signing_digest P n tx
                      else transaction_signing_digest_for_input_indexes P n tx input_indexes)
        in case falcon_verify P TransactionDomain key digest sig of
             Inl _ \<Rightarrow> Inl InvalidWitness
           | Inr verified \<Rightarrow> if \<not> verified then Inl InvalidWitness else Inr ())"

definition verify_witness_signer_groups ::
  "primitives \<Rightarrow> transaction \<Rightarrow> network \<Rightarrow> tx_witness \<Rightarrow> validation_error + unit" where
  "verify_witness_signer_groups P tx n w =
     rfold (\<lambda>g _. case g of (sig, key, refs) \<Rightarrow> verify_signer_group P tx n key sig refs)
       (signer_groups w) ()"

definition verify_transaction_signature ::
  "primitives \<Rightarrow> transaction \<Rightarrow> network \<Rightarrow> validation_error + unit" where
  "verify_transaction_signature P tx n =
     (if is_coinbase tx then Inl NoInputs
      else rbind (ok_or InvalidWitness (witness_payload tx))
             (verify_witness_signer_groups P tx n))"

definition verify_transaction_signature_prepared ::
  "primitives \<Rightarrow> transaction \<Rightarrow> network \<Rightarrow> prepared_transaction \<Rightarrow> validation_error + unit" where
  "verify_transaction_signature_prepared P tx n prepared =
     rfold (\<lambda>g _. verify_signer_group P tx n (prep_pubkey g) (prep_signature g) (prep_input_refs g))
       (prep_signer_groups prepared) ()"

section \<open>Transaction structure\<close>

definition canonical_payment_lock :: "bytes \<Rightarrow> validation_error + bytes" where
  "canonical_payment_lock script =
     ok_or LegacyLockFormatRejected (payment_digest_from_locking_script script)"

text \<open>The loop over the input references of one signer group: \<open>owner\<close> is
  \<open>signer_group_by_input\<close>, \<open>prev\<close> the previous input index of the group.\<close>

fun claim_inputs ::
  "primitives \<Rightarrow> transaction \<Rightarrow> bytes \<Rightarrow> bytes \<Rightarrow> nat \<Rightarrow> witness_input_ref list \<Rightarrow> u32 option
     \<Rightarrow> nat option list \<Rightarrow> validation_error + nat option list" where
  "claim_inputs P tx t sig g [] prev owner = Inr owner"
| "claim_inputs P tx t sig g (r # rs) prev owner =
     (let i = unat (input_index r)
      in if length (inputs tx) \<le> i then Inl InvalidWitness
         else if (case prev of None \<Rightarrow> False | Some p \<Rightarrow> input_index r \<le> p) then Inl InvalidWitness
         else if owner ! i \<noteq> None then Inl WitnessInputReferenceMismatch
         else if sig_ref_short r \<noteq> derive_sig_ref_short P t sig (input_index r)
         then Inl WitnessInputReferenceMismatch
         else claim_inputs P tx t sig g rs (Some (input_index r)) (owner[i := Some g]))"

text \<open>The loop over the signer groups.\<close>

fun prepare_groups ::
  "primitives \<Rightarrow> transaction \<Rightarrow> bytes \<Rightarrow> nat \<Rightarrow> (bytes \<times> bytes \<times> witness_input_ref list) list
     \<Rightarrow> u32 option \<Rightarrow> nat option list \<Rightarrow> prepared_signer_group list
     \<Rightarrow> validation_error + (nat option list \<times> prepared_signer_group list)" where
  "prepare_groups P tx t g [] prev owner acc = Inr (owner, acc)"
| "prepare_groups P tx t g ((sig, key, refs) # gs) prev owner acc =
     (if sig = [] \<or> key = [] \<or> refs = [] then Inl InvalidWitness
      else
        let first = input_index (hd refs)
        in if (case prev of None \<Rightarrow> False | Some p \<Rightarrow> first \<le> p) then Inl InvalidWitness
           else rbind (claim_inputs P tx t sig g refs None owner)
                  (\<lambda>owner. prepare_groups P tx t (g + 1) gs (Some first) owner
                     (acc @ [\<lparr>prep_signature = sig, prep_pubkey = key, prep_input_refs = refs\<rparr>])))"

definition prepare_transaction_validation ::
  "primitives \<Rightarrow> transaction \<Rightarrow> u64 \<Rightarrow> network \<Rightarrow> u64 \<Rightarrow> scheduled_activation list
     \<Rightarrow> validation_error + prepared_transaction" where
  "prepare_transaction_validation P tx fee_atoms n h schedule =
     (if is_coinbase tx then Inl NoInputs
      else if \<not> is_supported_transaction_version_with_schedule (tx_version tx) h schedule
      then Inl InvalidTransactionVersion
      else if outputs tx = [] then Inl NoOutputs
      else if maximum_standard_outputs n tx < length (outputs tx) then Inl TooManyOutputs
      else if MAX_TRANSACTION_RAW_BYTES < tx_full_size_bytes tx
        \<or> MAX_TRANSACTION_VBYTES < tx_vsize_bytes tx then Inl TransactionTooLarge
      else if list_ex (\<lambda>out. value_atoms out = 0) (outputs tx) then Inl ZeroValueOutput
      else if \<not> all_fresh (map (\<lambda>i. (previous_txid i, output_index i)) (inputs tx)) {}
      then Inl DuplicateInput
      else if fee_atoms < minimum_required_fee_atoms n tx then Inl FeeBelowMinimum
      else if list_ex (\<lambda>out. value_atoms out < minimum_output_amount_atoms n tx) (outputs tx)
      then Inl DustOutput
      else
        rbind (rfold (\<lambda>out _. map_sum id (\<lambda>_. ()) (canonical_payment_lock (locking_script out)))
                 (outputs tx) ())
          (\<lambda>_. rbind (ok_or InvalidWitness (witness_payload tx))
          (\<lambda>w. if signer_group_count w = 0 then Inl InvalidWitness
                else if total_input_refs w \<noteq> length (inputs tx) then Inl InvalidWitness
                else
                  rbind (prepare_groups P tx (txid P tx) 0 (signer_groups w) None
                           (replicate (length (inputs tx)) None) [])
                    (\<lambda>(owner, groups).
                       if None \<in> set owner then Inl WitnessInputReferenceMismatch
                       else Inr \<lparr>prep_txid = txid P tx, prep_signer_groups = groups,
                                 prep_group_by_input = owner\<rparr>))))"

definition transaction_contains_dust_outputs :: "transaction \<Rightarrow> bool" where
  "transaction_contains_dust_outputs tx =
     list_ex (\<lambda>out. 0 < value_atoms out \<and> value_atoms out < DUST_RELAY_VALUE_ATOMS) (outputs tx)"

definition validate_transaction_standard_policy ::
  "transaction \<Rightarrow> network \<Rightarrow> validation_error + unit" where
  "validate_transaction_standard_policy tx n =
     (if MAX_STANDARD_INPUTS < length (inputs tx) then Inl TransactionTooLarge
      else if list_ex (\<lambda>out. 0 < value_atoms out \<and> value_atoms out < minimum_output_amount_atoms n tx)
                (outputs tx) then Inl DustOutput
      else Inr ())"

definition validate_transaction_structure_for_height_with_schedule ::
  "primitives \<Rightarrow> transaction \<Rightarrow> u64 \<Rightarrow> network \<Rightarrow> u64 \<Rightarrow> scheduled_activation list
     \<Rightarrow> validation_error + unit" where
  "validate_transaction_structure_for_height_with_schedule P tx fee_atoms n h schedule =
     rbind (prepare_transaction_validation P tx fee_atoms n h schedule) (\<lambda>_. Inr ())"

text \<open>The check of the transaction's own proof of work, which the code repeats after each way
  of fixing the fee.\<close>

definition check_tx_pow :: "primitives \<Rightarrow> network \<Rightarrow> transaction \<Rightarrow> u64 \<Rightarrow> validation_error + unit" where
  "check_tx_pow P n tx fee =
     (let required_bits = required_tx_pow_bits n tx fee
      in if tx_pow_bits tx \<noteq> required_bits then Inl WrongTransactionPowBits
         else if \<not> transaction_pow_is_valid_for_bits P n tx required_bits
         then Inl InvalidTransactionPowNonce
         else Inr ())"

definition validate_transaction_for_height_with_schedule ::
  "primitives \<Rightarrow> transaction \<Rightarrow> u64 \<Rightarrow> network \<Rightarrow> u64 \<Rightarrow> scheduled_activation list
     \<Rightarrow> validation_error + unit" where
  "validate_transaction_for_height_with_schedule P tx fee_atoms n h schedule =
     rbind (prepare_transaction_validation P tx fee_atoms n h schedule)
       (\<lambda>prepared. rbind (check_tx_pow P n tx fee_atoms)
       (\<lambda>_. verify_transaction_signature_prepared P tx n prepared))"

definition validate_transaction_for_height ::
  "primitives \<Rightarrow> transaction \<Rightarrow> u64 \<Rightarrow> network \<Rightarrow> u64 \<Rightarrow> validation_error + unit" where
  "validate_transaction_for_height P tx fee_atoms n h =
     validate_transaction_for_height_with_schedule P tx fee_atoms n h SCHEDULED_ACTIVATIONS"

definition validate_transaction ::
  "primitives \<Rightarrow> transaction \<Rightarrow> u64 \<Rightarrow> network \<Rightarrow> validation_error + unit" where
  "validate_transaction P tx fee_atoms n = validate_transaction_for_height P tx fee_atoms n 0"

section \<open>Transactions in UTXO context\<close>

type_synonym lookup = "bytes \<Rightarrow> u32 \<Rightarrow> utxo_entry option"

text \<open>The checks of one input. The two index expressions of the code are in range for every
  prepared transaction (\<open>prepared_owner_in_range\<close> below).\<close>

definition check_input ::
  "primitives \<Rightarrow> prepared_transaction \<Rightarrow> network \<Rightarrow> u64 \<Rightarrow> lookup \<Rightarrow> nat \<times> tx_input \<Rightarrow> u64
     \<Rightarrow> validation_error + u64" where
  "check_input P prepared n spend_height look = (\<lambda>(index, inp) input_total.
     rbind (ok_or MissingUtxoInput (look (previous_txid inp) (output_index inp)))
       (\<lambda>utxo. rbind (canonical_payment_lock (utxo_locking_script utxo))
       (\<lambda>expected_lock. rbind (canonical_payment_lock (unlocking_script inp))
       (\<lambda>_. if utxo_locking_script utxo \<noteq> unlocking_script inp then Inl InputOwnershipMismatch
             else if utxo_network utxo \<noteq> n then Inl InputOwnershipMismatch
             else
               let signer_pubkey = prep_pubkey (prep_signer_groups prepared !
                     the (prep_group_by_input prepared ! index))
               in if public_key_digest P (utxo_network utxo) signer_pubkey \<noteq> expected_lock
                  then Inl InputOwnershipMismatch
                  else if \<not> is_spendable_at utxo spend_height then Inl InsufficientConfirmations
                  else ok_or FeeMismatch (checked_add input_total (utxo_value_atoms utxo))))))"

definition validate_transaction_with_context_common_and_schedule ::
  "primitives \<Rightarrow> transaction \<Rightarrow> prepared_transaction \<Rightarrow> network \<Rightarrow> u64 \<Rightarrow> lookup
     \<Rightarrow> scheduled_activation list \<Rightarrow> validation_error + u64" where
  "validate_transaction_with_context_common_and_schedule P tx prepared n spend_height look schedule =
     rbind (rfold (check_input P prepared n spend_height look) (enumerate 0 (inputs tx)) 0)
       (\<lambda>input_total. rbind (ok_or FeeMismatch (checked_output_value_atoms tx))
       (\<lambda>output_total. ok_or FeeMismatch (checked_sub input_total output_total)))"

definition validate_transaction_with_context_exact_fee_prepared_and_schedule ::
  "primitives \<Rightarrow> transaction \<Rightarrow> prepared_transaction \<Rightarrow> u64 \<Rightarrow> network \<Rightarrow> u64 \<Rightarrow> lookup
     \<Rightarrow> scheduled_activation list \<Rightarrow> validation_error + u64" where
  "validate_transaction_with_context_exact_fee_prepared_and_schedule P tx prepared fee_atoms n
       spend_height look schedule =
     rbind (validate_transaction_with_context_common_and_schedule P tx prepared n spend_height look
              schedule)
       (\<lambda>actual_fee. if actual_fee \<noteq> fee_atoms then Inl FeeMismatch
                      else rbind (check_tx_pow P n tx actual_fee) (\<lambda>_. Inr actual_fee))"

definition validate_transaction_with_context_minimum_fee_prepared_and_schedule ::
  "primitives \<Rightarrow> transaction \<Rightarrow> prepared_transaction \<Rightarrow> u64 \<Rightarrow> network \<Rightarrow> u64 \<Rightarrow> lookup
     \<Rightarrow> scheduled_activation list \<Rightarrow> validation_error + u64" where
  "validate_transaction_with_context_minimum_fee_prepared_and_schedule P tx prepared
       minimum_fee_atoms n spend_height look schedule =
     rbind (validate_transaction_with_context_common_and_schedule P tx prepared n spend_height look
              schedule)
       (\<lambda>actual_fee. if actual_fee < minimum_fee_atoms then Inl FeeBelowMinimum
                      else rbind (check_tx_pow P n tx actual_fee) (\<lambda>_. Inr actual_fee))"

definition validate_transaction_with_context_structure_and_schedule ::
  "primitives \<Rightarrow> transaction \<Rightarrow> u64 \<Rightarrow> network \<Rightarrow> u64 \<Rightarrow> lookup \<Rightarrow> scheduled_activation list
     \<Rightarrow> validation_error + u64" where
  "validate_transaction_with_context_structure_and_schedule P tx fee_atoms n spend_height look
       schedule =
     rbind (prepare_transaction_validation P tx fee_atoms n spend_height schedule)
       (\<lambda>prepared. validate_transaction_with_context_exact_fee_prepared_and_schedule P tx prepared
          fee_atoms n spend_height look schedule)"

definition validate_transaction_with_context_minimum_fee_and_schedule ::
  "primitives \<Rightarrow> transaction \<Rightarrow> u64 \<Rightarrow> network \<Rightarrow> u64 \<Rightarrow> lookup \<Rightarrow> scheduled_activation list
     \<Rightarrow> validation_error + u64" where
  "validate_transaction_with_context_minimum_fee_and_schedule P tx minimum_fee_atoms n spend_height
       look schedule =
     rbind (prepare_transaction_validation P tx minimum_fee_atoms n spend_height schedule)
       (\<lambda>prepared. validate_transaction_with_context_minimum_fee_prepared_and_schedule P tx prepared
          minimum_fee_atoms n spend_height look schedule)"

definition validate_transaction_with_context_and_schedule ::
  "primitives \<Rightarrow> transaction \<Rightarrow> u64 \<Rightarrow> network \<Rightarrow> u64 \<Rightarrow> lookup \<Rightarrow> scheduled_activation list
     \<Rightarrow> validation_error + u64" where
  "validate_transaction_with_context_and_schedule P tx fee_atoms n spend_height look schedule =
     rbind (prepare_transaction_validation P tx fee_atoms n spend_height schedule)
       (\<lambda>prepared. rbind (validate_transaction_with_context_exact_fee_prepared_and_schedule P tx
                 prepared fee_atoms n spend_height look schedule)
       (\<lambda>actual_fee. rbind (verify_transaction_signature_prepared P tx n prepared)
       (\<lambda>_. Inr actual_fee)))"

definition validate_transaction_with_context ::
  "primitives \<Rightarrow> transaction \<Rightarrow> u64 \<Rightarrow> network \<Rightarrow> u64 \<Rightarrow> lookup \<Rightarrow> validation_error + u64" where
  "validate_transaction_with_context P tx fee_atoms n spend_height look =
     validate_transaction_with_context_and_schedule P tx fee_atoms n spend_height look
       SCHEDULED_ACTIVATIONS"

definition validate_transaction_with_context_for_mempool ::
  "primitives \<Rightarrow> transaction \<Rightarrow> u64 \<Rightarrow> network \<Rightarrow> u64 \<Rightarrow> lookup \<Rightarrow> validation_error + u64" where
  "validate_transaction_with_context_for_mempool P tx fee_atoms n spend_height look =
     rbind (validate_transaction_standard_policy tx n)
       (\<lambda>_. validate_transaction_with_context P tx fee_atoms n spend_height look)"

section \<open>Coinbase transactions\<close>

definition validate_coinbase_transaction_shape_with_schedule ::
  "transaction \<Rightarrow> u64 \<Rightarrow> scheduled_activation list \<Rightarrow> validation_error + unit" where
  "validate_coinbase_transaction_shape_with_schedule tx h schedule =
     (if \<not> is_coinbase tx then Inl InvalidCoinbase
      else if \<not> is_supported_transaction_version_with_schedule (tx_version tx) h schedule
      then Inl InvalidTransactionVersion
      else if length (outputs tx) \<noteq> 1 then Inl InvalidCoinbase
      else rbind (canonical_payment_lock (locking_script (outputs tx ! 0)))
             (\<lambda>_. if witness tx \<noteq> [] \<or> tx_pow_nonce tx \<noteq> 0 \<or> tx_pow_bits tx \<noteq> 0
                   then Inl InvalidCoinbase else Inr ()))"

definition validate_coinbase_transaction_with_schedule ::
  "transaction \<Rightarrow> u64 \<Rightarrow> u64 \<Rightarrow> scheduled_activation list \<Rightarrow> validation_error + unit" where
  "validate_coinbase_transaction_with_schedule tx expected_reward_atoms h schedule =
     rbind (validate_coinbase_transaction_shape_with_schedule tx h schedule)
       (\<lambda>_. rbind (ok_or CoinbaseRewardMismatch (checked_output_value_atoms tx))
       (\<lambda>output_total. if output_total \<noteq> expected_reward_atoms then Inl CoinbaseRewardMismatch
                        else Inr ()))"

definition validate_coinbase_transaction ::
  "transaction \<Rightarrow> u64 \<Rightarrow> u64 \<Rightarrow> validation_error + unit" where
  "validate_coinbase_transaction tx expected_reward_atoms h =
     validate_coinbase_transaction_with_schedule tx expected_reward_atoms h SCHEDULED_ACTIVATIONS"

section \<open>Blocks without context\<close>

definition validate_block_size_metrics :: "block \<Rightarrow> validation_error + unit" where
  "validate_block_size_metrics b =
     (let m = size_metrics b
      in if MAX_BLOCK_RAW_BYTES < raw_size_bytes m \<or> MAX_BLOCK_VBYTES < vsize_bytes m
           \<or> MAX_BLOCK_WEIGHT < weight_bytes m
         then Inl BlockTooLarge else Inr ())"

definition validate_block_common_header_with_schedule ::
  "block \<Rightarrow> u64 \<Rightarrow> network \<Rightarrow> scheduled_activation list \<Rightarrow> validation_error + unit" where
  "validate_block_common_header_with_schedule b h n schedule =
     (if transactions b = [] then Inl EmptyBlock
      else if \<not> is_supported_block_version_with_schedule (hdr_version (header b)) h schedule
      then Inl InvalidBlockVersion
      else if network_id (header b) \<noteq> n then Inl BlockNetworkMismatch
      else if height (header b) \<noteq> h then Inl InvalidBlockHeight
      else if timestamp (header b) = 0 then Inl InvalidBlockTimestamp
      else Inr ())"

definition validate_block_static_header_precheck_with_schedule ::
  "block \<Rightarrow> u64 \<Rightarrow> network \<Rightarrow> scheduled_activation list \<Rightarrow> validation_error + unit" where
  "validate_block_static_header_precheck_with_schedule b h n schedule =
     rbind (validate_block_common_header_with_schedule b h n schedule)
       (\<lambda>_. rbind (validate_block_size_metrics b)
       (\<lambda>_. if \<not> target_within_bounds (difficulty_target_or_bits (header b))
             then Inl BlockTargetOutOfBounds else Inr ()))"

definition validate_block_body_commitments :: "primitives \<Rightarrow> block \<Rightarrow> validation_error + unit" where
  "validate_block_body_commitments P b =
     (if merkle_root P (transactions b) \<noteq> hdr_merkle_root (header b) then Inl BlockMerkleRootMismatch
      else if witness_root P (transactions b) \<noteq> hdr_witness_root (header b)
      then Inl BlockWitnessRootMismatch
      else Inr ())"

definition validate_block_header_shape_with_schedule ::
  "primitives \<Rightarrow> block \<Rightarrow> u64 \<Rightarrow> network \<Rightarrow> scheduled_activation list \<Rightarrow> validation_error + unit" where
  "validate_block_header_shape_with_schedule P b h n schedule =
     rbind (validate_block_static_header_precheck_with_schedule b h n schedule)
       (\<lambda>_. validate_block_body_commitments P b)"

definition txids_are_unique :: "primitives \<Rightarrow> transaction list \<Rightarrow> bool" where
  "txids_are_unique P txs = all_fresh (map (txid P) txs) {}"

definition block_inputs_are_unique :: "transaction list \<Rightarrow> bool" where
  "block_inputs_are_unique txs =
     all_fresh (map (\<lambda>i. (previous_txid i, output_index i)) (concat (map inputs txs))) {}"

fun prepare_transactions ::
  "primitives \<Rightarrow> network \<Rightarrow> u64 \<Rightarrow> scheduled_activation list \<Rightarrow> transaction list
     \<Rightarrow> validation_error + prepared_transaction list" where
  "prepare_transactions P n h schedule [] = Inr []"
| "prepare_transactions P n h schedule (tx # txs) =
     rbind (prepare_transaction_validation P tx (minimum_required_fee_atoms n tx) n h schedule)
       (\<lambda>p. rbind (prepare_transactions P n h schedule txs) (\<lambda>ps. Inr (p # ps)))"

definition collect_prepared_block_transactions_with_schedule ::
  "primitives \<Rightarrow> block \<Rightarrow> u64 \<Rightarrow> network \<Rightarrow> scheduled_activation list
     \<Rightarrow> validation_error + prepared_transaction list" where
  "collect_prepared_block_transactions_with_schedule P b h n schedule =
     rbind (validate_coinbase_transaction_shape_with_schedule (transactions b ! 0) h schedule)
       (\<lambda>_. if \<not> txids_are_unique P (transactions b) then Inl DuplicateTransactionId
             else if \<not> block_inputs_are_unique (transactions b) then Inl MempoolConflict
             else prepare_transactions P n h schedule (drop 1 (transactions b)))"

text \<open>The signatures are verified in parallel; the results are then inspected in order.\<close>

definition verify_transaction_signatures_parallel_prepared ::
  "primitives \<Rightarrow> network \<Rightarrow> transaction list \<Rightarrow> prepared_transaction list
     \<Rightarrow> validation_error + unit" where
  "verify_transaction_signatures_parallel_prepared P n txs prepared =
     (let results = map (\<lambda>(tx, p). verify_transaction_signature_prepared P tx n p) (zip txs prepared)
      in rfold (\<lambda>r _. r) results ())"

definition validate_block_impl_with_schedule ::
  "primitives \<Rightarrow> block \<Rightarrow> u64 \<Rightarrow> network \<Rightarrow> bool \<Rightarrow> scheduled_activation list
     \<Rightarrow> validation_error + unit" where
  "validate_block_impl_with_schedule P b h n skip_pow schedule =
     rbind (validate_block_header_shape_with_schedule P b h n schedule)
       (\<lambda>_. if \<not> skip_pow
               \<and> \<not> meets_target (block_hash P (header b)) (difficulty_target_or_bits (header b))
             then Inl ProofOfWorkInvalid
             else rbind (collect_prepared_block_transactions_with_schedule P b h n schedule)
               (\<lambda>prepared. verify_transaction_signatures_parallel_prepared P n
                  (drop 1 (transactions b)) prepared))"

definition validate_block_impl ::
  "primitives \<Rightarrow> block \<Rightarrow> u64 \<Rightarrow> network \<Rightarrow> bool \<Rightarrow> validation_error + unit" where
  "validate_block_impl P b h n skip_pow =
     validate_block_impl_with_schedule P b h n skip_pow SCHEDULED_ACTIVATIONS"

definition validate_block :: "primitives \<Rightarrow> block \<Rightarrow> u64 \<Rightarrow> network \<Rightarrow> validation_error + unit" where
  "validate_block P b h n = validate_block_impl P b h n False"

definition validate_block_without_pow ::
  "primitives \<Rightarrow> block \<Rightarrow> u64 \<Rightarrow> network \<Rightarrow> validation_error + unit" where
  "validate_block_without_pow P b h n = validate_block_impl P b h n True"

section \<open>The overlay\<close>

record utxo_overlay =
  ov_base :: utxo_set
  ov_added :: "utxo_key \<rightharpoonup> utxo_entry"
  ov_removed :: "utxo_key set"

definition overlay_new :: "utxo_set \<Rightarrow> utxo_overlay" where
  "overlay_new base = \<lparr>ov_base = base, ov_added = Map.empty, ov_removed = {}\<rparr>"

definition overlay_get :: "utxo_overlay \<Rightarrow> bytes \<Rightarrow> u32 \<Rightarrow> utxo_entry option" where
  "overlay_get ov t i =
     (case ov_added ov (t, i) of
        Some e \<Rightarrow> Some e
      | None \<Rightarrow> if (t, i) \<in> ov_removed ov then None else utxo_get (ov_base ov) t i)"

definition overlay_remove ::
  "utxo_overlay \<Rightarrow> bytes \<Rightarrow> u32 \<Rightarrow> utxo_overlay \<times> (validation_error + utxo_entry)" where
  "overlay_remove ov t i =
     (case ov_added ov (t, i) of
        Some e \<Rightarrow> (ov\<lparr>ov_added := (ov_added ov)((t, i) := None)\<rparr>, Inr e)
      | None \<Rightarrow>
          if (t, i) \<in> ov_removed ov then (ov, Inl MissingUtxoInput)
          else case utxo_get (ov_base ov) t i of
            None \<Rightarrow> (ov, Inl MissingUtxoInput)
          | Some e \<Rightarrow> (ov\<lparr>ov_removed := insert (t, i) (ov_removed ov)\<rparr>, Inr e))"

definition overlay_insert ::
  "utxo_overlay \<Rightarrow> utxo_entry \<Rightarrow> utxo_overlay \<times> (validation_error + unit)" where
  "overlay_insert ov e =
     (if ov_added ov (entry_key e) \<noteq> None
         \<or> (entry_key e \<notin> ov_removed ov
             \<and> utxo_get (ov_base ov) (utxo_txid e) (utxo_output_index e) \<noteq> None)
      then (ov, Inl MempoolConflict)
      else (ov\<lparr>ov_added := (ov_added ov)(entry_key e \<mapsto> e)\<rparr>, Inr ()))"

section \<open>Blocks in context\<close>

record block_validation_context =
  ctx_height :: u64
  ctx_network :: network
  ctx_expected_previous_hash :: bytes
  ctx_expected_target :: bytes
  ctx_previous_blocks :: "block list"
  ctx_utxos :: utxo_set

definition validate_contextual_header_precheck ::
  "primitives \<Rightarrow> u64 \<Rightarrow> block \<Rightarrow> bytes \<Rightarrow> bytes \<Rightarrow> block list \<Rightarrow> validation_error + unit" where
  "validate_contextual_header_precheck P now b expected_previous_hash expected_target previous_blocks =
     (if previous_block_hash (header b) \<noteq> expected_previous_hash then Inl BlockParentHashMismatch
      else if (case minimum_next_block_timestamp previous_blocks of
                 None \<Rightarrow> False
               | Some minimum_timestamp \<Rightarrow> timestamp (header b) < minimum_timestamp)
      then Inl InvalidBlockTimestamp
      else if sat_add now MAX_FUTURE_BLOCK_TIMESTAMP_DRIFT_SECS < timestamp (header b)
      then Inl InvalidBlockTimestamp
      else if difficulty_target_or_bits (header b) \<noteq> expected_target then Inl BlockTargetOutOfBounds
      else if \<not> meets_target (block_hash P (header b)) expected_target then Inl ProofOfWorkInvalid
      else Inr ())"

text \<open>The body of the loop over the transactions after the coinbase, loop by loop.\<close>

fun overlay_spend ::
  "tx_input list \<Rightarrow> utxo_key set \<times> utxo_overlay \<Rightarrow> validation_error + (utxo_key set \<times> utxo_overlay)" where
  "overlay_spend [] st = Inr st"
| "overlay_spend (i # is) (seen, ov) =
     (if (previous_txid i, output_index i) \<in> seen then Inl MempoolConflict
      else case overlay_remove ov (previous_txid i) (output_index i) of
        (_, Inl err) \<Rightarrow> Inl err
      | (ov, Inr _) \<Rightarrow> overlay_spend is (insert (previous_txid i, output_index i) seen, ov))"

definition check_commit_refs ::
  "primitives \<Rightarrow> bytes \<Rightarrow> bytes \<Rightarrow> prepared_transaction \<Rightarrow> validation_error + unit" where
  "check_commit_refs P t block_witness_root prepared =
     rfold (\<lambda>r _. if witness_commit_ref r
                      \<noteq> derive_witness_commit_ref P t block_witness_root (input_index r)
                  then Inl WitnessInputReferenceMismatch else Inr ())
       (concat (map prep_input_refs (prep_signer_groups prepared))) ()"

fun overlay_create :: "utxo_entry list \<Rightarrow> utxo_overlay \<Rightarrow> validation_error + utxo_overlay" where
  "overlay_create [] ov = Inr ov"
| "overlay_create (e # es) ov =
     (case overlay_insert ov e of
        (_, Inl err) \<Rightarrow> Inl err
      | (ov, Inr _) \<Rightarrow> overlay_create es ov)"

definition validate_block_transaction ::
  "primitives \<Rightarrow> network \<Rightarrow> u64 \<Rightarrow> bytes \<Rightarrow> scheduled_activation list
     \<Rightarrow> transaction \<times> prepared_transaction \<Rightarrow> utxo_key set \<times> utxo_overlay \<times> u64
     \<Rightarrow> validation_error + (utxo_key set \<times> utxo_overlay \<times> u64)" where
  "validate_block_transaction P n h block_witness_root schedule =
     (\<lambda>(tx, prepared) (seen, ov, sum_fees).
        rbind (validate_transaction_with_context_minimum_fee_prepared_and_schedule P tx prepared
                 (minimum_required_fee_atoms n tx) n h (overlay_get ov) schedule)
          (\<lambda>fee. rbind (overlay_spend (inputs tx) (seen, ov))
          (\<lambda>(seen, ov). rbind (check_commit_refs P (prep_txid prepared) block_witness_root prepared)
          (\<lambda>_. rbind (ok_or FeeMismatch (checked_add sum_fees fee))
          (\<lambda>sum_fees. rbind (overlay_create
             (map (\<lambda>(i, out). utxo_entry_new n (prep_txid prepared) (of_nat i) (value_atoms out)
                                 (locking_script out) h False)
               (enumerate 0 (outputs tx))) ov)
          (\<lambda>ov. Inr (seen, ov, sum_fees)))))))"

definition validate_block_with_context_and_schedule ::
  "primitives \<Rightarrow> u64 \<Rightarrow> block \<Rightarrow> block_validation_context \<Rightarrow> scheduled_activation list
     \<Rightarrow> validation_error + unit" where
  "validate_block_with_context_and_schedule P now b ctx schedule =
     (let h = ctx_height ctx; n = ctx_network ctx
      in rbind (validate_block_static_header_precheck_with_schedule b h n schedule)
           (\<lambda>_. rbind (validate_contextual_header_precheck P now b (ctx_expected_previous_hash ctx)
                         (ctx_expected_target ctx) (ctx_previous_blocks ctx))
           (\<lambda>_. rbind (validate_block_body_commitments P b)
           (\<lambda>_. rbind (collect_prepared_block_transactions_with_schedule P b h n schedule)
           (\<lambda>prepared. rbind (rfold (validate_block_transaction P n h
                                        (hdr_witness_root (header b)) schedule)
                                 (zip (drop 1 (transactions b)) prepared)
                                 ({}, overlay_new (ctx_utxos ctx), 0))
           (\<lambda>(seen, ov, sum_fees).
              rbind (ok_or CoinbaseRewardMismatch
                       (checked_add (block_subsidy_atoms_for_network n h) sum_fees))
           (\<lambda>expected_coinbase_reward.
              rbind (validate_coinbase_transaction_with_schedule (transactions b ! 0)
                       expected_coinbase_reward h schedule)
           (\<lambda>_. verify_transaction_signatures_parallel_prepared P n (drop 1 (transactions b))
                   prepared))))))))"

definition validate_block_with_context ::
  "primitives \<Rightarrow> u64 \<Rightarrow> block \<Rightarrow> u64 \<Rightarrow> network \<Rightarrow> bytes \<Rightarrow> bytes \<Rightarrow> block list \<Rightarrow> utxo_set
     \<Rightarrow> validation_error + unit" where
  "validate_block_with_context P now b h n expected_previous_hash expected_target previous_blocks
       utxos =
     validate_block_with_context_and_schedule P now b
       \<lparr>ctx_height = h, ctx_network = n, ctx_expected_previous_hash = expected_previous_hash,
        ctx_expected_target = expected_target, ctx_previous_blocks = previous_blocks,
        ctx_utxos = utxos\<rparr> SCHEDULED_ACTIVATIONS"

section \<open>What preparation guarantees\<close>

abbreviation ref_index :: "witness_input_ref \<Rightarrow> nat" where
  "ref_index r \<equiv> unat (input_index r)"

lemma claim_inputs_spec:
  assumes "claim_inputs P tx t sig g rs prev owner = Inr owner'"
    and "length owner = length (inputs tx)"
  shows "length owner' = length owner
    \<and> (\<forall>i<length owner. owner' ! i = (if i \<in> ref_index ` set rs then Some g else owner ! i))
    \<and> (\<forall>r\<in>set rs. ref_index r < length owner \<and> owner ! ref_index r = None
         \<and> sig_ref_short r = derive_sig_ref_short P t sig (input_index r))
    \<and> distinct (map ref_index rs)"
  using assms
proof (induction rs arbitrary: prev owner)
  case Nil
  then show ?case by simp
next
  case (Cons r rs)
  let ?i = "ref_index r"
  have i: "?i < length owner" "owner ! ?i = None"
    "sig_ref_short r = derive_sig_ref_short P t sig (input_index r)"
    and rest: "claim_inputs P tx t sig g rs (Some (input_index r)) (owner[?i := Some g]) = Inr owner'"
    using Cons.prems by (simp_all add: Let_def split: if_splits)
  have IH: "length owner' = length owner
    \<and> (\<forall>j<length owner. owner' ! j
         = (if j \<in> ref_index ` set rs then Some g else owner[?i := Some g] ! j))
    \<and> (\<forall>r'\<in>set rs. ref_index r' < length owner \<and> owner[?i := Some g] ! ref_index r' = None
         \<and> sig_ref_short r' = derive_sig_ref_short P t sig (input_index r'))
    \<and> distinct (map ref_index rs)"
    using Cons.IH [OF rest] Cons.prems(2) by simp
  have ne: "ref_index r' \<noteq> ?i" if "r' \<in> set rs" for r'
    using IH that i(1) by (metis nth_list_update_eq option.discI)
  then have "owner ! ref_index r' = None" if "r' \<in> set rs" for r'
    using IH that by (metis nth_list_update_neq)
  then show ?case
    using IH i ne by (auto simp: nth_list_update)
qed

text \<open>Input \<open>i\<close> is owned by group \<open>k\<close> exactly when group \<open>k\<close> has a reference to it.\<close>

definition owners_exact :: "nat option list \<Rightarrow> prepared_signer_group list \<Rightarrow> bool" where
  "owners_exact owner groups \<longleftrightarrow>
     (\<forall>i<length owner. \<forall>k. owner ! i = Some k \<longleftrightarrow>
        k < length groups \<and> i \<in> ref_index ` set (prep_input_refs (groups ! k)))"

definition refs_ok :: "primitives \<Rightarrow> bytes \<Rightarrow> nat \<Rightarrow> prepared_signer_group \<Rightarrow> bool" where
  "refs_ok P t n g \<longleftrightarrow> distinct (map ref_index (prep_input_refs g))
     \<and> (\<forall>r\<in>set (prep_input_refs g). ref_index r < n
          \<and> sig_ref_short r = derive_sig_ref_short P t (prep_signature g) (input_index r))"

definition prepared_group :: "bytes \<times> bytes \<times> witness_input_ref list \<Rightarrow> prepared_signer_group" where
  "prepared_group = (\<lambda>(sig, key, refs).
     \<lparr>prep_signature = sig, prep_pubkey = key, prep_input_refs = refs\<rparr>)"

lemma owners_exact_claim:
  assumes own: "owners_exact owner groups"
    and spec: "length owner' = length owner"
      "\<forall>i<length owner. owner' ! i
         = (if i \<in> ref_index ` set (prep_input_refs g) then Some (length groups) else owner ! i)"
      "\<forall>r\<in>set (prep_input_refs g). owner ! ref_index r = None"
  shows "owners_exact owner' (groups @ [g])"
  unfolding owners_exact_def
proof (intro allI impI)
  fix i k assume i: "i < length owner'"
  let ?R = "ref_index ` set (prep_input_refs g)"
  have none: "owner ! i = None" if "i \<in> ?R" using spec(3) that by auto
  have old: "owner ! i = Some k
      \<longleftrightarrow> k < length groups \<and> i \<in> ref_index ` set (prep_input_refs (groups ! k))"
    using own i spec(1) by (simp add: owners_exact_def)
  have new: "owner' ! i = (if i \<in> ?R then Some (length groups) else owner ! i)"
    using spec(1,2) i by simp
  show "owner' ! i = Some k \<longleftrightarrow> k < length (groups @ [g])
      \<and> i \<in> ref_index ` set (prep_input_refs ((groups @ [g]) ! k))"
    using none old
    by (cases "i \<in> ?R"; cases "k < length groups"; cases "k = length groups")
      (simp_all add: nth_append new)
qed

lemma prepare_groups_spec:
  assumes "prepare_groups P tx t (length acc) gs prev owner acc = Inr (owner', groups)"
    and "length owner = length (inputs tx)" and "owners_exact owner acc"
    and "\<forall>g\<in>set acc. refs_ok P t (length owner) g"
  shows "groups = acc @ map prepared_group gs \<and> length owner' = length owner
    \<and> owners_exact owner' groups \<and> (\<forall>g\<in>set groups. refs_ok P t (length owner) g)"
  using assms
proof (induction gs arbitrary: prev owner acc)
  case Nil
  then show ?case by simp
next
  case (Cons x gs)
  obtain sig key refs where x: "x = (sig, key, refs)" by (cases x)
  let ?g = "prepared_group (sig, key, refs)"
  from Cons.prems(1) obtain owner1 where
    cl: "claim_inputs P tx t sig (length acc) refs None owner = Inr owner1"
    and rest: "prepare_groups P tx t (length (acc @ [?g])) gs (Some (input_index (hd refs)))
      owner1 (acc @ [?g]) = Inr (owner', groups)"
    by (auto simp: x Let_def prepared_group_def split: if_splits sum.splits)
  note spec = claim_inputs_spec [OF cl Cons.prems(2)]
  have own: "owners_exact owner1 (acc @ [?g])"
    by (rule owners_exact_claim [OF Cons.prems(3)]) (use spec in \<open>auto simp: prepared_group_def\<close>)
  have "\<forall>g\<in>set (acc @ [?g]). refs_ok P t (length owner1) g"
    using spec Cons.prems(4) by (auto simp: refs_ok_def prepared_group_def)
  from Cons.IH [OF rest _ own this] show ?case
    using spec Cons.prems(2) by (auto simp: x)
qed

lemma prepare_spec:
  assumes "prepare_transaction_validation P tx fee n h schedule = Inr p"
  obtains w where "witness_payload tx = Some w" "prep_txid p = txid P tx"
    "prep_signer_groups p = map prepared_group (signer_groups w)"
    "length (prep_group_by_input p) = length (inputs tx)" "None \<notin> set (prep_group_by_input p)"
    "owners_exact (prep_group_by_input p) (prep_signer_groups p)"
    "\<forall>g\<in>set (prep_signer_groups p). refs_ok P (txid P tx) (length (inputs tx)) g"
    "inputs tx \<noteq> []" "distinct (map input_key (inputs tx))" "outputs tx \<noteq> []"
    "length (outputs tx) \<le> 64" "minimum_required_fee_atoms n tx \<le> fee"
    "\<forall>out\<in>set (outputs tx). 100 \<le> value_atoms out \<and> length (locking_script out) = 32"
proof -
  from assms obtain w owner groups where w: "witness_payload tx = Some w"
    and gr: "prepare_groups P tx (txid P tx) 0 (signer_groups w) None
       (replicate (length (inputs tx)) None) [] = Inr (owner, groups)"
    and p: "p = \<lparr>prep_txid = txid P tx, prep_signer_groups = groups, prep_group_by_input = owner\<rparr>"
    and own: "None \<notin> set owner"
    by (auto simp: prepare_transaction_validation_def split: if_splits)
  have "owners_exact (replicate (length (inputs tx)) None) []"
    by (simp add: owners_exact_def)
  from prepare_groups_spec [of P tx "txid P tx" "[]", simplified, OF gr _ this]
  have spec: "groups = map prepared_group (signer_groups w)" "length owner = length (inputs tx)"
    "owners_exact owner groups" "\<forall>g\<in>set groups. refs_ok P (txid P tx) (length (inputs tx)) g"
    by auto
  have "inputs tx \<noteq> []" "outputs tx \<noteq> []" "length (outputs tx) \<le> 64"
    "minimum_required_fee_atoms n tx \<le> fee"
    using assms by (auto simp: prepare_transaction_validation_def is_coinbase_def
        maximum_standard_outputs_def split: if_splits)
  moreover have "distinct (map input_key (inputs tx))"
    using assms by (auto simp: prepare_transaction_validation_def all_fresh_iff input_key_def [abs_def]
        split: if_splits)
  moreover have "\<forall>out\<in>set (outputs tx). 100 \<le> value_atoms out \<and> length (locking_script out) = 32"
    using assms by (auto simp: prepare_transaction_validation_def list_ex_iff rfold_unit_iff
        minimum_output_amount_atoms_def canonical_payment_lock_def
        payment_digest_from_locking_script_def not_less split: if_splits)
  ultimately show ?thesis using w own spec by (intro that [of w]) (simp_all add: p)
qed

lemma prepared_owner_in_range:
  assumes "prepare_transaction_validation P tx fee n h schedule = Inr p" and "i < length (inputs tx)"
  shows "\<exists>k. prep_group_by_input p ! i = Some k \<and> k < length (prep_signer_groups p)
    \<and> i \<in> ref_index ` set (prep_input_refs (prep_signer_groups p ! k))"
proof -
  from prepare_spec [OF assms(1)]
  have len: "length (prep_group_by_input p) = length (inputs tx)"
    and "None \<notin> set (prep_group_by_input p)"
    and own: "owners_exact (prep_group_by_input p) (prep_signer_groups p)" by metis+
  then obtain k where "prep_group_by_input p ! i = Some k"
    by (metis assms(2) nth_mem option.exhaust)
  then show ?thesis using own assms(2) len by (auto simp: owners_exact_def)
qed

section \<open>Fees and authorisation\<close>

lemma rbind_InrE:
  assumes "rbind m f = Inr y"
  obtains x where "m = Inr x" "f x = Inr y"
  using assms by auto

lemma checked_sum_Some:
  "checked_sum acc vs = Some t \<Longrightarrow> unat t = unat acc + sum_list (map unat vs)"
proof (induction vs arbitrary: acc)
  case Nil
  then show ?case by simp
next
  case (Cons v vs)
  then obtain a where "checked_add acc v = Some a" "checked_sum a vs = Some t"
    by (auto split: bind_splits)
  with Cons.IH [of a] show ?case by (simp add: checked_add_Some)
qed

definition input_values :: "lookup \<Rightarrow> tx_input list \<Rightarrow> nat" where
  "input_values look ins =
     sum_list (map (\<lambda>i. unat (utxo_value_atoms (the (look (previous_txid i) (output_index i))))) ins)"

definition output_values :: "transaction \<Rightarrow> nat" where
  "output_values tx = sum_list (map (\<lambda>out. unat (value_atoms out)) (outputs tx))"

text \<open>The entry an input spends may be spent at this height, belongs to the network, and its
  lock is the digest of the given public key.\<close>

definition input_authorised ::
  "primitives \<Rightarrow> network \<Rightarrow> u64 \<Rightarrow> lookup \<Rightarrow> tx_input \<Rightarrow> bytes \<Rightarrow> bool" where
  "input_authorised P n h look i key \<longleftrightarrow>
     (\<exists>e. look (previous_txid i) (output_index i) = Some e \<and> utxo_network e = n
        \<and> utxo_locking_script e = unlocking_script i
        \<and> utxo_locking_script e = public_key_digest P n key \<and> is_spendable_at e h)"

abbreviation owner_key :: "prepared_transaction \<Rightarrow> nat \<Rightarrow> bytes" where
  "owner_key p i \<equiv> prep_pubkey (prep_signer_groups p ! the (prep_group_by_input p ! i))"

lemma check_input_Inr:
  assumes "check_input P p n h look (k, i) acc = Inr t"
  shows "input_authorised P n h look i (owner_key p k)
    \<and> unat t = unat acc + unat (utxo_value_atoms (the (look (previous_txid i) (output_index i))))"
  using assms
  by (auto simp: check_input_def input_authorised_def canonical_payment_lock_def Let_def
      payment_digest_from_locking_script_def checked_add_Some split: if_splits)

lemma check_inputs_spec:
  assumes "rfold (check_input P p n h look) (enumerate k ins) acc = Inr t"
  shows "(\<forall>j<length ins. input_authorised P n h look (ins ! j) (owner_key p (k + j)))
    \<and> unat t = unat acc + input_values look ins"
  using assms
proof (induction ins arbitrary: k acc)
  case Nil
  then show ?case by (simp add: input_values_def)
next
  case (Cons i ins)
  then obtain a where a: "check_input P p n h look (k, i) acc = Inr a"
    and rest: "rfold (check_input P p n h look) (enumerate (Suc k) ins) a = Inr t" by auto
  note step = check_input_Inr [OF a] and IH = Cons.IH [OF rest]
  have "input_authorised P n h look ((i # ins) ! j) (owner_key p (k + j))"
    if "j < length (i # ins)" for j
    using that step IH by (cases j) simp_all
  with step IH show ?case by (simp add: input_values_def)
qed

lemma context_common_spec:
  assumes "validate_transaction_with_context_common_and_schedule P tx p n h look schedule = Inr fee"
  shows "(\<forall>j<length (inputs tx). input_authorised P n h look (inputs tx ! j) (owner_key p j))
    \<and> input_values look (inputs tx) = output_values tx + unat fee"
proof -
  from assms obtain a b where a: "rfold (check_input P p n h look) (enumerate 0 (inputs tx)) 0 = Inr a"
    and b: "checked_output_value_atoms tx = Some b" and f: "checked_sub a b = Some fee"
    by (auto simp: validate_transaction_with_context_common_and_schedule_def)
  from checked_sum_Some [OF b [unfolded checked_output_value_atoms_def]]
  have "unat b = output_values tx" by (simp add: output_values_def comp_def)
  with check_inputs_spec [OF a] f show ?thesis by (simp add: checked_sub_Some)
qed

text \<open>A signer group signs the transaction when its Falcon signature verifies, under its key and
  in the transaction domain, over the digest for the inputs it refers to.\<close>

definition group_signs ::
  "primitives \<Rightarrow> transaction \<Rightarrow> network \<Rightarrow> bytes \<times> bytes \<times> witness_input_ref list \<Rightarrow> bool" where
  "group_signs P tx n = (\<lambda>(sig, key, refs). length key = 897 \<and> length sig = 666
     \<and> vk_decodes P key \<and> vk_verify P key sig (as_bytes ''ATHO_TX_SIGN_V1'')
         (if length refs = length (inputs tx) then transaction_signing_digest P n tx
          else transaction_signing_digest_for_input_indexes P n tx (map input_index refs)))"

lemma verify_signer_group_iff:
  "verify_signer_group P tx n key sig refs = Inr u \<longleftrightarrow> group_signs P tx n (sig, key, refs)"
  by (auto simp: verify_signer_group_def group_signs_def falcon_verify_def decode_verifying_key_def
      public_key_len_ok_def signature_len_ok_def Let_def split: sum.splits crypto_error.splits if_splits)

lemma verify_prepared_iff:
  assumes "prep_signer_groups p = map prepared_group gs"
  shows "verify_transaction_signature_prepared P tx n p = Inr u
    \<longleftrightarrow> (\<forall>g\<in>set gs. group_signs P tx n g)"
  unfolding verify_transaction_signature_prepared_def rfold_unit_iff assms
  by (auto simp: prepared_group_def verify_signer_group_iff split: prod.splits)

lemma verify_transaction_signature_iff:
  "verify_transaction_signature P tx n = Inr u \<longleftrightarrow> inputs tx \<noteq> []
     \<and> (\<exists>w. witness_payload tx = Some w \<and> (\<forall>g\<in>set (signer_groups w). group_signs P tx n g))"
proof -
  have "verify_witness_signer_groups P tx n w = Inr u
      \<longleftrightarrow> (\<forall>g\<in>set (signer_groups w). group_signs P tx n g)" for w
    unfolding verify_witness_signer_groups_def rfold_unit_iff
    by (auto simp: verify_signer_group_iff split: prod.splits)
  then show ?thesis by (auto simp: verify_transaction_signature_def is_coinbase_def)
qed

text \<open>Every input has a signer group of the witness that refers to it and whose key opens it.\<close>

lemma prepared_input_signer:
  assumes prep: "prepare_transaction_validation P tx fee n h schedule = Inr p"
    and w: "witness_payload tx = Some w" and j: "j < length (inputs tx)"
  shows "\<exists>sig refs. (sig, owner_key p j, refs) \<in> set (signer_groups w) \<and> j \<in> ref_index ` set refs"
proof -
  from prepared_owner_in_range [OF prep j] obtain k where k: "prep_group_by_input p ! j = Some k"
    "k < length (prep_signer_groups p)"
    "j \<in> ref_index ` set (prep_input_refs (prep_signer_groups p ! k))" by blast
  have groups: "prep_signer_groups p = map prepared_group (signer_groups w)"
    using prepare_spec [OF prep] w by (metis option.inject)
  obtain sig key refs where g: "signer_groups w ! k = (sig, key, refs)" by (metis prod_cases3)
  have "prep_signer_groups p ! k = prepared_group (sig, key, refs)"
    using k(2) by (simp add: groups g)
  then have "owner_key p j = key" "j \<in> ref_index ` set refs"
    using k by (simp_all add: prepared_group_def)
  moreover have "(sig, key, refs) \<in> set (signer_groups w)"
    using k(2) unfolding groups by (metis g length_map nth_mem)
  ultimately show ?thesis by blast
qed

text \<open>C2: a transaction is accepted only when it pays for itself and every spender agreed: its
  inputs are distinct existing entries, each mature, on this network and locked to a key whose
  signer group refers to the input and has a valid signature; the entries are worth exactly the
  outputs plus the declared fee, which reaches the minimum.\<close>

theorem accepted_transaction_is_funded_and_signed:
  assumes acc: "validate_transaction_with_context_and_schedule P tx fee n h look schedule = Inr f"
  shows "f = fee \<and> distinct (map input_key (inputs tx))
    \<and> input_values look (inputs tx) = output_values tx + unat fee
    \<and> minimum_required_fee_atoms n tx \<le> fee
    \<and> (\<exists>w. witness_payload tx = Some w \<and> (\<forall>j<length (inputs tx). \<exists>sig key refs.
         (sig, key, refs) \<in> set (signer_groups w) \<and> j \<in> ref_index ` set refs
         \<and> group_signs P tx n (sig, key, refs)
         \<and> input_authorised P n h look (inputs tx ! j) key))"
proof -
  from acc obtain p where prep: "prepare_transaction_validation P tx fee n h schedule = Inr p"
    and ex: "validate_transaction_with_context_exact_fee_prepared_and_schedule P tx p fee n h look
      schedule = Inr f"
    and sigs: "verify_transaction_signature_prepared P tx n p = Inr ()"
    unfolding validate_transaction_with_context_and_schedule_def by (elim rbind_InrE) simp
  from ex have f: "f = fee"
    and ctx: "validate_transaction_with_context_common_and_schedule P tx p n h look schedule = Inr fee"
    unfolding validate_transaction_with_context_exact_fee_prepared_and_schedule_def
    by (auto split: if_splits)
  from prepare_spec [OF prep] obtain w where w: "witness_payload tx = Some w"
    and groups: "prep_signer_groups p = map prepared_group (signer_groups w)"
    and fact: "distinct (map input_key (inputs tx))" "minimum_required_fee_atoms n tx \<le> fee" by metis
  have signed: "\<forall>g\<in>set (signer_groups w). group_signs P tx n g"
    using sigs verify_prepared_iff [OF groups] by simp
  show ?thesis
    using f fact w signed prepared_input_signer [OF prep w] context_common_spec [OF ctx] by blast
qed

section \<open>The overlay is a store\<close>

definition overlay_view :: "utxo_overlay \<Rightarrow> utxo_key \<rightharpoonup> utxo_entry" where
  "overlay_view ov k = overlay_get ov (fst k) (snd k)"

definition overlay_remove_key ::
  "utxo_overlay \<Rightarrow> utxo_key \<Rightarrow> utxo_overlay \<times> (validation_error + utxo_entry)" where
  "overlay_remove_key ov k = overlay_remove ov (fst k) (snd k)"

definition overlay_fits :: "utxo_overlay \<Rightarrow> utxo_entry \<Rightarrow> bool" where
  "overlay_fits ov e = True"

text \<open>An added entry stands under its own key and never shadows a visible entry of the base: its
  key is new or was removed.\<close>

definition overlay_ok :: "utxo_overlay \<Rightarrow> bool" where
  "overlay_ok ov \<longleftrightarrow> utxo_set_ok (ov_base ov) \<and> (\<forall>k e. ov_added ov k = Some e \<longrightarrow>
     entry_key e = k \<and> (k \<in> ov_removed ov \<or> set_entries (ov_base ov) k = None))"

lemma overlay_view_eq:
  "overlay_view ov k = (case ov_added ov k of Some e \<Rightarrow> Some e
     | None \<Rightarrow> if k \<in> ov_removed ov then None else set_entries (ov_base ov) k)"
  by (simp add: overlay_view_def overlay_get_def utxo_get_def split: option.splits)

lemma overlay_okD:
  assumes "overlay_ok ov" and "ov_added ov k = Some e"
  shows "entry_key e = k" and "k \<in> ov_removed ov \<or> set_entries (ov_base ov) k = None"
  using assms(1) [unfolded overlay_ok_def, THEN conjunct2, rule_format, OF assms(2)] by simp_all

lemma overlay_view_key: "overlay_ok ov \<Longrightarrow> overlay_view ov k = Some e \<Longrightarrow> entry_key e = k"
  using overlay_okD(1) [of ov k e] utxo_set_okD(1) [of "ov_base ov" k e]
  by (auto simp: overlay_view_eq overlay_ok_def split: option.splits if_splits)

lemma overlay_new_ok: "utxo_set_ok s \<Longrightarrow> overlay_ok (overlay_new s)"
  by (simp add: overlay_ok_def overlay_new_def)

lemma overlay_view_new [simp]: "overlay_view (overlay_new s) = set_entries s"
  by (simp add: fun_eq_iff overlay_view_eq overlay_new_def)

lemma overlay_remove_hit:
  assumes ok: "overlay_ok ov" and e: "overlay_view ov k = Some e"
  shows "\<exists>ov'. overlay_remove_key ov k = (ov', Inr e)
    \<and> overlay_view ov' = (overlay_view ov)(k := None) \<and> overlay_ok ov'"
proof (cases "ov_added ov k")
  case (Some x)
  let ?ov = "ov\<lparr>ov_added := (ov_added ov)(k := None)\<rparr>"
  have x: "x = e" using e Some by (simp add: overlay_view_eq)
  have "overlay_remove_key ov k = (?ov, Inr e)"
    using Some x by (simp add: overlay_remove_key_def overlay_remove_def)
  moreover have "overlay_view ?ov = (overlay_view ov)(k := None)"
    using overlay_okD(2) [OF ok Some] by (auto simp: fun_eq_iff overlay_view_eq split: option.splits)
  moreover have "overlay_ok ?ov" using ok by (simp add: overlay_ok_def)
  ultimately show ?thesis by blast
next
  case None
  let ?ov = "ov\<lparr>ov_removed := insert k (ov_removed ov)\<rparr>"
  have b: "k \<notin> ov_removed ov" "set_entries (ov_base ov) k = Some e"
    using e None by (simp_all add: overlay_view_eq split: if_splits)
  have "overlay_remove_key ov k = (?ov, Inr e)"
    using None b by (simp add: overlay_remove_key_def overlay_remove_def utxo_get_def)
  moreover have "overlay_view ?ov = (overlay_view ov)(k := None)"
    using None by (auto simp: fun_eq_iff overlay_view_eq split: option.splits)
  moreover have "overlay_ok ?ov" using ok by (auto simp: overlay_ok_def)
  ultimately show ?thesis by blast
qed

lemma overlay_insert_new:
  assumes ok: "overlay_ok ov" and none: "overlay_view ov (entry_key e) = None"
  shows "\<exists>ov'. overlay_insert ov e = (ov', Inr ())
    \<and> overlay_view ov' = (overlay_view ov)(entry_key e \<mapsto> e) \<and> overlay_ok ov'"
proof -
  let ?ov = "ov\<lparr>ov_added := (ov_added ov)(entry_key e \<mapsto> e)\<rparr>"
  have free: "ov_added ov (entry_key e) = None"
    "entry_key e \<in> ov_removed ov \<or> set_entries (ov_base ov) (entry_key e) = None"
    using none by (auto simp: overlay_view_eq split: option.splits if_splits)
  then have "overlay_insert ov e = (?ov, Inr ())"
    by (auto simp: overlay_insert_def utxo_get_def entry_key_def)
  moreover have "overlay_view ?ov = (overlay_view ov)(entry_key e \<mapsto> e)"
    by (simp add: fun_eq_iff overlay_view_eq split: option.splits)
  moreover have "overlay_ok ?ov" using ok free by (simp add: overlay_ok_def)
  ultimately show ?thesis by blast
qed

interpretation sim: utxo_simulation overlay_view overlay_remove_key overlay_insert overlay_fits
  overlay_ok set_entries utxo_remove_key utxo_insert utxo_fits utxo_set_ok
proof unfold_locales
  have fits: "(overlay_fits s' = overlay_fits s \<and> overlay_ok s') = overlay_ok s'" for s s'
    by (simp add: overlay_fits_def fun_eq_iff)
  fix s k e assume "overlay_ok s" "overlay_view s k = Some e"
  from overlay_remove_hit [OF this]
  show "\<exists>s'. overlay_remove_key s k = (s', Inr e) \<and> overlay_view s' = (overlay_view s)(k := None)
      \<and> overlay_fits s' = overlay_fits s \<and> overlay_ok s'"
    by (simp only: fits)
next
  fix s k
  show "overlay_view s k = None \<Longrightarrow> \<exists>s' err. overlay_remove_key s k = (s', Inl err)"
    by (auto simp: overlay_remove_key_def overlay_remove_def overlay_view_eq utxo_get_def
        split: option.splits if_splits)
next
  have fits: "(overlay_fits s' = overlay_fits s \<and> overlay_ok s') = overlay_ok s'" for s s'
    by (simp add: overlay_fits_def fun_eq_iff)
  fix s e assume "overlay_ok s" "overlay_view s (entry_key e) = None"
  from overlay_insert_new [OF this]
  show "\<exists>s'. overlay_insert s e = (s', Inr ())
      \<and> overlay_view s' = (overlay_view s)(entry_key e \<mapsto> e)
      \<and> overlay_fits s' = overlay_fits s \<and> overlay_ok s'"
    by (simp only: fits)
next
  fix s e
  show "overlay_view s (entry_key e) \<noteq> None \<or> \<not> overlay_fits s e \<Longrightarrow>
      \<exists>s' err. overlay_insert s e = (s', Inl err)"
    by (auto simp: overlay_insert_def overlay_view_eq overlay_fits_def utxo_get_def entry_key_def
        split: option.splits if_splits)
qed

lemma overlay_spend_remove_all:
  "overlay_spend is (seen, ov) = Inr (seen', ov') \<Longrightarrow>
     \<exists>es. remove_all overlay_remove_key (map input_key is) ov = Some (ov', es)"
proof (induction "is" arbitrary: seen ov)
  case Nil
  then show ?case by simp
next
  case (Cons i "is")
  then obtain ov1 e where "overlay_remove ov (previous_txid i) (output_index i) = (ov1, Inr e)"
    and rest: "overlay_spend is (insert (previous_txid i, output_index i) seen, ov1) = Inr (seen', ov')"
    by (auto split: if_splits prod.splits sum.splits)
  with Cons.IH [OF rest] show ?case by (auto simp: overlay_remove_key_def input_key_def)
qed

lemma overlay_create_insert_all:
  "overlay_create es ov = Inr ov' \<Longrightarrow> insert_all overlay_insert es ov = Some ov'"
  by (induction es arbitrary: ov) (auto split: prod.splits sum.splits)

section \<open>From a valid block to an applied block\<close>

text \<open>\<open>tracks n extra ov s\<close>: the set \<open>s\<close> holds what the overlay shows and the entries \<open>extra\<close>.\<close>

definition tracks :: "network \<Rightarrow> (utxo_key \<rightharpoonup> utxo_entry) \<Rightarrow> utxo_overlay \<Rightarrow> utxo_set \<Rightarrow> bool" where
  "tracks n extra ov s \<longleftrightarrow> overlay_ok ov \<and> utxo_set_ok s \<and> set_network s = n
     \<and> set_entries s = overlay_view ov ++ extra \<and> dom extra \<inter> dom (overlay_view ov) = {}
     \<and> finite (dom (overlay_view ov))"

lemma tracksD:
  assumes "tracks n extra ov s"
  shows "overlay_ok ov" "utxo_set_ok s" "set_network s = n"
    "set_entries s = overlay_view ov ++ extra" "dom extra \<inter> dom (overlay_view ov) = {}"
    "finite (dom (overlay_view ov))"
  using assms unfolding tracks_def by metis+

lemma overlay_values_step:
  assumes ok: "overlay_ok ov" and fin: "finite (dom (overlay_view ov))"
    and rem: "remove_all overlay_remove_key (map input_key ins) ov = Some (ov1, es)"
    and new: "insert_all overlay_insert os ov1 = Some ov'"
  shows "map_value (overlay_view ov') + input_values (overlay_get ov) ins
      = map_value (overlay_view ov) + entries_value os"
    and "finite (dom (overlay_view ov'))"
proof -
  note r = sim.abs.remove_all_sound [OF ok rem]
  note i = sim.abs.insert_all_sound [OF _ new]
  have ok1: "overlay_ok ov1" using r by blast
  have len: "length ins = length es" using r by (metis length_map)
  have look: "overlay_view ov (input_key (ins ! j)) = Some (es ! j)" if "j < length ins" for j
    using r that len by (metis (no_types, lifting) length_map nth_map)
  have keys: "map entry_key es = map input_key ins"
    by (rule nth_equalityI) (use len look overlay_view_key [OF ok] in auto)
  have "map (\<lambda>i. unat (utxo_value_atoms (the (overlay_get ov (previous_txid i) (output_index i))))) ins
      = map (\<lambda>e. unat (utxo_value_atoms e)) es"
    by (rule nth_equalityI) (use len look in \<open>auto simp: overlay_view_def input_key_def\<close>)
  then have vals: "input_values (overlay_get ov) ins = entries_value es"
    by (simp add: input_values_def entries_value_def)
  have dist: "distinct (map entry_key es)" using r by (simp only: keys)
  have set_keys: "set (map input_key ins) = entry_key ` set es" by (metis keys list.set_map)
  have mem: "\<forall>e\<in>set es. overlay_view ov (entry_key e) = Some e"
    using look len keys by (metis in_set_conv_nth nth_map)
  have view1: "overlay_view ov1 = overlay_view ov |` (- entry_key ` set es)"
    using r by (simp only: set_keys)
  have fin1: "finite (dom (overlay_view ov1))" using fin by (simp add: view1)
  have view': "overlay_view ov' = overlay_view ov1 ++ entries_of os"
    and disj: "entry_key ` set os \<inter> dom (overlay_view ov1) = {}" "distinct (map entry_key os)"
    using i [OF ok1] by blast+
  show "finite (dom (overlay_view ov'))" using fin1 by (simp add: view')
  show "map_value (overlay_view ov') + input_values (overlay_get ov) ins
      = map_value (overlay_view ov) + entries_value os"
    unfolding vals view' map_value_add [OF fin1 disj(2,1)]
    using map_value_restrict [OF fin dist mem] by (simp add: view1)
qed

lemma block_transaction_parts:
  assumes val: "validate_block_transaction P n h root schedule (tx, p) (seen, ov, fees)
        = Inr (seen', ov', fees')"
    and prep: "prepare_transaction_validation P tx f n h schedule = Inr p"
  obtains fee :: u64 and ov1 es where "input_values (overlay_get ov) (inputs tx) = output_values tx + unat fee"
    "remove_all overlay_remove_key (map input_key (inputs tx)) ov = Some (ov1, es)"
    "insert_all overlay_insert (create_outputs P tx n h) ov1 = Some ov'"
    "unat fees' = unat fees + unat fee"
proof -
  from val obtain fee seen1 ov1 where
    ctx: "validate_transaction_with_context_minimum_fee_prepared_and_schedule P tx p
        (minimum_required_fee_atoms n tx) n h (overlay_get ov) schedule = Inr fee"
    and sp: "overlay_spend (inputs tx) (seen, ov) = Inr (seen1, ov1)"
    and add: "checked_add fees fee = Some fees'"
    and cr: "overlay_create (map (\<lambda>(i, out). utxo_entry_new n (prep_txid p) (of_nat i)
        (value_atoms out) (locking_script out) h False) (enumerate 0 (outputs tx))) ov1 = Inr ov'"
    unfolding validate_block_transaction_def prod.case
    by (elim rbind_InrE) (auto elim!: rbind_InrE)
  from prepare_spec [OF prep] have t: "prep_txid p = txid P tx" and ne: "inputs tx \<noteq> []" by metis+
  have outs: "create_outputs P tx n h = map (\<lambda>(i, out). utxo_entry_new n (prep_txid p) (of_nat i)
      (value_atoms out) (locking_script out) h False) (enumerate 0 (outputs tx))"
    using ne by (simp add: create_outputs_def t is_coinbase_def)
  from ctx have "validate_transaction_with_context_common_and_schedule P tx p n h (overlay_get ov)
      schedule = Inr fee"
    unfolding validate_transaction_with_context_minimum_fee_prepared_and_schedule_def
    by (auto split: if_splits)
  then have "input_values (overlay_get ov) (inputs tx) = output_values tx + unat fee"
    by (rule context_common_spec [THEN conjunct2])
  moreover from overlay_spend_remove_all [OF sp] obtain es
    where "remove_all overlay_remove_key (map input_key (inputs tx)) ov = Some (ov1, es)" by blast
  moreover have "insert_all overlay_insert (create_outputs P tx n h) ov1 = Some ov'"
    unfolding outs by (rule overlay_create_insert_all [OF cr])
  moreover have "unat fees' = unat fees + unat fee" using add by (simp add: checked_add_Some)
  ultimately show ?thesis by (rule that)
qed

lemma block_transaction_tracks:
  assumes tr: "tracks n extra ov s"
    and val: "validate_block_transaction P n h root schedule (tx, p) (seen, ov, fees)
        = Inr (seen', ov', fees')"
    and prep: "prepare_transaction_validation P tx f n h schedule = Inr p"
    and out: "\<forall>k\<in>dom extra. fst k \<noteq> txid P tx"
  obtains s1 es s' where "spend_inputs s tx = (s1, Inr es)" "set_network s1 = n"
    "\<And>u. insert_created (create_outputs P tx n h) s1 u
       = (s', Inr (u\<lparr>created := created u @ create_outputs P tx n h\<rparr>))"
    "tracks n extra ov' s'"
    "map_value (overlay_view ov') + unat fees' = map_value (overlay_view ov) + unat fees"
proof -
  let ?os = "create_outputs P tx n h"
  from block_transaction_parts [OF val prep] obtain fee :: u64 and ov1 es where
    fee: "input_values (overlay_get ov) (inputs tx) = output_values tx + unat fee"
    and rem: "remove_all overlay_remove_key (map input_key (inputs tx)) ov = Some (ov1, es)"
    and new: "insert_all overlay_insert ?os ov1 = Some ov'" and sum: "unat fees' = unat fees + unat fee"
    by blast
  note tr = tracksD [OF tr]
  from sim.remove_all_sim [OF tr(2,1,4,5) rem] obtain s1 where
    s1: "remove_all utxo_remove_key (map input_key (inputs tx)) s = Some (s1, es)"
    "set_entries s1 = overlay_view ov1 ++ extra" "dom extra \<inter> dom (overlay_view ov1) = {}"
    "utxo_fits s1 = utxo_fits s" "utxo_set_ok s1" "overlay_ok ov1" by blast
  have sp: "spend_inputs s tx = (s1, Inr es)"
    using spend_loop_remove_all [OF s1(1), of "[]"] by (simp add: spend_inputs_def)
  have net: "set_network s1 = n"
    using spend_loop_ok [OF tr(2), of "inputs tx" "[]"] sp tr(3) by (simp add: spend_inputs_def)
  have fit: "\<forall>e\<in>set ?os. utxo_fits s1 e"
    using create_outputs_network net by (simp add: utxo_fits_def)
  have "fst k = txid P tx" if "k \<in> entry_key ` set ?os" for k
    using that create_outputs_txid by auto
  then have avoid: "entry_key ` set ?os \<inter> dom extra = {}" using out by blast
  from sim.insert_all_sim [OF s1(5,6,2,3) new fit avoid] obtain s' where
    s': "insert_all utxo_insert ?os s1 = Some s'" "set_entries s' = overlay_view ov' ++ extra"
    "dom extra \<inter> dom (overlay_view ov') = {}" "utxo_set_ok s'" "overlay_ok ov'" by blast
  note vals = overlay_values_step [OF tr(1,6) rem new]
  have net': "set_network s' = n"
    using insert_created_ok [OF s1(5), of ?os empty_undo]
      insert_created_insert_all [OF s'(1), of empty_undo] net by simp
  have "map_value (overlay_view ov') + unat fees' = map_value (overlay_view ov) + unat fees"
    using vals(1) fee sum create_outputs_value [of P tx n h] by (simp add: output_values_def)
  moreover have "tracks n extra ov' s'"
    unfolding tracks_def using s' net' vals(2) by simp
  ultimately show ?thesis
    using sp net insert_created_insert_all [OF s'(1)] by (intro that)
qed

abbreviation prepares ::
  "primitives \<Rightarrow> network \<Rightarrow> u64 \<Rightarrow> scheduled_activation list \<Rightarrow> transaction \<Rightarrow> prepared_transaction \<Rightarrow> bool" where
  "prepares P n h schedule tx p \<equiv>
     prepare_transaction_validation P tx (minimum_required_fee_atoms n tx) n h schedule = Inr p"

lemma prepare_transactions_spec:
  "prepare_transactions P n h schedule txs = Inr ps \<Longrightarrow> list_all2 (prepares P n h schedule) txs ps"
  by (induction txs arbitrary: ps) auto

lemma block_transactions_track:
  assumes "rfold (validate_block_transaction P n h root schedule) (zip txs ps) (seen, ov, fees)
        = Inr (seen', ov', fees')"
    and "list_all2 (prepares P n h schedule) txs ps" and "tracks n extra ov s"
    and "\<forall>tx\<in>set txs. \<forall>k\<in>dom extra. fst k \<noteq> txid P tx"
  shows "\<exists>s' u'. apply_transactions P h txs s u = (s', Inr u') \<and> tracks n extra ov' s'
    \<and> map_value (overlay_view ov') + unat fees' = map_value (overlay_view ov) + unat fees"
  using assms
proof (induction txs arbitrary: ps seen ov fees s u)
  case Nil
  then show ?case by simp
next
  case (Cons tx txs)
  from Cons.prems(2) obtain p ps' where ps: "ps = p # ps'" and p: "prepares P n h schedule tx p"
    and rest: "list_all2 (prepares P n h schedule) txs ps'" by (auto simp: list_all2_Cons1)
  from Cons.prems(1) obtain seen1 ov1 fees1 where
    st: "validate_block_transaction P n h root schedule (tx, p) (seen, ov, fees) = Inr (seen1, ov1, fees1)"
    and go: "rfold (validate_block_transaction P n h root schedule) (zip txs ps') (seen1, ov1, fees1)
        = Inr (seen', ov', fees')"
    unfolding ps zip_Cons_Cons rfold.simps by (elim rbind_InrE) (metis prod_cases3)
  from Cons.prems(4) have out: "\<forall>k\<in>dom extra. fst k \<noteq> txid P tx"
    and outs: "\<forall>tx\<in>set txs. \<forall>k\<in>dom extra. fst k \<noteq> txid P tx" by simp_all
  obtain s1 es s2 where sp: "spend_inputs s tx = (s1, Inr es)" "set_network s1 = n"
    and cr: "\<And>u. insert_created (create_outputs P tx n h) s1 u
       = (s2, Inr (u\<lparr>created := created u @ create_outputs P tx n h\<rparr>))"
    and tr: "tracks n extra ov1 s2"
    and val: "map_value (overlay_view ov1) + unat fees1 = map_value (overlay_view ov) + unat fees"
    by (rule block_transaction_tracks [OF Cons.prems(3) st p out]) blast
  have "apply_transactions P h (tx # txs) s u = apply_transactions P h txs s2
      (u\<lparr>spent := spent u @ es, created := created u @ create_outputs P tx n h\<rparr>)"
    by (simp add: sp cr)
  with Cons.IH [OF go rest tr outs] val show ?case by metis
qed

lemma block_validation_parts:
  assumes "validate_block_with_context P now b h n prev target blocks s = Inr u"
  obtains prepared seen ov fees reward where "transactions b \<noteq> []" "height (header b) = h"
    "txids_are_unique P (transactions b)"
    "prepare_transactions P n h SCHEDULED_ACTIVATIONS (drop 1 (transactions b)) = Inr prepared"
    "rfold (validate_block_transaction P n h (hdr_witness_root (header b)) SCHEDULED_ACTIVATIONS)
       (zip (drop 1 (transactions b)) prepared) ({}, overlay_new s, 0) = Inr (seen, ov, fees)"
    "checked_add (block_subsidy_atoms_for_network n h) fees = Some reward"
    "validate_coinbase_transaction_with_schedule (transactions b ! 0) reward h SCHEDULED_ACTIVATIONS
       = Inr ()"
proof -
  from assms obtain prepared acc reward where
    st: "validate_block_static_header_precheck_with_schedule b h n SCHEDULED_ACTIVATIONS = Inr ()"
    and co: "collect_prepared_block_transactions_with_schedule P b h n SCHEDULED_ACTIVATIONS
       = Inr prepared"
    and fo: "rfold (validate_block_transaction P n h (hdr_witness_root (header b)) SCHEDULED_ACTIVATIONS)
       (zip (drop 1 (transactions b)) prepared) ({}, overlay_new s, 0) = Inr acc"
    and re: "checked_add (block_subsidy_atoms_for_network n h) (snd (snd acc)) = Some reward"
    and cb: "validate_coinbase_transaction_with_schedule (transactions b ! 0) reward h
       SCHEDULED_ACTIVATIONS = Inr ()"
    unfolding validate_block_with_context_def validate_block_with_context_and_schedule_def Let_def
    by (elim rbind_InrE) (auto elim!: rbind_InrE)
  obtain seen ov fees where acc: "acc = (seen, ov, fees)" by (cases acc)
  from st have "transactions b \<noteq> [] \<and> height (header b) = h"
    unfolding validate_block_static_header_precheck_with_schedule_def
      validate_block_common_header_with_schedule_def
    by (elim rbind_InrE) (simp split: if_splits)
  moreover from co have "txids_are_unique P (transactions b)
      \<and> prepare_transactions P n h SCHEDULED_ACTIVATIONS (drop 1 (transactions b)) = Inr prepared"
    unfolding collect_prepared_block_transactions_with_schedule_def
    by (elim rbind_InrE) (simp split: if_splits)
  ultimately show ?thesis using fo re cb unfolding acc by (intro that) simp_all
qed

lemma coinbase_value:
  assumes "validate_coinbase_transaction_with_schedule cb reward h schedule = Inr ()"
  shows "inputs cb = []" and "length (outputs cb) = 1" and "output_values cb = unat reward"
proof -
  from assms show "inputs cb = []" "length (outputs cb) = 1"
    unfolding validate_coinbase_transaction_with_schedule_def
      validate_coinbase_transaction_shape_with_schedule_def is_coinbase_def
    by (elim rbind_InrE, simp split: if_splits)+
  from assms have "checked_output_value_atoms cb = Some reward"
    unfolding validate_coinbase_transaction_with_schedule_def
    by (elim rbind_InrE) (auto split: if_splits)
  from checked_sum_Some [OF this [unfolded checked_output_value_atoms_def]]
  show "output_values cb = unat reward" by (simp add: output_values_def comp_def)
qed

lemma coinbase_applies:
  assumes ok: "utxo_set_ok s" and fin: "finite (dom (set_entries s))"
    and cb: "inputs cb = []" "length (outputs cb) = 1"
    and new: "set_entries s (txid P cb, 0) = None"
  shows "spend_inputs s cb = (s, Inr [])"
    and "\<exists>s1 u1. insert_created (create_outputs P cb (set_network s) h) s u = (s1, Inr u1)
      \<and> tracks (set_network s) (entries_of (create_outputs P cb (set_network s) h)) (overlay_new s) s1
      \<and> map_value (set_entries s1) = map_value (set_entries s) + output_values cb"
proof -
  let ?os = "create_outputs P cb (set_network s) h"
  show "spend_inputs s cb = (s, Inr [])" by (simp add: spend_inputs_def cb)
  have keys: "map entry_key ?os = [(txid P cb, 0)]" by (simp add: create_outputs_keys cb)
  have dist: "distinct (map entry_key ?os)" by (simp add: keys)
  have imgs: "entry_key ` set ?os = {(txid P cb, 0)}" by (metis keys list.set_map list.set(1,2))
  then have disj: "entry_key ` set ?os \<inter> dom (set_entries s) = {}" using new by auto
  have "\<forall>e\<in>set ?os. utxo_fits s e" by (simp add: utxo_fits_def create_outputs_network)
  from mem.insert_all_complete [OF ok dist disj this] obtain s1 where
    s1: "insert_all utxo_insert ?os s = Some s1" by blast
  note sound = mem.insert_all_sound [OF ok s1]
  have ins: "insert_created ?os s u = (s1, Inr (u\<lparr>created := created u @ ?os\<rparr>))"
    by (rule insert_created_insert_all [OF s1])
  have "set_network s1 = set_network s"
    using insert_created_ok [OF ok, of ?os u] ins by simp
  moreover have view: "set_entries s1 = set_entries s ++ entries_of ?os" using sound by blast
  moreover have "utxo_set_ok s1" using sound by blast
  ultimately have "tracks (set_network s) (entries_of ?os) (overlay_new s) s1"
    unfolding tracks_def using overlay_new_ok [OF ok] fin disj by simp
  moreover have "map_value (set_entries s1) = map_value (set_entries s) + output_values cb"
    unfolding view map_value_add [OF fin dist disj]
    by (simp add: create_outputs_value output_values_def)
  ultimately show "\<exists>s1 u1. insert_created ?os s u = (s1, Inr u1)
      \<and> tracks (set_network s) (entries_of ?os) (overlay_new s) s1
      \<and> map_value (set_entries s1) = map_value (set_entries s) + output_values cb"
    using ins by blast
qed

lemma valid_block_applies:
  assumes ok: "utxo_set_ok s" and fin: "finite (dom (set_entries s))" and net: "set_network s = n"
    and val: "validate_block_with_context P now b h n prev target blocks s = Inr ()"
    and new: "set_entries s (txid P (transactions b ! 0), 0) = None"
  shows "\<exists>s' u. apply_block P s b = (s', Inr u)
    \<and> total_value s' = total_value s + unat (block_subsidy_atoms_for_network n h)"
proof -
  obtain prepared seen ov fees reward where ne: "transactions b \<noteq> []" and h: "height (header b) = h"
    and uniq: "txids_are_unique P (transactions b)"
    and prep: "prepare_transactions P n h SCHEDULED_ACTIVATIONS (drop 1 (transactions b)) = Inr prepared"
    and run: "rfold (validate_block_transaction P n h (hdr_witness_root (header b))
        SCHEDULED_ACTIVATIONS) (zip (drop 1 (transactions b)) prepared) ({}, overlay_new s, 0)
        = Inr (seen, ov, fees)"
    and re: "checked_add (block_subsidy_atoms_for_network n h) fees = Some reward"
    and cbv: "validate_coinbase_transaction_with_schedule (transactions b ! 0) reward h
       SCHEDULED_ACTIVATIONS = Inr ()"
    by (rule block_validation_parts [OF val]) blast
  obtain cb txs where b: "transactions b = cb # txs" using ne by (cases "transactions b") auto
  let ?os = "create_outputs P cb n h"
  have cb: "inputs cb = []" "length (outputs cb) = 1" "output_values cb = unat reward"
    using coinbase_value [OF cbv] by (simp_all add: b)
  have "set_entries s (txid P cb, 0) = None" using new by (simp add: b)
  note first = coinbase_applies [OF ok fin cb(1,2) this, unfolded net]
  obtain s1 u1 where ins: "insert_created ?os s (empty_undo\<lparr>spent := []\<rparr>) = (s1, Inr u1)"
    and tr: "tracks n (entries_of ?os) (overlay_new s) s1"
    and v1: "map_value (set_entries s1) = map_value (set_entries s) + output_values cb"
    using first(2) by blast
  have "\<forall>tx\<in>set txs. \<forall>k\<in>dom (entries_of ?os). fst k \<noteq> txid P tx"
  proof (intro ballI)
    fix tx k assume tx: "tx \<in> set txs" and "k \<in> dom (entries_of ?os)"
    then have "fst k = txid P cb" using create_outputs_txid by auto
    moreover have "txid P cb \<noteq> txid P tx"
      using uniq tx by (auto simp: txids_are_unique_def all_fresh_iff b)
    ultimately show "fst k \<noteq> txid P tx" by simp
  qed
  from block_transactions_track [OF run [unfolded b drop_Suc_Cons One_nat_def drop_0]
      prepare_transactions_spec [OF prep [unfolded b drop_Suc_Cons One_nat_def drop_0]] tr this, of u1]
  obtain s' u' where app: "apply_transactions P h txs s1 u1 = (s', Inr u')"
    and tr': "tracks n (entries_of ?os) ov s'"
    and v2: "map_value (overlay_view ov) + unat fees = map_value (set_entries s)" by auto
  have dist: "distinct (map entry_key ?os)" by (simp add: create_outputs_keys cb(2))
  have "total_value s' = map_value (overlay_view ov) + entries_value ?os"
    unfolding total_value_def tracksD(4) [OF tr']
    using map_value_add [OF tracksD(6) [OF tr'] dist] tracksD(5) [OF tr'] by simp
  also have "\<dots> = map_value (overlay_view ov) + unat reward"
    using cb(3) by (simp add: create_outputs_value output_values_def)
  also have "unat reward = unat (block_subsidy_atoms_for_network n h) + unat fees"
    using re by (simp add: checked_add_Some)
  finally have "total_value s' = total_value s + unat (block_subsidy_atoms_for_network n h)"
    using v2 by (simp add: total_value_def)
  moreover have "apply_block P s b = (s', Inr u')"
    using app ins first(1) by (simp add: apply_block_def b h net empty_undo_def)
  ultimately show ?thesis by blast
qed


section \<open>Finalising the witness references\<close>

text \<open>A visitor that changes nothing but the commitment reference, and keeps its width.\<close>

definition commit_visitor :: "(witness_input_ref \<Rightarrow> witness_input_ref) \<Rightarrow> bool" where
  "commit_visitor v \<longleftrightarrow> (\<forall>r. input_index (v r) = input_index r \<and> sig_ref_short (v r) = sig_ref_short r
     \<and> length (witness_commit_ref (v r)) = 16)"

lemma commit_visitor_ref_bytes:
  assumes "commit_visitor v"
  shows "commitment_ref_bytes (v r) = commitment_ref_bytes r"
    and "input_ref_ok r \<Longrightarrow> input_ref_ok (v r)"
  using assms by (simp_all add: commit_visitor_def commitment_ref_bytes_def input_ref_ok_def)

lemma visited_commitment_bytes:
  assumes "commit_visitor v"
  shows "commitment_bytes (for_each_input_ref_mut v w) = commitment_bytes w"
  by (simp add: commitment_bytes_def write_commitment_bytes_def for_each_input_ref_mut_def comp_def
      commit_visitor_ref_bytes [OF assms])

lemma visited_witness_ok:
  assumes "commit_visitor v" and "tx_witness_ok w"
  shows "tx_witness_ok (for_each_input_ref_mut v w)"
  using assms(2)
  by (auto simp: tx_witness_ok_def signer_group_ok_def for_each_input_ref_mut_def total_input_refs_def
      list_all_iff comp_def commit_visitor_ref_bytes [OF assms(1)])

lemma visited_counts:
  "witness_is_empty (for_each_input_ref_mut v w) = witness_is_empty w"
  "signer_group_count (for_each_input_ref_mut v w) = signer_group_count w"
  "total_input_refs (for_each_input_ref_mut v w) = total_input_refs w"
  "signer_groups (for_each_input_ref_mut v w)
     = map (\<lambda>(sig, key, refs). (sig, key, map v refs)) (signer_groups w)"
  by (simp_all add: witness_is_empty_def for_each_input_ref_mut_def signer_group_count_def
      total_input_refs_def signer_groups_def comp_def)

lemma visited_group_message:
  assumes "commit_visitor v"
  shows "signer_group_message (sig, key, map v refs) = signer_group_message (sig, key, refs)"
  using assms by (simp add: signer_group_message_def comp_def commit_visitor_def)

lemma witness_canonical_length:
  assumes "tx_witness_ok w"
  shows "length (witness_canonical_bytes w)
    = 16 + 666 + 897 + 22 * length (input_refs w)
      + sum_list (map (\<lambda>g. 12 + 666 + 897 + 22 * length (group_input_refs g)) (additional_signers w))"
proof -
  have refs: "length (concat (map input_ref_bytes rs)) = 22 * length rs"
    if "list_all input_ref_ok rs" for rs
    using that by (induction rs) (simp_all add: input_ref_bytes_def input_ref_ok_def)
  have "length (concat (map signer_group_bytes gs))
      = sum_list (map (\<lambda>g. 12 + 666 + 897 + 22 * length (group_input_refs g)) gs)"
    if "list_all (signer_group_ok 0) gs" for gs
    using that by (induction gs) (simp_all add: signer_group_bytes_def signer_group_ok_def refs)
  with assms refs show ?thesis by (simp add: witness_canonical_bytes_def tx_witness_ok_def)
qed

lemma visited_length:
  assumes "commit_visitor v" and "tx_witness_ok w"
  shows "length (witness_canonical_bytes (for_each_input_ref_mut v w))
    = length (witness_canonical_bytes w)"
  by (simp add: witness_canonical_length [OF assms(2)]
      witness_canonical_length [OF visited_witness_ok [OF assms]])
    (simp add: for_each_input_ref_mut_def comp_def)

lemma finalize_visitor:
  "digest_widths P \<Longrightarrow> commit_visitor (\<lambda>r. r\<lparr>witness_commit_ref :=
     derive_witness_commit_ref P t root (input_index r)\<rparr>)"
  by (simp add: commit_visitor_def derive_witness_commit_ref_def)

lemma witness_payload_ok:
  "witness_payload tx = Some w \<Longrightarrow> tx_witness_ok w \<and> witness tx = witness_canonical_bytes w"
  using witness_decoded_ok [of "witness tx" w]
  by (auto simp: witness_payload_def split: if_splits)

lemma witness_bytes_nonempty: "witness_canonical_bytes w \<noteq> []"
  by (metis append_is_Nil_conv length_0_conv length_int_bytes(2) witness_canonical_bytes_def
      zero_neq_numeral)

lemma witness_payload_set:
  "tx_witness_ok w \<Longrightarrow> witness_payload (tx\<lparr>witness := witness_canonical_bytes w\<rparr>) = Some w"
  by (simp add: witness_payload_def witness_bytes_nonempty witness_encoded_decodes)

lemma base_bytes_set_witness [simp]: "tx_base_bytes (tx\<lparr>witness := x\<rparr>) = tx_base_bytes tx"
  by (simp add: tx_base_bytes_def write_base_bytes_def)

lemma witness_commitment_of_payload:
  assumes "witness_payload tx = Some w"
  shows "witness_commitment_hash P tx = sha3_384 P (tx_base_bytes tx @ [1] @ commitment_bytes w
    @ u64_le (tx_pow_nonce tx) @ [tx_pow_bits tx])"
proof -
  have "witness tx \<noteq> []" using assms by (auto simp: witness_payload_def)
  with assms show ?thesis
    by (simp add: witness_commitment_hash_def update_base_hasher_bytes update_commitment_hasher_bytes)
qed

lemma finalize_spec:
  assumes wid: "digest_widths P" and pay: "witness_payload tx = Some w"
  shows "(let tx' = finalize_witness_commit_refs P tx root in
    txid P tx' = txid P tx
    \<and> witness_commitment_hash P tx' = witness_commitment_hash P tx
    \<and> transaction_pow_preimage P n tx' = transaction_pow_preimage P n tx
    \<and> transaction_signing_digest P n tx' = transaction_signing_digest P n tx
    \<and> tx_full_size_bytes tx' = tx_full_size_bytes tx
    \<and> (\<exists>w'. witness_payload tx' = Some w' \<and> signer_groups w' = map (\<lambda>(sig, key, refs).
         (sig, key, map (\<lambda>r. r\<lparr>witness_commit_ref :=
            derive_witness_commit_ref P (txid P tx) root (input_index r)\<rparr>) refs)) (signer_groups w)))"
proof -
  define v :: "witness_input_ref \<Rightarrow> witness_input_ref" where "v = (\<lambda>r. r\<lparr>witness_commit_ref :=
    derive_witness_commit_ref P (txid P tx) root (input_index r)\<rparr>)"
  define w' where "w' = for_each_input_ref_mut v w"
  define tx' where "tx' = tx\<lparr>witness := witness_canonical_bytes w'\<rparr>"
  have fin: "finalize_witness_commit_refs P tx root = tx'"
    by (simp add: finalize_witness_commit_refs_def pay tx'_def w'_def v_def)
  have v: "commit_visitor v" unfolding v_def by (rule finalize_visitor [OF wid])
  have w: "tx_witness_ok w" "witness tx = witness_canonical_bytes w"
    using witness_payload_ok [OF pay] by simp_all
  have pay': "witness_payload tx' = Some w'"
    unfolding tx'_def w'_def by (rule witness_payload_set [OF visited_witness_ok [OF v w(1)]])
  have base: "tx_base_bytes tx' = tx_base_bytes tx" by (simp add: tx'_def)
  have ins: "inputs tx' = inputs tx" by (simp add: tx'_def)
  have "witness_commitment_hash P tx' = witness_commitment_hash P tx"
    unfolding witness_commitment_of_payload [OF pay] witness_commitment_of_payload [OF pay']
    by (simp add: w'_def visited_commitment_bytes [OF v] tx'_def)
  moreover have "transaction_pow_preimage P n tx' = transaction_pow_preimage P n tx"
  proof -
    have "witness tx \<noteq> []" "witness tx' \<noteq> []" using pay pay' by (auto simp: witness_payload_def)
    moreover have "foldl (\<lambda>h g. h @ signer_group_message g) h (signer_groups w')
        = foldl (\<lambda>h g. h @ signer_group_message g) h (signer_groups w)" for h
      unfolding w'_def visited_counts(4) foldl_map
      by (rule foldl_cong) (auto simp: visited_group_message [OF v])
    ultimately show ?thesis
      by (simp add: transaction_pow_preimage_def update_tx_pow_message_hasher_def pay pay'
          update_base_hasher_bytes base) (simp add: w'_def visited_counts(2))
  qed
  moreover have "tx_full_size_bytes tx' = tx_full_size_bytes tx"
    using visited_length [OF v w(1)] w(2)
    by (simp add: tx_full_size_bytes_def tx_base_size_bytes_def tx'_def w'_def)
  moreover have "signer_groups w' = map (\<lambda>(sig, key, refs). (sig, key, map v refs)) (signer_groups w)"
    by (simp add: w'_def visited_counts(4))
  ultimately show ?thesis
    using pay' base ins
    by (simp add: fin txid_base_bytes transaction_signing_digest_def signing_digest_def
        update_base_hasher_bytes v_def)
qed

lemma finalize_commitments:
  assumes wid: "digest_widths P"
  shows "txid P (finalize_witness_commit_refs P tx root) = txid P tx"
    and "witness_commitment_hash P (finalize_witness_commit_refs P tx root)
      = witness_commitment_hash P tx"
proof -
  have "txid P (finalize_witness_commit_refs P tx root) = txid P tx
      \<and> witness_commitment_hash P (finalize_witness_commit_refs P tx root)
        = witness_commitment_hash P tx"
  proof (cases "witness_payload tx")
    case None
    then show ?thesis by (simp add: finalize_witness_commit_refs_def)
  next
    case (Some w)
    from finalize_spec [OF wid this, of root] show ?thesis by (simp add: Let_def)
  qed
  then show "txid P (finalize_witness_commit_refs P tx root) = txid P tx"
    and "witness_commitment_hash P (finalize_witness_commit_refs P tx root)
      = witness_commitment_hash P tx" by simp_all
qed

text \<open>The witness root that the references are derived from is the one of the finalised block.\<close>

lemma finalize_witness_root:
  assumes "digest_widths P"
  shows "witness_root P (map (\<lambda>tx. finalize_witness_commit_refs P tx root) txs) = witness_root P txs"
  by (simp add: witness_root_def comp_def finalize_commitments [OF assms])

text \<open>C13: finalising the witness references of a transaction for a block changes nothing that was
  hashed, signed or mined: the identifier, the witness commitment, the message of the
  transaction's proof of work and the size stay; only the commitment references become those the
  block check expects.\<close>

theorem finalizing_keeps_commitments:
  assumes wid: "digest_widths P" and pay: "witness_payload tx = Some w"
  shows "(let tx' = finalize_witness_commit_refs P tx root in
    txid P tx' = txid P tx
    \<and> witness_commitment_hash P tx' = witness_commitment_hash P tx
    \<and> transaction_pow_preimage P n tx' = transaction_pow_preimage P n tx
    \<and> transaction_signing_digest P n tx' = transaction_signing_digest P n tx
    \<and> tx_full_size_bytes tx' = tx_full_size_bytes tx
    \<and> (\<exists>w'. witness_payload tx' = Some w' \<and> signer_groups w' = map (\<lambda>(sig, key, refs).
         (sig, key, map (\<lambda>r. r\<lparr>witness_commit_ref :=
            derive_witness_commit_ref P (txid P tx) root (input_index r)\<rparr>) refs)) (signer_groups w)))"
  using assms by (rule finalize_spec)

end
