(* ===== verification/Validation_Examples.thy ===== *)
theory Validation_Examples
  imports Validation
begin

text \<open>
  Concrete transactions and blocks that validation accepts, with digests that start with zeros
  and end with the length of the message. They show that the hypotheses of the validation
  theorems can be met.
\<close>

definition short_primitives :: primitives where
  "short_primitives = \<lparr>sha3_256 = (\<lambda>m. replicate 24 0 @ be_of_nat 8 (length m)),
     sha3_384 = (\<lambda>m. replicate 40 0 @ be_of_nat 8 (length m)),
     vk_decodes = (\<lambda>key. True),
     vk_verify = (\<lambda>key sig domain msg. hd sig = hd key + 1)\<rparr>"

lemma short_primitives_widths [simp]: "digest_widths short_primitives"
  by (simp add: short_primitives_def digest_widths_def)

definition payer_key :: bytes where "payer_key = replicate 897 1"
definition payer_signature :: bytes where "payer_signature = replicate 666 2"

definition payer_lock :: bytes where
  "payer_lock = public_key_digest short_primitives Testnet payer_key"

lemma length_payer_lock [simp]: "length payer_lock = 32"
  by (simp add: payer_lock_def public_key_digest_def role_digest_from_pubkey_def)

definition payment_witness :: tx_witness where
  "payment_witness = \<lparr>signature = payer_signature, pubkey = payer_key,
     input_refs = [\<lparr>input_index = 0, sig_ref_short = [0, 0], witness_commit_ref = replicate 16 0\<rparr>],
     additional_signers = []\<rparr>"

text \<open>Spends an output of 5000 atoms and leaves 1000 atoms as the fee.\<close>

definition payment :: transaction where
  "payment = \<lparr>tx_version = 1,
     inputs = [\<lparr>previous_txid = replicate 48 9, output_index = 0, unlocking_script = payer_lock\<rparr>],
     outputs = [\<lparr>value_atoms = 4000, locking_script = payer_lock\<rparr>], lock_time = 0,
     witness = witness_canonical_bytes payment_witness, tx_pow_nonce = 0, tx_pow_bits = 12\<rparr>"

definition funding :: utxo_entry where
  "funding = utxo_entry_new Testnet (replicate 48 9) 0 5000 payer_lock 3 False"

definition funded_set :: utxo_set where
  "funded_set = \<lparr>set_network = Testnet, set_entries = [(replicate 48 9, 0) \<mapsto> funding]\<rparr>"

lemma payment_witness_ok: "tx_witness_ok payment_witness"
  by (simp add: payment_witness_def tx_witness_ok_def total_input_refs_def input_ref_ok_def
      payer_signature_def payer_key_def)

lemma payment_payload: "witness_payload payment = Some payment_witness"
  by (simp add: payment_def witness_payload_def witness_bytes_nonempty
      witness_encoded_decodes [OF payment_witness_ok])

lemma payment_witness_size: "length (witness_canonical_bytes payment_witness) = 1601"
  by (simp add: witness_canonical_length [OF payment_witness_ok]) (simp add: payment_witness_def)

lemma payment_sizes:
  "tx_base_size_bytes payment = 146" "tx_full_size_bytes payment = 1762" "tx_vsize_bytes payment = 550"
  by (simp_all add: tx_base_size_bytes_def tx_full_size_bytes_def tx_vsize_bytes_def tx_weight_bytes_def
      usize_sat_add_def usize_sat_mul_def payment_witness_size payment_def)

lemma short_sig_ref: "derive_sig_ref_short short_primitives t sig i = [0, 0]"
  by (simp add: derive_sig_ref_short_def short_primitives_def nth_append)

lemma short_commit_ref: "derive_witness_commit_ref short_primitives t root i = replicate 16 0"
  by (simp add: derive_witness_commit_ref_def short_primitives_def)

lemma be_to_nat_leading_zeros: "be_to_nat (replicate k 0 @ bs) = be_to_nat bs"
  by (induction k) (simp_all add: be_to_nat_Cons)

lemma short_digest_small: "be_to_nat (sha3_256 short_primitives m) < 2 ^ 64"
  using be_to_nat_bound [of "be_of_nat 8 (length m)"]
  by (simp add: short_primitives_def be_to_nat_leading_zeros)

lemma short_pow: "12 \<le> leading_zero_bits (transaction_pow_hash short_primitives m k)"
proof -
  have "be_to_nat (sha3_256 short_primitives (m @ u64_be k)) < 2 ^ (256 - unat (12 :: byte))"
    by (rule less_le_trans [OF short_digest_small]) simp
  then show ?thesis by (simp add: transaction_pow_hash_def leading_zero_bits_iff)
qed

definition payment_prepared :: prepared_transaction where
  "payment_prepared = \<lparr>prep_txid = txid short_primitives payment,
     prep_signer_groups = [prepared_group (payer_signature, payer_key, input_refs payment_witness)],
     prep_group_by_input = [Some 0]\<rparr>"

lemma payment_minimum_fee: "minimum_required_fee_atoms Testnet payment = 550"
  by (simp add: minimum_required_fee_atoms_def payment_sizes sat_mul_def)

lemma version_one_supported: "is_supported_transaction_version_with_schedule 1 h SCHEDULED_ACTIVATIONS"
  using rules_default [of h]
  by (simp add: is_supported_transaction_version_with_schedule_def
      transaction_version_at_height_with_schedule_def rules_at_height_def ACTIVE_RULESET_V1_def)

lemma payment_lock_ok: "canonical_payment_lock payer_lock = Inr payer_lock"
  by (simp add: canonical_payment_lock_def payment_digest_from_locking_script_def)

lemma payment_claims:
  "claim_inputs short_primitives payment t payer_signature 0 (input_refs payment_witness) None [None]
     = Inr [Some 0]"
  by (simp add: payment_witness_def short_sig_ref payment_def)

lemma payment_prepares:
  assumes "550 \<le> fee"
  shows "prepare_transaction_validation short_primitives payment fee Testnet h SCHEDULED_ACTIVATIONS
    = Inr payment_prepared"
proof -
  have parts: "inputs payment = [\<lparr>previous_txid = replicate 48 9, output_index = 0,
      unlocking_script = payer_lock\<rparr>]" "outputs payment = [\<lparr>value_atoms = 4000, locking_script = payer_lock\<rparr>]"
    "tx_version payment = 1" by (simp_all add: payment_def)
  have groups: "signer_groups payment_witness
      = [(payer_signature, payer_key, input_refs payment_witness)]"
    "signer_group_count payment_witness = 1" "total_input_refs payment_witness = 1"
    "input_refs payment_witness \<noteq> []" "payer_signature \<noteq> []" "payer_key \<noteq> []"
    by (simp_all add: signer_groups_def payment_witness_def witness_is_empty_def
        signer_group_count_def total_input_refs_def payer_key_def payer_signature_def)
  have "\<not> fee < 550" using assms by simp
  then show ?thesis
    by (simp add: prepare_transaction_validation_def payment_payload payment_sizes parts groups
       is_coinbase_def payment_minimum_fee version_one_supported payment_lock_ok payment_claims
       maximum_standard_outputs_def minimum_output_amount_atoms_def payment_prepared_def
       prepared_group_def)
qed

lemma payer_lock_digest: "public_key_digest short_primitives Testnet payer_key = payer_lock"
  by (simp add: payer_lock_def)

lemma funding_spendable: "is_spendable_at funding 7"
  by (simp add: funding_def utxo_entry_new_def is_spendable_at_def required_confirmations_def
      confirmation_count_def CONSENSUS_PARAMS_def)

lemma payment_context:
  assumes look: "look (replicate 48 9) 0 = Some funding"
  shows "validate_transaction_with_context_common_and_schedule short_primitives payment
    payment_prepared Testnet 7 look schedule = Inr 1000"
proof -
  have "utxo_locking_script funding = payer_lock" "utxo_network funding = Testnet"
    "utxo_value_atoms funding = 5000" by (simp_all add: funding_def utxo_entry_new_def)
  with funding_spendable show ?thesis
    by (simp add: validate_transaction_with_context_common_and_schedule_def payment_def look
      check_input_def payment_lock_ok payment_prepared_def prepared_group_def payer_lock_digest
      checked_add_def checked_sub_def checked_output_value_atoms_def)
qed

lemma payment_pow: "check_tx_pow short_primitives Testnet payment fee = Inr ()"
  by (simp add: check_tx_pow_def required_tx_pow_bits_def transaction_pow_is_valid_for_bits_def
      is_coinbase_def short_pow) (simp add: payment_def)

lemma payment_signed: "verify_transaction_signature_prepared short_primitives payment n payment_prepared = Inr ()"
proof -
  have "group_signs short_primitives payment n (payer_signature, payer_key, input_refs payment_witness)"
    by (simp add: group_signs_def payer_signature_def payer_key_def short_primitives_def)
  then show ?thesis
    using verify_prepared_iff [of payment_prepared "[(payer_signature, payer_key, input_refs payment_witness)]"]
    by (simp add: payment_prepared_def)
qed

theorem accepted_transaction_is_funded_and_signed_witness:
  "validate_transaction_with_context_and_schedule short_primitives payment 1000 Testnet 7
     (utxo_get funded_set) SCHEDULED_ACTIVATIONS = Inr 1000
   \<and> input_values (utxo_get funded_set) (inputs payment) = output_values payment + 1000"
proof -
  have "utxo_get funded_set (replicate 48 9) 0 = Some funding"
    by (simp add: utxo_get_def funded_set_def)
  then have ctx: "validate_transaction_with_context_common_and_schedule short_primitives payment
    payment_prepared Testnet 7 (utxo_get funded_set) SCHEDULED_ACTIVATIONS = Inr 1000"
    by (rule payment_context [where look = "utxo_get funded_set"])
  have "validate_transaction_with_context_and_schedule short_primitives payment 1000 Testnet 7
     (utxo_get funded_set) SCHEDULED_ACTIVATIONS = Inr 1000"
    using payment_prepares [of 1000 7] ctx
    by (simp add: validate_transaction_with_context_and_schedule_def payment_signed payment_pow
       validate_transaction_with_context_exact_fee_prepared_and_schedule_def)
  with accepted_transaction_is_funded_and_signed [OF this] show ?thesis by simp
qed

section \<open>A block with the payment\<close>

definition payment_coinbase :: transaction where
  "payment_coinbase = \<lparr>tx_version = 1, inputs = [],
     outputs = [\<lparr>value_atoms = get_block_reward_atoms 7 + 1000, locking_script = payer_lock\<rparr>],
     lock_time = 7, witness = [], tx_pow_nonce = 0, tx_pow_bits = 0\<rparr>"

definition payment_header :: block_header where
  "payment_header = \<lparr>hdr_version = 1, network_id = Testnet, height = 7,
     previous_block_hash = replicate 48 0,
     hdr_merkle_root = merkle_root short_primitives [payment_coinbase, payment],
     hdr_witness_root = witness_root short_primitives [payment_coinbase, payment],
     founders_hash_sha3_384 = FOUNDERS_HASH_SHA3_384,
     founders_hash_sha3_512 = FOUNDERS_HASH_SHA3_512, timestamp = 1000,
     difficulty_target_or_bits = min_difficulty_target DIFFICULTY_PROFILE, nonce = 0\<rparr>"

definition payment_block :: block where
  "payment_block = default_block\<lparr>header := payment_header,
     transactions := [payment_coinbase, payment]\<rparr>"

lemma payment_block_parts [simp]:
  "transactions payment_block = [payment_coinbase, payment]"
  "header payment_block = payment_header"
  by (simp_all add: payment_block_def)

lemma payment_coinbase_size:
  "tx_base_size_bytes payment_coinbase = 58" "tx_full_size_bytes payment_coinbase = 73"
  by (simp_all add: payment_coinbase_def tx_base_size_bytes_def tx_full_size_bytes_def)

lemma payment_txids_differ:
  "txid short_primitives payment_coinbase \<noteq> txid short_primitives payment"
  "txid short_primitives payment_coinbase \<noteq> replicate 48 9"
  "txid short_primitives payment \<noteq> replicate 48 9"
proof -
  have "length (tx_base_bytes payment_coinbase) = 58" "length (tx_base_bytes payment) = 146"
    using base_size_is_length [of payment_coinbase] base_size_is_length [of payment]
      payment_coinbase_size payment_sizes by (simp_all add: payment_coinbase_def payment_def)
  moreover have "be_to_nat (be_of_nat 8 58) \<noteq> be_to_nat (be_of_nat 8 146)"
    by (simp add: be_to_nat_of_nat)
  then have "be_of_nat 8 58 \<noteq> be_of_nat 8 146" by auto
  ultimately show "txid short_primitives payment_coinbase \<noteq> txid short_primitives payment"
    by (simp add: txid_base_bytes short_primitives_def)
  have zero: "hd (txid short_primitives tx) = 0" for tx
    by (simp add: txid_base_bytes short_primitives_def)
  show "txid short_primitives payment_coinbase \<noteq> replicate 48 9"
    "txid short_primitives payment \<noteq> replicate 48 9"
    by (rule notI, drule arg_cong [where f = hd], simp add: zero)+
qed

lemma payment_header_hash:
  "meets_target (block_hash short_primitives payment_header)
     (min_difficulty_target DIFFICULTY_PROFILE)"
proof -
  have "length (layer_root short_primitives [a, b]) = 48" for a b
    by (subst layer_root.simps, simp) (subst layer_root.simps, simp)
  then have ok: "header_ok payment_header"
    by (simp add: header_ok_def payment_header_def length_founders_hashes profile_targets
        merkle_root_def witness_root_def)
  let ?d = "sha3_384 short_primitives (header_canonical_bytes payment_header)"
  have "be_to_nat ?d < 2 ^ 64"
    using be_to_nat_bound [of "be_of_nat 8 (length (header_canonical_bytes payment_header))"]
    by (simp add: short_primitives_def be_to_nat_leading_zeros)
  moreover have "(2 :: nat) ^ 64 \<le> HI" by simp
  ultimately have "be_to_nat ?d \<le> HI" by linarith
  then show ?thesis
    unfolding meets_target_def block_hash_canonical [OF ok]
    by (subst lex_le_iff_be) (simp_all only: profile_targets length_sha3_384 short_primitives_widths)
qed

lemma payment_block_metrics:
  "size_metrics payment_block = \<lparr>base_size_bytes = 547, raw_size_bytes = 2178,
     weight_bytes = 3819, vsize_bytes = 955\<rparr>"
proof -
  have add: "usize_sat_add a b = a + b" if "a + b < 10000" for a b
    using that by (simp add: usize_sat_add_def)
  have mul: "usize_sat_mul a 3 = a * 3" if "a < 10000" for a
    using that by (simp add: usize_sat_mul_def)
  show ?thesis
    unfolding size_metrics_def payment_block_parts foldl_Cons foldl_Nil prod.case Let_def
      payment_sizes payment_coinbase_size
    by (simp add: add mul)
qed

lemma payment_block_small: "validate_block_size_metrics payment_block = Inr ()"
  by (simp add: validate_block_size_metrics_def payment_block_metrics)

lemma easiest_target_in_bounds: "target_within_bounds (min_difficulty_target DIFFICULTY_PROFILE)"
proof -
  have "(LO :: nat) \<le> HI" by simp
  then have "max_difficulty_target DIFFICULTY_PROFILE \<le> min_difficulty_target DIFFICULTY_PROFILE"
    by (subst lex_le_iff_be) (simp_all only: profile_targets)
  then show ?thesis unfolding target_within_bounds_def by blast
qed

lemma payment_static:
  "validate_block_static_header_precheck_with_schedule payment_block 7 Testnet SCHEDULED_ACTIVATIONS
     = Inr ()"
proof -
  have "is_supported_block_version_with_schedule 1 7 SCHEDULED_ACTIVATIONS"
    using rules_default [of 7]
    by (simp add: is_supported_block_version_with_schedule_def
        block_version_at_height_with_schedule_def rules_at_height_def ACTIVE_RULESET_V1_def)
  moreover have "hdr_version payment_header = 1" "network_id payment_header = Testnet"
    "height payment_header = 7" "timestamp payment_header = 1000"
    "difficulty_target_or_bits payment_header = min_difficulty_target DIFFICULTY_PROFILE"
    by (simp_all add: payment_header_def)
  ultimately show ?thesis
    by (simp add: validate_block_static_header_precheck_with_schedule_def payment_block_small
        validate_block_common_header_with_schedule_def easiest_target_in_bounds)
qed

lemma payment_header_context:
  "validate_contextual_header_precheck short_primitives 1000 payment_block (replicate 48 0)
     (min_difficulty_target DIFFICULTY_PROFILE) [] = Inr ()"
  using payment_header_hash
  by (simp add: validate_contextual_header_precheck_def minimum_next_block_timestamp_def
      median_time_past_from_blocks_def) (simp add: payment_header_def sat_add_def)

lemma payment_commitments: "validate_block_body_commitments short_primitives payment_block = Inr ()"
  by (simp add: validate_block_body_commitments_def payment_header_def)

lemma payment_coinbase_shape:
  "validate_coinbase_transaction_shape_with_schedule payment_coinbase 7 SCHEDULED_ACTIVATIONS = Inr ()"
  by (simp add: validate_coinbase_transaction_shape_with_schedule_def payment_coinbase_def
      is_coinbase_def version_one_supported payment_lock_ok)

lemma payment_collect:
  "collect_prepared_block_transactions_with_schedule short_primitives payment_block 7 Testnet
     SCHEDULED_ACTIVATIONS = Inr [payment_prepared]"
  using payment_txids_differ(1)
  by (simp add: collect_prepared_block_transactions_with_schedule_def payment_coinbase_shape
      txids_are_unique_def block_inputs_are_unique_def payment_prepares payment_minimum_fee)
    (simp add: payment_coinbase_def payment_def)

lemma payment_outputs: "outputs payment = [\<lparr>value_atoms = 4000, locking_script = payer_lock\<rparr>]"
  by (simp add: payment_def)

lemma payment_step:
  "\<exists>seen ov. validate_block_transaction short_primitives Testnet 7 root SCHEDULED_ACTIVATIONS
     (payment, payment_prepared) ({}, overlay_new funded_set, 0) = Inr (seen, ov, 1000)"
proof -
  let ?ov = "overlay_new funded_set"
  have "overlay_get ?ov (replicate 48 9) 0 = Some funding"
    by (simp add: overlay_get_def overlay_new_def utxo_get_def funded_set_def)
  then have ctx: "validate_transaction_with_context_common_and_schedule short_primitives payment
      payment_prepared Testnet 7 (overlay_get ?ov) SCHEDULED_ACTIVATIONS = Inr 1000"
    by (rule payment_context [where look = "overlay_get ?ov"])
  have refs: "check_commit_refs short_primitives t root payment_prepared = Inr ()" for t
    by (simp add: check_commit_refs_def rfold_unit_iff payment_prepared_def prepared_group_def
        payment_witness_def short_commit_ref)
  obtain seen ov where sp: "overlay_spend (inputs payment) ({}, ?ov) = Inr (seen, ov)"
    and ov: "ov = ?ov\<lparr>ov_removed := {(replicate 48 9, 0)}\<rparr>"
    by (simp add: payment_def overlay_remove_def overlay_new_def utxo_get_def funded_set_def)
  have "\<exists>ov'. overlay_create (map (\<lambda>(i, out). utxo_entry_new Testnet (prep_txid payment_prepared)
      (of_nat i) (value_atoms out) (locking_script out) 7 False) (enumerate 0 (outputs payment))) ov
      = Inr ov'"
    using payment_txids_differ(3)
    by (simp add: ov payment_outputs payment_prepared_def overlay_insert_def overlay_new_def
        funded_set_def utxo_get_def entry_key_def utxo_entry_new_def)
  then show ?thesis
    by (auto simp: validate_block_transaction_def ctx refs sp payment_pow payment_minimum_fee
        validate_transaction_with_context_minimum_fee_prepared_and_schedule_def checked_add_def)
qed

lemma payment_block_valid:
  "validate_block_with_context short_primitives 1000 payment_block 7 Testnet (replicate 48 0)
     (min_difficulty_target DIFFICULTY_PROFILE) [] funded_set = Inr ()"
proof -
  obtain seen ov where st: "validate_block_transaction short_primitives Testnet 7
      (hdr_witness_root payment_header) SCHEDULED_ACTIVATIONS (payment, payment_prepared)
      ({}, overlay_new funded_set, 0) = Inr (seen, ov, 1000)" using payment_step by blast
  have reward: "checked_add (block_subsidy_atoms_for_network Testnet 7) 1000
      = Some (get_block_reward_atoms 7 + 1000)"
    by (simp add: block_subsidy_atoms_for_network_def get_block_reward_atoms_def checked_add_def)
  have cb: "validate_coinbase_transaction_with_schedule payment_coinbase
      (get_block_reward_atoms 7 + 1000) 7 SCHEDULED_ACTIVATIONS = Inr ()"
    by (simp add: validate_coinbase_transaction_with_schedule_def payment_coinbase_shape
        checked_output_value_atoms_def checked_add_def)
      (simp add: payment_coinbase_def checked_add_def u64_unat_bound)
  show ?thesis
    by (simp add: validate_block_with_context_def validate_block_with_context_and_schedule_def
        payment_static payment_header_context payment_commitments payment_collect st reward cb
        verify_transaction_signatures_parallel_prepared_def payment_signed)
qed


theorem finalizing_keeps_commitments_witness:
  "(let tx' = finalize_witness_commit_refs short_primitives payment (replicate 48 3)
    in txid short_primitives tx' = txid short_primitives payment
       \<and> tx_full_size_bytes tx' = 1762)"
  using finalizing_keeps_commitments [OF short_primitives_widths payment_payload, of "replicate 48 3"]
  by (simp add: Let_def payment_sizes)

end
