(* ===== verification/Block_Files.thy ===== *)
theory Block_Files
  imports Utxo "HOL-Library.AList"
begin

text \<open>
  The flat-file archive of raw blocks (\<^verbatim>\<open>crates/atho-storage/src/block_files.rs\<close>). A record is
  the network magic, the payload length and the canonical block bytes; records are appended to
  numbered files. The directory is an association list from file numbers to contents. The two
  input/output errors that the code tells apart, a missing file and a short read, are determined
  by the contents; other failures of the operating system are not modelled.

  Lengths and offsets of files stay words of 64 bits where the code computes with them; the repair
  loop compares them with the length of the file before it adds, and its offsets are naturals.
\<close>

section \<open>Locations and files\<close>

definition BLOCK_FILE_ROTATE_BYTES :: u64 where
  "BLOCK_FILE_ROTATE_BYTES = 128 * 1024 * 1024"

definition BLOCK_FILE_RECORD_OVERHEAD_BYTES :: u64 where [simp]:
  "BLOCK_FILE_RECORD_OVERHEAD_BYTES = 8"

definition MAX_BLOCK_SERIALIZED_BYTES :: usize where
  "MAX_BLOCK_SERIALIZED_BYTES = MAX_BLOCK_RAW_BYTES"

record block_file_location =
  file_number :: u64
  record_offset :: u64
  payload_length :: u32

definition payload_offset :: "block_file_location \<Rightarrow> u64" where
  "payload_offset l = record_offset l + BLOCK_FILE_RECORD_OVERHEAD_BYTES"

definition record_length :: "block_file_location \<Rightarrow> u64" where
  "record_length l = BLOCK_FILE_RECORD_OVERHEAD_BYTES + ucast (payload_length l)"

record block_file_store =
  store_network :: network
  store_files :: "(u64 \<times> bytes) list"

definition file_content :: "block_file_store \<Rightarrow> u64 \<Rightarrow> bytes option" where
  "file_content s n = map_of (store_files s) n"

text \<open>\<open>metadata().len()\<close>, zero for a file that does not exist.\<close>

definition file_len :: "block_file_store \<Rightarrow> u64 \<Rightarrow> u64" where
  "file_len s n = (case file_content s n of None \<Rightarrow> 0 | Some c \<Rightarrow> of_nat (length c))"

definition highest_file_number :: "block_file_store \<Rightarrow> u64 option" where
  "highest_file_number s =
     fold (\<lambda>n highest. Some (case highest of None \<Rightarrow> n | Some current \<Rightarrow> max current n))
       (map fst (store_files s)) None"

definition existing_file_numbers :: "block_file_store \<Rightarrow> u64 list" where
  "existing_file_numbers s = sort (map fst (store_files s))"

definition delete_file :: "block_file_store \<Rightarrow> u64 \<Rightarrow> block_file_store" where
  "delete_file s n = s\<lparr>store_files := AList.delete n (store_files s)\<rparr>"

definition store_reset :: "block_file_store \<Rightarrow> block_file_store" where
  "store_reset s = s\<lparr>store_files := []\<rparr>"

section \<open>Appending\<close>

definition block_record :: "network \<Rightarrow> bytes \<Rightarrow> bytes" where
  "block_record n payload = p2p_magic n @ u32_le (of_nat (length payload)) @ payload"

text \<open>Opening with \<open>create\<close> and \<open>append\<close>, then writing one record at the end.\<close>

definition write_record :: "block_file_store \<Rightarrow> u64 \<Rightarrow> bytes \<Rightarrow> block_file_store" where
  "write_record s n payload = s\<lparr>store_files := AList.update n
     ((case file_content s n of None \<Rightarrow> [] | Some c \<Rightarrow> c) @ block_record (store_network s) payload)
     (store_files s)\<rparr>"

definition rotates :: "u64 \<Rightarrow> u64 \<Rightarrow> bool" where
  "rotates offset len \<longleftrightarrow> offset > 0 \<and> sat_add offset len > BLOCK_FILE_ROTATE_BYTES"

definition append_block_with_minimum_file_number ::
  "block_file_store \<Rightarrow> block \<Rightarrow> u64 option
     \<Rightarrow> block_file_store \<times> (storage_error + block_file_location)" where
  "append_block_with_minimum_file_number s b minimum_file_number =
     (let payload = block_full_bytes b
      in if length payload \<ge> u32_bound \<or> length payload = 0
            \<or> length payload > MAX_BLOCK_SERIALIZED_BYTES
         then (s, Inl CorruptData)
         else
           let len = of_nat (length payload);
               record_len = BLOCK_FILE_RECORD_OVERHEAD_BYTES + of_nat (length payload);
               minimum = (case minimum_file_number of None \<Rightarrow> 0 | Some m \<Rightarrow> m);
               number = max (case highest_file_number s of None \<Rightarrow> minimum | Some h \<Rightarrow> h) minimum;
               number = (if rotates (file_len s number) record_len then sat_add number 1 else number);
               offset = file_len s number
           in if rotates offset record_len
              then (write_record s (sat_add number 1) payload,
                    Inr \<lparr>file_number = sat_add number 1, record_offset = 0, payload_length = len\<rparr>)
              else (write_record s number payload,
                    Inr \<lparr>file_number = number, record_offset = offset, payload_length = len\<rparr>))"

definition store_append_block ::
  "block_file_store \<Rightarrow> block \<Rightarrow> block_file_store \<times> (storage_error + block_file_location)" where
  "store_append_block s b = append_block_with_minimum_file_number s b None"

section \<open>Reading\<close>

text \<open>\<open>read_exact\<close> of \<open>n\<close> bytes after a seek.\<close>

definition read_exact :: "bytes \<Rightarrow> nat \<Rightarrow> nat \<Rightarrow> storage_error + bytes" where
  "read_exact content offset n =
     (if offset + n \<le> length content then Inr (take n (drop offset content))
      else Inl (Io UnexpectedEof))"

definition read_archived_block ::
  "primitives \<Rightarrow> block_file_store \<Rightarrow> block_file_location \<Rightarrow> storage_error + block" where
  "read_archived_block P s l =
     rbind (ok_or (Io NotFound) (file_content s (file_number l)))
       (\<lambda>content. rbind (read_exact content (unat (record_offset l)) 8)
       (\<lambda>wrapper.
          if take 4 wrapper \<noteq> p2p_magic (store_network s) then Inl CrossNetworkReplay
          else let len = word_of_nat (le_to_nat (drop 4 wrapper)) :: u32
            in if len \<noteq> payload_length l \<or> unat len > MAX_BLOCK_SERIALIZED_BYTES then Inl CorruptData
               else rbind (read_exact content (unat (record_offset l) + 8) (unat len))
                 (\<lambda>payload. rbind (ok_or CorruptData (block_from_canonical_bytes P payload))
                 (\<lambda>b. if network_id (header b) \<noteq> store_network s then Inl CrossNetworkReplay
                       else Inr b))))"

section \<open>Repair of the last file\<close>

text \<open>The \<open>while\<close> loop with its \<open>last_good\<close> offset; the result is the length the file gets.\<close>

function repair_scan :: "primitives \<Rightarrow> network \<Rightarrow> bytes \<Rightarrow> nat \<Rightarrow> nat \<Rightarrow> nat" where
  "repair_scan P n content offset last_good =
     (if offset < length content then
        let remaining = length content - offset
        in if remaining < 8 then last_good
           else
             let wrapper = take 8 (drop offset content);
                 len = unat (word_of_nat (le_to_nat (drop 4 wrapper)) :: u32)
             in if take 4 wrapper \<noteq> p2p_magic n \<or> len = 0 \<or> len > MAX_BLOCK_SERIALIZED_BYTES
                  \<or> remaining < 8 + len
                then last_good
                else case block_from_canonical_bytes P (take len (drop (offset + 8) content)) of
                       None \<Rightarrow> last_good
                     | Some b \<Rightarrow> if network_id (header b) \<noteq> n then last_good
                                else repair_scan P n content (offset + 8 + len) (offset + 8 + len)
      else length content)"
  by auto
termination by (relation "measure (\<lambda>(P, n, content, offset, g). length content - offset)") auto

declare repair_scan.simps [simp del]

definition repair_last_file_tail :: "primitives \<Rightarrow> block_file_store \<Rightarrow> block_file_store" where
  "repair_last_file_tail P s =
     (case highest_file_number s of
        None \<Rightarrow> s
      | Some n \<Rightarrow> s\<lparr>store_files := AList.update n
          (let content = the (file_content s n)
           in take (repair_scan P (store_network s) content 0 0) content) (store_files s)\<rparr>)"

section \<open>Lemmas\<close>

definition archivable :: "network \<Rightarrow> block \<Rightarrow> bool" where
  "archivable n b \<longleftrightarrow> header_ok (header b) \<and> length (transactions b) < u32_bound
     \<and> list_all tx_entry_ok (transactions b) \<and> network_id (header b) = n
     \<and> length (block_full_bytes b) \<le> MAX_BLOCK_SERIALIZED_BYTES"

text \<open>What the archive keeps of a block: the witness table is derived, the fee totals are not part
  of the bytes.\<close>

definition archived :: "primitives \<Rightarrow> block \<Rightarrow> block" where
  "archived P b = block_new P (header b) (transactions b)"

definition store_ok :: "block_file_store \<Rightarrow> bool" where
  "store_ok s \<longleftrightarrow> (\<forall>n c. file_content s n = Some c \<longrightarrow> length c + 2 ^ 32 < u64_bound \<and> n \<noteq> - 1)"

lemma block_full_bytes_nonempty:
  assumes "header_ok (header b)"
  shows "0 < length (block_full_bytes b)"
  using length_header_bytes(1) [OF assms] by (simp add: block_full_bytes_def)

lemma archived_decodes:
  assumes "archivable n b"
  shows "block_from_canonical_bytes P (block_full_bytes b) = Some (archived P b)"
proof -
  have "length (block_full_bytes b) < u64_bound"
    using assms by (simp add: archivable_def MAX_BLOCK_SERIALIZED_BYTES_def)
  moreover have "block_full_bytes b = block_full_bytes (archived P b)"
    by (simp add: archived_def block_full_bytes_def block_new_def)
  ultimately show ?thesis
    using assms unfolding block_decoded [OF \<open>length (block_full_bytes b) < u64_bound\<close>]
    by (auto simp: archivable_def archived_def)
qed

lemma archived_header [simp]:
  "header (archived P b) = header b" "transactions (archived P b) = transactions b"
  by (simp_all add: archived_def block_new_def)

lemma payload_bounds:
  assumes "archivable n b"
  shows "0 < length (block_full_bytes b)" and "length (block_full_bytes b) \<le> 12000000"
    and "unat (of_nat (length (block_full_bytes b)) :: u32) = length (block_full_bytes b)"
    and "unat (of_nat (length (block_full_bytes b)) :: u64) = length (block_full_bytes b)"
proof -
  show l: "length (block_full_bytes b) \<le> 12000000"
    using assms by (simp add: archivable_def MAX_BLOCK_SERIALIZED_BYTES_def)
  show "0 < length (block_full_bytes b)"
    using assms block_full_bytes_nonempty unfolding archivable_def by blast
  show "unat (of_nat (length (block_full_bytes b)) :: u32) = length (block_full_bytes b)"
    using l by (simp add: unsigned_of_nat take_bit_nat_eq_self_iff)
  show "unat (of_nat (length (block_full_bytes b)) :: u64) = length (block_full_bytes b)"
    using l by (simp add: unsigned_of_nat take_bit_nat_eq_self_iff)
qed

lemma le_to_nat_u32 [simp]: "(word_of_nat (le_to_nat (u32_le v)) :: u32) = v"
  using unat_lt2p [of v] by (simp add: u32_le_def le_to_nat_of_nat)

lemma length_block_record [simp]: "length (block_record n p) = 8 + length p"
  by (simp add: block_record_def)

text \<open>A record in the middle of a file, read back.\<close>

lemma record_header:
  "take 8 (block_record n p @ post) = p2p_magic n @ u32_le (of_nat (length p))"
  "drop 8 (block_record n p @ post) = p @ post"
  by (simp_all add: block_record_def)

lemma record_in_file:
  assumes "content = pre @ block_record n p @ post"
  shows "take 8 (drop (length pre) content) = p2p_magic n @ u32_le (of_nat (length p))"
    and "take (length p) (drop (length pre + 8) content) = p"
    and "length content = length pre + 8 + length p + length post"
proof -
  have d: "drop (length pre) content = block_record n p @ post" by (simp add: assms)
  show "take 8 (drop (length pre) content) = p2p_magic n @ u32_le (of_nat (length p))"
    unfolding d by (rule record_header)
  have "drop (length pre + 8) content = drop 8 (drop (length pre) content)"
    by (simp add: add.commute)
  then have "drop (length pre + 8) content = p @ post" unfolding d record_header .
  then show "take (length p) (drop (length pre + 8) content) = p" by simp
  show "length content = length pre + 8 + length p + length post" by (simp add: assms)
qed

lemma read_appended:
  assumes c: "file_content s num = Some content"
    and at: "content = pre @ block_record (store_network s) (block_full_bytes b) @ post"
    and off: "unat off = length pre" and ok: "archivable (store_network s) b"
  shows "read_archived_block P s \<lparr>file_number = num, record_offset = off,
     payload_length = of_nat (length (block_full_bytes b))\<rparr> = Inr (archived P b)"
  using payload_bounds [OF ok] ok archived_decodes [OF ok, of P] record_in_file [OF at]
  unfolding read_archived_block_def
  by (simp add: c off read_exact_def Let_def MAX_BLOCK_SERIALIZED_BYTES_def archivable_def)

lemma highest_fold:
  "fold (\<lambda>n highest. Some (case highest of None \<Rightarrow> n | Some current \<Rightarrow> max current n)) xs (Some m)
     = Some (fold max xs m)" for m :: "'a::linorder"
proof (induction xs arbitrary: m)
  case (Cons x xs)
  then show ?case by (simp add: max.commute [of m x])
qed simp

lemma highest_file_number_None: "highest_file_number s = None \<longleftrightarrow> store_files s = []"
  by (cases "store_files s") (simp_all add: highest_file_number_def highest_fold)

lemma fold_max_Max: "fold max xs (m :: u64) = Max (insert m (set xs))"
  by (metis Max.set_eq_fold list.simps(15))

lemma highest_file_number_Max:
  "store_files s \<noteq> [] \<Longrightarrow> highest_file_number s = Some (Max (fst ` set (store_files s)))"
  by (cases "store_files s") (simp_all add: highest_file_number_def highest_fold fold_max_Max)

lemma highest_file_number_Some:
  assumes "highest_file_number s = Some n"
  shows "file_content s n \<noteq> None" and "file_content s m \<noteq> None \<Longrightarrow> m \<le> n"
proof -
  have ne: "store_files s \<noteq> []" using assms highest_file_number_None [of s] by auto
  then have n: "n = Max (fst ` set (store_files s))" using assms highest_file_number_Max by simp
  have "n \<in> fst ` set (store_files s)" unfolding n using ne by (intro Max_in) auto
  then show "file_content s n \<noteq> None" by (simp add: file_content_def map_of_eq_None_iff)
  assume "file_content s m \<noteq> None"
  then have "m \<in> fst ` set (store_files s)" by (simp add: file_content_def map_of_eq_None_iff)
  then show "m \<le> n" unfolding n by simp
qed

lemma write_record_content:
  "file_content (write_record s n p) m = (if m = n
     then Some ((case file_content s n of None \<Rightarrow> [] | Some c \<Rightarrow> c) @ block_record (store_network s) p)
     else file_content s m)"
  by (simp add: file_content_def write_record_def update_conv')

lemma write_record_network [simp]: "store_network (write_record s n p) = store_network s"
  by (simp add: write_record_def)

text \<open>Appending to a file keeps everything that could be read before.\<close>

lemma read_exact_append:
  "read_exact c off n = Inr bs \<Longrightarrow> read_exact (c @ d) off n = Inr bs"
  by (auto simp: read_exact_def split: if_splits)

lemma read_archived_block_iff:
  "read_archived_block P s l = Inr b \<longleftrightarrow> (\<exists>content wrapper payload.
     file_content s (file_number l) = Some content
     \<and> read_exact content (unat (record_offset l)) 8 = Inr wrapper
     \<and> take 4 wrapper = p2p_magic (store_network s)
     \<and> word_of_nat (le_to_nat (drop 4 wrapper)) = payload_length l
     \<and> unat (payload_length l) \<le> MAX_BLOCK_SERIALIZED_BYTES
     \<and> read_exact content (unat (record_offset l) + 8) (unat (payload_length l)) = Inr payload
     \<and> block_from_canonical_bytes P payload = Some b \<and> network_id (header b) = store_network s)"
    (is "?l \<longleftrightarrow> ?r")
proof
  assume ?l
  then show ?r unfolding read_archived_block_def Let_def by (auto split: if_splits)
next
  assume ?r
  then show ?l unfolding read_archived_block_def Let_def by (elim exE conjE) simp
qed

lemma read_after_write:
  assumes "read_archived_block P s l = Inr b"
  shows "read_archived_block P (write_record s n p) l = Inr b"
proof -
  from assms obtain content wrapper payload where c: "file_content s (file_number l) = Some content"
    and w: "read_exact content (unat (record_offset l)) 8 = Inr wrapper"
    and pl: "read_exact content (unat (record_offset l) + 8) (unat (payload_length l)) = Inr payload"
    and rest: "take 4 wrapper = p2p_magic (store_network s)"
      "word_of_nat (le_to_nat (drop 4 wrapper)) = payload_length l"
      "unat (payload_length l) \<le> MAX_BLOCK_SERIALIZED_BYTES"
      "block_from_canonical_bytes P payload = Some b" "network_id (header b) = store_network s"
    unfolding read_archived_block_iff by blast
  obtain d where "file_content (write_record s n p) (file_number l) = Some (content @ d)"
    by (cases "file_number l = n") (auto simp: write_record_content c)
  with read_exact_append [OF w, of d] read_exact_append [OF pl, of d] rest show ?thesis
    unfolding read_archived_block_iff write_record_network by blast
qed

text \<open>The file that an append writes to never needs a second rotation.\<close>

lemma no_second_rotation:
  assumes top: "\<And>m. file_content s m \<noteq> None \<Longrightarrow> m \<le> number" and lim: "number \<noteq> - 1"
    and number': "number' = (if rotates (file_len s number) len then sat_add number 1 else number)"
  shows "\<not> rotates (file_len s number') len"
proof (cases "rotates (file_len s number) len")
  case True
  have "unat number + 1 < 2 ^ 64"
  proof (rule ccontr)
    assume "\<not> unat number + 1 < 2 ^ 64"
    then have "unat number = unat (- 1 :: u64)" using unat_lt2p [of number] by (simp add: unat_max_word)
    with lim show False by (simp only: word_unat_eq_iff)
  qed
  then have "unat (sat_add number 1) = unat number + 1" by (simp add: unat_sat_add)
  then have "\<not> sat_add number 1 \<le> number" by (simp add: word_le_nat_alt)
  with top have "file_content s (sat_add number 1) = None" by blast
  with True show ?thesis by (simp add: number' file_len_def rotates_def)
qed (simp add: number')

lemma file_len_content:
  assumes "store_ok s"
  shows "unat (file_len s n) = length (case file_content s n of None \<Rightarrow> [] | Some c \<Rightarrow> c)"
proof (cases "file_content s n")
  case (Some c)
  then have "length c + 2 ^ 32 < u64_bound" using assms unfolding store_ok_def by blast
  with Some show ?thesis by (simp add: file_len_def unsigned_of_nat take_bit_nat_eq_self_iff)
qed (simp add: file_len_def)

lemma append_writes_one_record:
  assumes ok: "store_ok s" and b: "archivable (store_network s) b" and lim: "minimum \<noteq> Some (- 1)"
  obtains num where "append_block_with_minimum_file_number s b minimum =
    (write_record s num (block_full_bytes b),
     Inr \<lparr>file_number = num, record_offset = file_len s num,
       payload_length = of_nat (length (block_full_bytes b))\<rparr>)"
proof -
  define m where "m = (case minimum of None \<Rightarrow> 0 | Some m \<Rightarrow> m)"
  define number where "number = max (case highest_file_number s of None \<Rightarrow> m | Some h \<Rightarrow> h) m"
  define len :: u64 where "len = BLOCK_FILE_RECORD_OVERHEAD_BYTES + of_nat (length (block_full_bytes b))"
  define num where "num = (if rotates (file_len s number) len then sat_add number 1 else number)"
  have m: "m \<noteq> - 1" using lim by (cases minimum) (simp_all add: m_def)
  have h: "h \<noteq> - 1" if "highest_file_number s = Some h" for h
    using highest_file_number_Some(1) [OF that] ok unfolding store_ok_def by blast
  have "number \<noteq> - 1" using m h by (auto simp: number_def max_def split: option.splits)
  moreover have "k \<le> number" if "file_content s k \<noteq> None" for k
  proof (cases "highest_file_number s")
    case None
    with that show ?thesis by (simp add: highest_file_number_None file_content_def)
  next
    case (Some h)
    with highest_file_number_Some(2) [OF Some that] show ?thesis by (simp add: number_def le_max_iff_disj)
  qed
  ultimately have "\<not> rotates (file_len s num) len"
    by (intro no_second_rotation [OF _ _ num_def])
  then have "append_block_with_minimum_file_number s b minimum =
    (write_record s num (block_full_bytes b),
     Inr \<lparr>file_number = num, record_offset = file_len s num,
       payload_length = of_nat (length (block_full_bytes b))\<rparr>)"
    using payload_bounds(1,2) [OF b]
    unfolding append_block_with_minimum_file_number_def Let_def m_def [symmetric]
      number_def [symmetric] len_def [symmetric] num_def [symmetric]
    by (simp add: MAX_BLOCK_SERIALIZED_BYTES_def)
  with that show thesis .
qed

lemma archive_roundtrip_parts:
  assumes ok: "store_ok s" and b: "archivable (store_network s) b" and lim: "minimum \<noteq> Some (- 1)"
  shows "\<exists>s' l. append_block_with_minimum_file_number s b minimum = (s', Inr l)
    \<and> read_archived_block P s' l = Inr (archived P b)
    \<and> (\<forall>l' b'. read_archived_block P s l' = Inr b' \<longrightarrow> read_archived_block P s' l' = Inr b')"
proof -
  from append_writes_one_record [OF assms] obtain num where
    app: "append_block_with_minimum_file_number s b minimum =
      (write_record s num (block_full_bytes b),
       Inr \<lparr>file_number = num, record_offset = file_len s num,
         payload_length = of_nat (length (block_full_bytes b))\<rparr>)" .
  let ?c = "case file_content s num of None \<Rightarrow> [] | Some c \<Rightarrow> c"
  let ?s = "write_record s num (block_full_bytes b)"
  have "read_archived_block P ?s \<lparr>file_number = num, record_offset = file_len s num,
      payload_length = of_nat (length (block_full_bytes b))\<rparr> = Inr (archived P b)"
    by (rule read_appended [where pre = ?c and post = "[]"])
      (use b file_len_content [OF ok] in \<open>simp_all add: write_record_content\<close>)
  then show ?thesis using app read_after_write by blast
qed

section \<open>Properties\<close>

text \<open>C24: An archived block is read back from the location the append returns, as the block that
  \<open>Block::new\<close> builds from its header and transactions, and every block that could be read before
  the append can still be read. The files must be short of the 64-bit limits.\<close>

theorem archive_append_read_roundtrip:
  assumes ok: "store_ok s" and b: "archivable (store_network s) b" and lim: "minimum \<noteq> Some (- 1)"
  shows "\<exists>s' l. append_block_with_minimum_file_number s b minimum = (s', Inr l)
    \<and> read_archived_block P s' l = Inr (archived P b)
    \<and> (\<forall>l' b'. read_archived_block P s l' = Inr b' \<longrightarrow> read_archived_block P s' l' = Inr b')"
  by (rule archive_roundtrip_parts [OF assms])

text \<open>One step of the repair loop over a complete record, and the end of the loop at a torn one.\<close>

lemma repair_scan_record:
  assumes at: "content = pre @ block_record n (block_full_bytes b) @ post" and ok: "archivable n b"
  shows "repair_scan P n content (length pre) g
    = repair_scan P n content (length pre + 8 + length (block_full_bytes b))
        (length pre + 8 + length (block_full_bytes b))"
  using payload_bounds [OF ok] ok archived_decodes [OF ok, of P] record_in_file [OF at]
  by (subst repair_scan.simps) (simp add: Let_def MAX_BLOCK_SERIALIZED_BYTES_def archivable_def)

lemma repair_scan_torn:
  assumes at: "content = pre @ take k (block_record n (block_full_bytes b))" and ok: "archivable n b"
    and k: "k < 8 + length (block_full_bytes b)"
  shows "repair_scan P n content (length pre) (length pre) = length pre"
proof (cases "k < 8")
  case True
  then have "length content - length pre < 8" by (simp add: at)
  then show ?thesis by (subst repair_scan.simps) (auto simp: Let_def at)
next
  case False
  let ?r = "block_record n (block_full_bytes b)"
  have d: "drop (length pre) content = take k ?r" by (simp add: at)
  have "take 8 (take k ?r) = p2p_magic n @ u32_le (of_nat (length (block_full_bytes b)))"
    using False record_header(1) [of n "block_full_bytes b" "[]"] by simp
  moreover have "length content = length pre + k" using k by (simp add: at)
  ultimately show ?thesis using False k payload_bounds [OF ok]
    by (subst repair_scan.simps) (simp add: Let_def d del: take_take)
qed

lemma repair_scan_records:
  assumes "content = pre @ concat (map (\<lambda>b. block_record n (block_full_bytes b)) bs)
      @ take k (block_record n (block_full_bytes b))"
    and "list_all (archivable n) bs" and "archivable n b" and "k < 8 + length (block_full_bytes b)"
  shows "repair_scan P n content (length pre) (length pre)
    = length pre + length (concat (map (\<lambda>b. block_record n (block_full_bytes b)) bs))"
  using assms
proof (induction bs arbitrary: pre)
  case Nil
  then show ?case by (simp add: repair_scan_torn)
next
  case (Cons b' bs)
  let ?pre = "pre @ block_record n (block_full_bytes b')"
  from Cons.prems have "repair_scan P n content (length pre) (length pre)
      = repair_scan P n content (length ?pre) (length ?pre)"
    by (subst repair_scan_record) (auto simp: add.assoc)
  also have "\<dots> = length ?pre + length (concat (map (\<lambda>b. block_record n (block_full_bytes b)) bs))"
    by (rule Cons.IH) (use Cons.prems in auto)
  finally show ?case by simp
qed

text \<open>C25: Repair after a crash: when the last file holds complete records of valid blocks followed by
  a torn record, a proper prefix of one, opening the archive cuts exactly the torn record. With no
  torn record the file keeps its contents.\<close>

theorem repair_cuts_torn_record:
  assumes hi: "highest_file_number s = Some f"
    and c: "file_content s f = Some (concat (map (\<lambda>b. block_record (store_network s) (block_full_bytes b)) bs)
      @ take k (block_record (store_network s) (block_full_bytes b)))"
    and bs: "list_all (archivable (store_network s)) bs" and b: "archivable (store_network s) b"
    and k: "k < 8 + length (block_full_bytes b)"
  shows "file_content (repair_last_file_tail P s) f
      = Some (concat (map (\<lambda>b. block_record (store_network s) (block_full_bytes b)) bs))
    \<and> (\<forall>g. g \<noteq> f \<longrightarrow> file_content (repair_last_file_tail P s) g = file_content s g)"
proof -
  let ?rs = "concat (map (\<lambda>b. block_record (store_network s) (block_full_bytes b)) bs)"
  let ?c = "?rs @ take k (block_record (store_network s) (block_full_bytes b))"
  have "repair_scan P (store_network s) ?c (length ([] :: bytes)) (length ([] :: bytes))
      = length ([] :: bytes) + length ?rs"
    by (rule repair_scan_records [where k = k and b = b]) (use bs b k in auto)
  then have "take (repair_scan P (store_network s) ?c 0 0) ?c = ?rs" by simp
  then show ?thesis
    using c by (simp add: repair_last_file_tail_def hi file_content_def update_conv')
qed

section \<open>Examples\<close>

lemma example_block_archivable: "archivable Mainnet example_block"
proof -
  have "length (block_full_bytes example_block) = 439"
    using block_full_size_is_length [OF example_block_shape(1,2)] example_block_shape(3) by simp
  moreover have "tx_entry_ok example_spend"
    by (simp add: tx_entry_ok_def example_spend_ok example_spend_size)
  moreover have "network_id default_header = Mainnet" by (simp add: default_header_def)
  ultimately show ?thesis
    by (simp add: archivable_def example_block_shape default_header_ok MAX_BLOCK_SERIALIZED_BYTES_def)
qed

theorem archive_append_read_roundtrip_witness:
  "(let s = \<lparr>store_network = Mainnet, store_files = [(3, [])]\<rparr>
    in \<exists>s' l. append_block_with_minimum_file_number s example_block None = (s', Inr l)
      \<and> read_archived_block example_primitives s' l = Inr (archived example_primitives example_block))"
proof -
  have "store_ok \<lparr>store_network = Mainnet, store_files = [(3, [])]\<rparr>"
    by (simp add: store_ok_def file_content_def)
  from archive_append_read_roundtrip [OF this, of example_block None example_primitives]
    example_block_archivable show ?thesis by auto
qed

theorem repair_cuts_torn_record_witness:
  "(let r = block_record Mainnet (block_full_bytes example_block);
        s = \<lparr>store_network = Mainnet, store_files = [(0, r @ take 20 r)]\<rparr>
    in file_content (repair_last_file_tail example_primitives s) 0 = Some r)"
proof -
  let ?r = "block_record Mainnet (block_full_bytes example_block)"
  let ?s = "\<lparr>store_network = Mainnet, store_files = [(0, ?r @ take 20 ?r)]\<rparr>"
  have "length (block_full_bytes example_block) = 439"
    using block_full_size_is_length [OF example_block_shape(1,2)] example_block_shape(3) by simp
  with repair_cuts_torn_record [of ?s 0 "[example_block]" 20 example_block example_primitives]
    example_block_archivable show ?thesis
    by (simp add: highest_file_number_def file_content_def)
qed

end
