(* ===== verification/Database.thy ===== *)
theory Database
  imports Block_Files Pow Genesis
begin

text \<open>
  The storage engine (\<^verbatim>\<open>crates/atho-storage/src/db.rs\<close>): the named LMDB tables with the records
  they hold, the lookups, the archive of blocks and transactions, the two atomic commits of the
  chain state, pruning of the raw archive, and the markers that are checked at start-up.

  LMDB itself is not modelled. A table is an association list from keys to records, since
  serialisation and deserialisation of a record are inverse to each other; a write transaction
  either takes effect as a whole or not at all. What the operating system decides is an input: the
  database carries the outcomes of its next commits (success, or a failure before, inside or after
  the transaction); a theorem that excludes one of them says so. The clock is the argument \<open>now\<close>.
  Peer and address records, which only store and list, are not modelled.
\<close>

section \<open>Records\<close>

definition STORAGE_SCHEMA_VERSION :: u32 where [simp]: "STORAGE_SCHEMA_VERSION = 4"
definition SOFTWARE_STORAGE_VERSION :: u32 where [simp]: "SOFTWARE_STORAGE_VERSION = 1"
definition STORAGE_MAGIC :: bytes where "STORAGE_MAGIC = as_bytes ''ATHO''"
definition INITIAL_MAP_SIZE :: usize where "INITIAL_MAP_SIZE = 2 ^ 30"
definition MAX_MAP_SIZE :: usize where "MAX_MAP_SIZE = 2 ^ 40"

record chainstate_snapshot =
  snap_height :: u64
  snap_tip_hash :: bytes
  snap_tip_header :: "block_header option"

record block_archive_record =
  rec_height :: u64
  rec_block_hash :: bytes
  rec_previous_block_hash :: bytes
  rec_network :: network
  rec_version :: u16
  rec_merkle_root :: bytes
  rec_witness_root :: bytes
  rec_timestamp :: u64
  rec_difficulty_target :: bytes
  rec_nonce :: u64
  rec_file_number :: u64
  rec_record_offset :: u64
  rec_payload_length :: u32
  rec_raw_block_size :: u32
  rec_weight_bytes :: u32
  rec_vsize_bytes :: u32
  rec_tx_count :: u32
  rec_fees_total_atoms :: u64
  rec_fees_miner_atoms :: u64
  rec_chainwork :: bytes
  rec_fully_validated :: bool
  rec_main_chain :: bool
  rec_pruned :: bool
  rec_persisted_unix :: u64

record transaction_archive_record =
  txr_height :: u64
  txr_block_hash :: bytes
  txr_tx_index :: u32
  txr_txid :: bytes
  txr_transaction :: transaction

record block_transactions_record =
  btr_height :: u64
  btr_txids :: "bytes list"

record block_prune_report =
  report_tip_height :: u64
  report_prune_depth :: u64
  report_eligible_height :: "u64 option"
  report_pruned_files :: "u64 list"
  report_pruned_blocks :: usize
  report_reclaimed_bytes :: u64

record storage_metadata =
  md_storage_magic :: bytes
  md_network_magic :: bytes
  md_network_name :: string
  md_chain_id :: bytes
  md_genesis_hash :: bytes
  md_genesis_block_id :: bytes
  md_database_schema_version :: u32
  md_software_storage_version :: u32
  md_created_at_unix :: u64
  md_last_opened_unix :: u64

record storage_runtime_state =
  last_clean_shutdown :: bool
  last_runtime_started_unix :: u64
  last_shutdown_unix :: u64
  last_recovery_check_unix :: u64

text \<open>The named databases. The four keys of \<open>meta\<close> are fields of their own.\<close>

record tables =
  meta_chainstate :: "chainstate_snapshot option"
  meta_schema_version :: "u32 option"
  meta_storage_metadata :: "storage_metadata option"
  meta_runtime_state :: "storage_runtime_state option"
  tab_blocks :: "(bytes \<times> block_archive_record) list"
  tab_block_heights :: "(u64 \<times> bytes) list"
  tab_block_transactions :: "(bytes \<times> block_transactions_record) list"
  tab_transactions :: "(bytes \<times> transaction_archive_record) list"
  tab_utxos :: "(utxo_key \<times> utxo_entry) list"

text \<open>What the operating system does to the next commit: it fails to create the commit journal,
  the write transaction fails and is dropped, or the journal file cannot be removed afterwards.\<close>

datatype write_outcome =
    Succeeds
  | FailsAtJournal storage_error
  | FailsInTransaction storage_error
  | FailsAfterCommit storage_error

record database =
  db_network :: network
  db_store :: block_file_store
  db_tables :: tables
  db_journal :: bool
  db_outcomes :: "write_outcome list"

definition record_header :: "block_archive_record \<Rightarrow> block_header" where
  "record_header r = \<lparr>hdr_version = rec_version r, network_id = rec_network r, height = rec_height r,
     previous_block_hash = rec_previous_block_hash r, hdr_merkle_root = rec_merkle_root r,
     hdr_witness_root = rec_witness_root r, founders_hash_sha3_384 = FOUNDERS_HASH_SHA3_384,
     founders_hash_sha3_512 = FOUNDERS_HASH_SHA3_512, timestamp = rec_timestamp r,
     difficulty_target_or_bits = rec_difficulty_target r, nonce = rec_nonce r\<rparr>"

definition file_location :: "block_archive_record \<Rightarrow> block_file_location" where
  "file_location r = \<lparr>file_number = rec_file_number r, record_offset = rec_record_offset r,
     payload_length = rec_payload_length r\<rparr>"

section \<open>Lookups\<close>

definition load_chainstate_snapshot :: "database \<Rightarrow> chainstate_snapshot option" where
  "load_chainstate_snapshot db = meta_chainstate (db_tables db)"

definition load_block_record :: "database \<Rightarrow> bytes \<Rightarrow> block_archive_record option" where
  "load_block_record db h = map_of (tab_blocks (db_tables db)) h"

definition load_block_hash_by_height :: "database \<Rightarrow> u64 \<Rightarrow> bytes option" where
  "load_block_hash_by_height db hgt = map_of (tab_block_heights (db_tables db)) hgt"

definition load_block_record_by_height :: "database \<Rightarrow> u64 \<Rightarrow> block_archive_record option" where
  "load_block_record_by_height db hgt =
     (case load_block_hash_by_height db hgt of
        None \<Rightarrow> None
      | Some h \<Rightarrow> load_block_record db h)"

definition load_transaction :: "database \<Rightarrow> bytes \<Rightarrow> transaction_archive_record option" where
  "load_transaction db t = map_of (tab_transactions (db_tables db)) t"

definition load_indexed_transaction ::
  "database \<Rightarrow> bytes \<Rightarrow> u64 \<Rightarrow> nat \<times> bytes \<Rightarrow> storage_error + transaction_archive_record" where
  "load_indexed_transaction db h order_height = (\<lambda>(tx_index, t).
     if length t \<noteq> 48 then Inl CorruptData
     else rbind (ok_or IncompleteBlockHistory (load_transaction db t))
       (\<lambda>r. if txr_tx_index r \<noteq> of_nat tx_index \<or> txr_block_hash r \<noteq> h
               \<or> txr_height r \<noteq> order_height
             then Inl CorruptData else Inr r))"

text \<open>A loop that collects results and stops at the first error.\<close>

fun rcollect :: "('a \<Rightarrow> 'e + 'b) \<Rightarrow> 'a list \<Rightarrow> 'e + 'b list" where
  "rcollect f [] = Inr []"
| "rcollect f (x # xs) = rbind (f x) (\<lambda>y. rbind (rcollect f xs) (\<lambda>ys. Inr (y # ys)))"

definition load_block_transactions ::
  "database \<Rightarrow> bytes \<Rightarrow> storage_error + transaction_archive_record list" where
  "load_block_transactions db h =
     (case map_of (tab_block_transactions (db_tables db)) h of
        None \<Rightarrow> Inr []
      | Some order \<Rightarrow>
          rcollect (load_indexed_transaction db h (btr_height order)) (enumerate 0 (btr_txids order)))"

definition can_rebuild_from_index_after_raw_read_error :: "io_error_kind \<Rightarrow> bool" where
  "can_rebuild_from_index_after_raw_read_error kind \<longleftrightarrow> kind = NotFound \<or> kind = UnexpectedEof"

definition with_record_fees :: "block_archive_record \<Rightarrow> block \<Rightarrow> block" where
  "with_record_fees r b =
     b\<lparr>fees_total_atoms := rec_fees_total_atoms r, fees_miner_atoms := rec_fees_miner_atoms r\<rparr>"

definition load_block_from_index ::
  "primitives \<Rightarrow> database \<Rightarrow> block_archive_record \<Rightarrow> storage_error + block option" where
  "load_block_from_index P db r =
     rbind (load_block_transactions db (rec_block_hash r))
       (\<lambda>txs. if length txs \<noteq> unat (rec_tx_count r) then Inl IncompleteBlockHistory
          else Inr (Some (with_record_fees r (block_new P (record_header r) (map txr_transaction txs)))))"

definition load_block :: "primitives \<Rightarrow> database \<Rightarrow> bytes \<Rightarrow> storage_error + block option" where
  "load_block P db h =
     (case load_block_record db h of
        None \<Rightarrow> Inr None
      | Some r \<Rightarrow>
          if rec_pruned r then load_block_from_index P db r
          else case read_archived_block P (db_store db) (file_location r) of
                 Inr b \<Rightarrow>
                   if block_hash P (header b) \<noteq> rec_block_hash r \<or> height (header b) \<noteq> rec_height r
                   then load_block_from_index P db r
                   else Inr (Some (with_record_fees r b))
               | Inl err \<Rightarrow>
                   (case err of
                      Io kind \<Rightarrow>
                        if can_rebuild_from_index_after_raw_read_error kind
                        then load_block_from_index P db r else Inl err
                    | CorruptData \<Rightarrow> load_block_from_index P db r
                    | CrossNetworkReplay \<Rightarrow> load_block_from_index P db r
                    | _ \<Rightarrow> Inl err))"

text \<open>\<open>sort_by\<close> on height, then hash: two stable sorts.\<close>

definition list_block_records :: "database \<Rightarrow> block_archive_record list" where
  "list_block_records db =
     sort_key rec_height (sort_key rec_block_hash (map snd (tab_blocks (db_tables db))))"

definition load_utxos :: "database \<Rightarrow> utxo_entry list" where
  "load_utxos db = map snd (tab_utxos (db_tables db))"

definition has_pruned_blocks :: "database \<Rightarrow> bool" where
  "has_pruned_blocks db = list_ex rec_pruned (list_block_records db)"

section \<open>Writing inside a transaction\<close>

definition load_block_record_from_txn :: "tables \<Rightarrow> bytes \<Rightarrow> block_archive_record option" where
  "load_block_record_from_txn t h = map_of (tab_blocks t) h"

definition archive_transaction ::
  "primitives \<Rightarrow> u64 \<Rightarrow> bytes \<Rightarrow> nat \<times> transaction \<Rightarrow> tables \<Rightarrow> tables" where
  "archive_transaction P hgt h = (\<lambda>(tx_index, tx) t.
     t\<lparr>tab_transactions := AList.update (txid P tx)
        \<lparr>txr_height = hgt, txr_block_hash = h, txr_tx_index = of_nat tx_index, txr_txid = txid P tx,
         txr_transaction = tx\<rparr> (tab_transactions t)\<rparr>)"

definition block_record_of ::
  "primitives \<Rightarrow> u64 \<Rightarrow> network \<Rightarrow> u64 \<Rightarrow> block \<Rightarrow> block_file_location \<Rightarrow> nat \<Rightarrow> block_archive_record" where
  "block_record_of P now n hgt b location chainwork =
     \<lparr>rec_height = hgt, rec_block_hash = block_hash P (header b),
      rec_previous_block_hash = previous_block_hash (header b), rec_network = n,
      rec_version = hdr_version (header b), rec_merkle_root = hdr_merkle_root (header b),
      rec_witness_root = hdr_witness_root (header b), rec_timestamp = timestamp (header b),
      rec_difficulty_target = difficulty_target_or_bits (header b), rec_nonce = nonce (header b),
      rec_file_number = file_number location, rec_record_offset = record_offset location,
      rec_payload_length = payload_length location,
      rec_raw_block_size = of_nat (block_full_size_bytes b),
      rec_weight_bytes = of_nat (weight_bytes (size_metrics b)),
      rec_vsize_bytes = of_nat (vsize_bytes (size_metrics b)),
      rec_tx_count = of_nat (length (transactions b)),
      rec_fees_total_atoms = fees_total_atoms b, rec_fees_miner_atoms = fees_miner_atoms b,
      rec_chainwork = to_bytes_be chainwork, rec_fully_validated = True, rec_main_chain = True,
      rec_pruned = False, rec_persisted_unix = now\<rparr>"

definition write_block_archive ::
  "primitives \<Rightarrow> u64 \<Rightarrow> network \<Rightarrow> u64 \<Rightarrow> block \<Rightarrow> block_file_location \<Rightarrow> tables \<Rightarrow> storage_error + tables"
where
  "write_block_archive P now n hgt b location t =
     (let h = block_hash P (header b)
      in case load_block_record_from_txn t h of
           Some existing \<Rightarrow>
             if rec_height existing = hgt \<and> rec_block_hash existing = h then Inr t else Inl CorruptData
         | None \<Rightarrow>
             let work = block_proof_work (difficulty_target_or_bits (header b))
             in rbind (if hgt = 0 then Inr work
                       else rbind (ok_or IncompleteBlockHistory
                              (load_block_record_from_txn t (previous_block_hash (header b))))
                              (\<lambda>previous. Inr (be_to_nat (rec_chainwork previous) + work)))
                  (\<lambda>chainwork.
                     let t = t\<lparr>tab_blocks := AList.update h
                               (block_record_of P now n hgt b location chainwork) (tab_blocks t),
                             tab_block_heights := AList.update hgt h (tab_block_heights t)\<rparr>;
                         t = fold (archive_transaction P hgt h) (enumerate 0 (transactions b)) t
                     in Inr (t\<lparr>tab_block_transactions := AList.update h
                          \<lparr>btr_height = hgt, btr_txids = map (txid P) (transactions b)\<rparr>
                          (tab_block_transactions t)\<rparr>)))"

definition delta_input :: "tx_input \<Rightarrow> tables \<Rightarrow> tables" where
  "delta_input i t = t\<lparr>tab_utxos := AList.delete (previous_txid i, output_index i) (tab_utxos t)\<rparr>"

definition delta_output :: "utxo_entry \<Rightarrow> tables \<Rightarrow> storage_error + tables" where
  "delta_output e t =
     (if map_of (tab_utxos t) (entry_key e) \<noteq> None then Inl DuplicateUtxo
      else Inr (t\<lparr>tab_utxos := AList.update (entry_key e) e (tab_utxos t)\<rparr>))"

definition delta_transaction ::
  "primitives \<Rightarrow> network \<Rightarrow> u64 \<Rightarrow> transaction \<Rightarrow> tables \<Rightarrow> storage_error + tables" where
  "delta_transaction P n hgt tx t =
     rfold delta_output (create_outputs P tx n hgt) (fold delta_input (inputs tx) t)"

definition apply_utxo_delta ::
  "primitives \<Rightarrow> network \<Rightarrow> block \<Rightarrow> tables \<Rightarrow> storage_error + tables" where
  "apply_utxo_delta P n b t = rfold (delta_transaction P n (height (header b))) (transactions b) t"

definition update_main_chain_flag :: "bytes \<Rightarrow> bool \<Rightarrow> tables \<Rightarrow> storage_error + tables" where
  "update_main_chain_flag h flag t =
     (case load_block_record_from_txn t h of
        None \<Rightarrow> Inl IncompleteBlockHistory
      | Some r \<Rightarrow> if rec_main_chain r = flag then Inr t
                 else Inr (t\<lparr>tab_blocks := AList.update h (r\<lparr>rec_main_chain := flag\<rparr>) (tab_blocks t)\<rparr>))"

text \<open>\<open>BTreeSet\<close> of the hashes in the height index, in the order in which it is walked.\<close>

definition current_main_chain_hashes :: "tables \<Rightarrow> bytes list" where
  "current_main_chain_hashes t = sort (remdups (map snd (tab_block_heights t)))"

text \<open>The walk from the tip along the parent hashes. It visits a record at most once unless the
  parent links form a cycle, so the number of records is enough fuel; see
  \<open>rebuild_walk_enough_fuel\<close>.\<close>

fun rebuild_walk :: "nat \<Rightarrow> bytes \<Rightarrow> tables \<times> bytes list \<Rightarrow> storage_error + (tables \<times> bytes list)" where
  "rebuild_walk 0 next_hash st = Inl IncompleteBlockHistory"
| "rebuild_walk (Suc fuel) next_hash (t, new_main_chain) =
     (case load_block_record_from_txn t next_hash of
        None \<Rightarrow> Inl IncompleteBlockHistory
      | Some r \<Rightarrow>
          let t = t\<lparr>tab_block_heights :=
                AList.update (rec_height r) (rec_block_hash r) (tab_block_heights t)\<rparr>;
              new_main_chain = rec_block_hash r # new_main_chain
          in rbind (if rec_main_chain r then Inr t else update_main_chain_flag (rec_block_hash r) True t)
               (\<lambda>t. if rec_height r = 0 then Inr (t, new_main_chain)
                     else rebuild_walk fuel (rec_previous_block_hash r) (t, new_main_chain)))"

definition rebuild_height_index :: "bytes \<Rightarrow> tables \<Rightarrow> storage_error + tables" where
  "rebuild_height_index tip_hash t =
     (let old_main_chain = current_main_chain_hashes t;
          t = t\<lparr>tab_block_heights := []\<rparr>
      in if tip_hash = replicate 48 0
         then rfold (\<lambda>h. update_main_chain_flag h False) old_main_chain t
         else rbind (rebuild_walk (Suc (length (tab_blocks t))) tip_hash (t, []))
                (\<lambda>(t, new_main_chain).
                   rfold (\<lambda>h t. if h \<in> set new_main_chain then Inr t
                                  else update_main_chain_flag h False t) old_main_chain t))"

section \<open>Commits\<close>

definition next_outcome :: "database \<Rightarrow> write_outcome" where
  "next_outcome db = (case db_outcomes db of [] \<Rightarrow> Succeeds | outcome # _ \<Rightarrow> outcome)"

text \<open>A write between the creation and the removal of the commit journal. The journal file stays
  behind when the write fails.\<close>

definition journaled ::
  "(database \<Rightarrow> database \<times> (storage_error + tables)) \<Rightarrow> database \<Rightarrow> database \<times> (storage_error + unit)" where
  "journaled write db =
     (let outcome = next_outcome db; db = db\<lparr>db_outcomes := tl (db_outcomes db)\<rparr>
      in case outcome of
           FailsAtJournal err \<Rightarrow> (db, Inl err)
         | _ \<Rightarrow>
             case write (db\<lparr>db_journal := True\<rparr>) of
               (db, Inl err) \<Rightarrow> (db, Inl err)
             | (db, Inr t) \<Rightarrow>
                 (case outcome of
                    FailsInTransaction err \<Rightarrow> (db, Inl err)
                  | FailsAfterCommit err \<Rightarrow> (db\<lparr>db_tables := t\<rparr>, Inl err)
                  | _ \<Rightarrow> (db\<lparr>db_tables := t, db_journal := False\<rparr>, Inr ())))"

definition archive_append_file_hint :: "database \<Rightarrow> u64 option" where
  "archive_append_file_hint db =
     (if highest_file_number (db_store db) \<noteq> None then None
      else case map rec_file_number (list_block_records db) of
             [] \<Rightarrow> None
           | f # fs \<Rightarrow> Some (sat_add (fold max fs f) 1))"

text \<open>The part of \<open>commit_chainstate\<close> before the transaction: the block bytes go to the files unless
  the block has a record already.\<close>

definition archive_append ::
  "primitives \<Rightarrow> (u64 \<times> block) option \<Rightarrow> database
     \<Rightarrow> database \<times> (storage_error + (u64 \<times> block \<times> block_file_location) option)" where
  "archive_append P appended db =
     (case appended of
        None \<Rightarrow> (db, Inr None)
      | Some (hgt, b) \<Rightarrow>
          if network_id (header b) \<noteq> db_network db then (db, Inl CrossNetworkReplay)
          else if load_block_record db (block_hash P (header b)) \<noteq> None then (db, Inr None)
          else case append_block_with_minimum_file_number (db_store db) b (archive_append_file_hint db) of
                 (store, Inl err) \<Rightarrow> (db\<lparr>db_store := store\<rparr>, Inl err)
               | (store, Inr location) \<Rightarrow> (db\<lparr>db_store := store\<rparr>, Inr (Some (hgt, b, location))))"

definition commit_tables ::
  "primitives \<Rightarrow> u64 \<Rightarrow> network \<Rightarrow> chainstate_snapshot \<Rightarrow> utxo_entry list \<Rightarrow> (u64 \<times> block) option
     \<Rightarrow> (u64 \<times> block \<times> block_file_location) option \<Rightarrow> tables \<Rightarrow> storage_error + tables" where
  "commit_tables P now n snapshot utxos appended archive t =
     rbind (case archive of
              None \<Rightarrow> Inr t
            | Some (hgt, b, location) \<Rightarrow> write_block_archive P now n hgt b location t)
       (\<lambda>t. let t = t\<lparr>meta_chainstate := Some snapshot\<rparr>
             in case appended of
                  Some (hgt, b) \<Rightarrow> apply_utxo_delta P n b t
                | None \<Rightarrow> rebuild_height_index (snap_tip_hash snapshot)
                    (t\<lparr>tab_utxos := fold (\<lambda>e. AList.update (entry_key e) e) utxos []\<rparr>))"

definition commit_chainstate ::
  "primitives \<Rightarrow> u64 \<Rightarrow> database \<Rightarrow> chainstate_snapshot \<Rightarrow> utxo_entry list \<Rightarrow> (u64 \<times> block) option
     \<Rightarrow> database \<times> (storage_error + unit)" where
  "commit_chainstate P now db snapshot utxos appended =
     journaled (\<lambda>db.
       case archive_append P appended db of
         (db, Inl err) \<Rightarrow> (db, Inl err)
       | (db, Inr archive) \<Rightarrow>
           (db, commit_tables P now (db_network db) snapshot utxos appended archive (db_tables db))) db"

text \<open>The archive of \<open>replace_chainstate\<close>: the files are deleted and written again, outside the
  transaction.\<close>

fun append_all ::
  "network \<Rightarrow> block list \<Rightarrow> block_file_store
     \<Rightarrow> block_file_store \<times> (storage_error + (u64 \<times> block_file_location) list)" where
  "append_all n [] store = (store, Inr [])"
| "append_all n (b # bs) store =
     (if network_id (header b) \<noteq> n then (store, Inl CrossNetworkReplay)
      else case store_append_block store b of
             (store, Inl err) \<Rightarrow> (store, Inl err)
           | (store, Inr location) \<Rightarrow>
               (case append_all n bs store of
                  (store, Inl err) \<Rightarrow> (store, Inl err)
                | (store, Inr rest) \<Rightarrow> (store, Inr ((height (header b), location) # rest))))"

definition replace_tables ::
  "primitives \<Rightarrow> u64 \<Rightarrow> network \<Rightarrow> chainstate_snapshot \<Rightarrow> utxo_entry list
     \<Rightarrow> ((u64 \<times> block_file_location) \<times> block) list \<Rightarrow> tables \<Rightarrow> storage_error + tables" where
  "replace_tables P now n snapshot utxos archive t =
     (let t = t\<lparr>tab_blocks := [], tab_block_heights := [], tab_block_transactions := [],
              tab_transactions := [], tab_utxos := []\<rparr>
      in rbind (rfold (\<lambda>((hgt, location), b). write_block_archive P now n hgt b location) archive t)
           (\<lambda>t. Inr (t\<lparr>meta_chainstate := Some snapshot,
                      tab_utxos := fold (\<lambda>e. AList.update (entry_key e) e) utxos (tab_utxos t)\<rparr>)))"

definition replace_chainstate ::
  "primitives \<Rightarrow> u64 \<Rightarrow> database \<Rightarrow> chainstate_snapshot \<Rightarrow> utxo_entry list \<Rightarrow> block list
     \<Rightarrow> database \<times> (storage_error + unit)" where
  "replace_chainstate P now db snapshot utxos blocks =
     journaled (\<lambda>db.
       case append_all (db_network db) blocks (store_reset (db_store db)) of
         (store, Inl err) \<Rightarrow> (db\<lparr>db_store := store\<rparr>, Inl err)
       | (store, Inr locations) \<Rightarrow>
           (db\<lparr>db_store := store\<rparr>,
            replace_tables P now (db_network db) snapshot utxos (zip locations blocks) (db_tables db))) db"

definition db_append_block ::
  "primitives \<Rightarrow> u64 \<Rightarrow> database \<Rightarrow> u64 \<Rightarrow> block \<Rightarrow> database \<times> (storage_error + unit)" where
  "db_append_block P now db hgt b =
     (case archive_append P (Some (hgt, b)) db of
        (db, Inl err) \<Rightarrow> (db, Inl err)
      | (db, Inr None) \<Rightarrow> (db, Inr ())
      | (db, Inr (Some (hgt, b, location))) \<Rightarrow>
          (case write_block_archive P now (db_network db) hgt b location (db_tables db) of
             Inl err \<Rightarrow> (db, Inl err)
           | Inr t \<Rightarrow> (db\<lparr>db_tables := t\<rparr>, Inr ())))"

section \<open>Pruning\<close>

text \<open>The records grouped by file, in the order of the file numbers (\<open>BTreeMap\<close>).\<close>

definition records_by_file :: "block_archive_record list \<Rightarrow> (u64 \<times> block_archive_record list) list" where
  "records_by_file rs = map (\<lambda>f. (f, filter (\<lambda>r. rec_file_number r = f) rs))
     (sort (remdups (map rec_file_number rs)))"

definition file_max_height :: "block_archive_record list \<Rightarrow> u64" where
  "file_max_height rs = fold max (map rec_height rs) 0"

definition pending_prune :: "block_archive_record list \<Rightarrow> block_archive_record list" where
  "pending_prune rs = filter (\<lambda>r. \<not> rec_pruned r) rs"

definition record_bytes :: "block_archive_record list \<Rightarrow> u64" where
  "record_bytes rs = sum_list (map (\<lambda>r. record_length (file_location r)) rs)"

definition files_below_cutoff ::
  "u64 \<Rightarrow> (u64 \<times> block_archive_record list) list \<Rightarrow> (u64 \<times> block_archive_record list) list" where
  "files_below_cutoff cutoff files = List.map_filter (\<lambda>(f, rs).
     if file_max_height rs > cutoff \<or> pending_prune rs = [] then None
     else Some (f, pending_prune rs)) files"

text \<open>The second loop, for a configured size of the archive; the file that holds the tip is kept.\<close>

fun files_over_target ::
  "u64 \<Rightarrow> u64 \<Rightarrow> (u64 \<times> block_archive_record list) list \<Rightarrow> u64 \<Rightarrow> (u64 \<times> block_archive_record list) list
     \<Rightarrow> (u64 \<times> block_archive_record list) list" where
  "files_over_target max_archive_bytes tip_height [] unpruned_bytes prune_files = prune_files"
| "files_over_target max_archive_bytes tip_height ((f, rs) # files) unpruned_bytes prune_files =
     (if unpruned_bytes \<le> max_archive_bytes then prune_files
      else if f \<in> fst ` set prune_files \<or> file_max_height rs \<ge> tip_height \<or> pending_prune rs = []
      then files_over_target max_archive_bytes tip_height files unpruned_bytes prune_files
      else files_over_target max_archive_bytes tip_height files
             (sat_sub unpruned_bytes (record_bytes (pending_prune rs)))
             (insort_key fst (f, pending_prune rs) prune_files))"

definition files_to_prune ::
  "u64 option \<Rightarrow> u64 \<Rightarrow> u64 \<Rightarrow> block_archive_record list \<Rightarrow> (u64 \<times> block_archive_record list) list" where
  "files_to_prune max_archive_bytes tip_height cutoff records =
     (let files = records_by_file records; below = files_below_cutoff cutoff files
      in case max_archive_bytes of
           None \<Rightarrow> below
         | Some m \<Rightarrow> files_over_target m tip_height files
             (record_bytes (pending_prune (concat (map snd files)))) below)"

definition mark_pruned :: "block_archive_record \<Rightarrow> tables \<Rightarrow> tables" where
  "mark_pruned r t =
     (if rec_pruned r then t
      else t\<lparr>tab_blocks := AList.update (rec_block_hash r) (r\<lparr>rec_pruned := True\<rparr>) (tab_blocks t)\<rparr>)"

definition prune_archived_blocks ::
  "u64 option \<Rightarrow> database \<Rightarrow> u64 \<Rightarrow> u64 \<Rightarrow> database \<times> (storage_error + block_prune_report)" where
  "prune_archived_blocks max_archive_bytes db tip_height prune_depth =
     (let eligible = checked_sub tip_height prune_depth;
          report = \<lparr>report_tip_height = tip_height, report_prune_depth = prune_depth,
            report_eligible_height = eligible, report_pruned_files = [], report_pruned_blocks = 0,
            report_reclaimed_bytes = 0\<rparr>
      in case eligible of
           None \<Rightarrow> (db, Inr report)
         | Some cutoff \<Rightarrow>
             let prune_files = files_to_prune max_archive_bytes tip_height cutoff (list_block_records db);
                 report = report\<lparr>
                   report_pruned_blocks := sum_list (map (length \<circ> snd) prune_files),
                   report_reclaimed_bytes := sum_list (map (record_bytes \<circ> snd) prune_files)\<rparr>;
                 outcome = next_outcome db; db' = db\<lparr>db_outcomes := tl (db_outcomes db)\<rparr>;
                 t = fold mark_pruned (concat (map snd prune_files)) (db_tables db)
             in if prune_files = [] then (db, Inr report)
                else case outcome of
                       FailsAtJournal err \<Rightarrow> (db', Inl err)
                     | FailsInTransaction err \<Rightarrow> (db', Inl err)
                     | FailsAfterCommit err \<Rightarrow> (db'\<lparr>db_tables := t\<rparr>, Inl err)
                     | Succeeds \<Rightarrow>
                         (db'\<lparr>db_tables := t,
                            db_store := fold (\<lambda>(f, _) store. delete_file store f) prune_files (db_store db)\<rparr>,
                          Inr (report\<lparr>report_pruned_files := map fst prune_files\<rparr>)))"

section \<open>Growing the memory map\<close>

text \<open>\<open>write_with_retry\<close>: the operation runs in an environment of some map size; a full map is
  doubled up to the limit. Reopening does nothing when the new size is not larger, so that the
  loop may run forever from a size above the limit.\<close>

definition MapFull :: storage_error where
  "MapFull = Lmdb (- 30792)"

partial_function (option) write_with_retry ::
  "(usize \<Rightarrow> storage_error + 'a) \<Rightarrow> usize \<Rightarrow> (storage_error + 'a) option" where
  "write_with_retry op map_size =
     (case op map_size of
        Inr v \<Rightarrow> Some (Inr v)
      | Inl err \<Rightarrow>
          if err = MapFull then
            let next = min (usize_sat_mul map_size 2) MAX_MAP_SIZE
            in if next = map_size then Some (Inl MapFull)
               else write_with_retry op (if next \<le> map_size then map_size else next)
          else Some (Inl err))"

text \<open>The configured size, from the number in the environment variable if it is one.\<close>

definition configured_db_cache_bytes :: "usize option \<Rightarrow> usize" where
  "configured_db_cache_bytes setting =
     (case setting of
        None \<Rightarrow> INITIAL_MAP_SIZE
      | Some v \<Rightarrow> min (max v (64 * 1024 * 1024)) MAX_MAP_SIZE)"

section \<open>Start-up markers\<close>

definition put_tables :: "database \<Rightarrow> tables \<Rightarrow> database \<times> (storage_error + unit)" where
  "put_tables db t =
     (let db' = db\<lparr>db_outcomes := tl (db_outcomes db)\<rparr>
      in case next_outcome db of
           FailsAtJournal err \<Rightarrow> (db', Inl err)
         | FailsInTransaction err \<Rightarrow> (db', Inl err)
         | _ \<Rightarrow> (db'\<lparr>db_tables := t\<rparr>, Inr ()))"

definition default_runtime_state :: storage_runtime_state where
  "default_runtime_state = \<lparr>last_clean_shutdown = True, last_runtime_started_unix = 0,
     last_shutdown_unix = 0, last_recovery_check_unix = 0\<rparr>"

definition ensure_schema_version :: "database \<Rightarrow> database \<times> (storage_error + unit)" where
  "ensure_schema_version db =
     (case meta_schema_version (db_tables db) of
        Some found \<Rightarrow>
          if found \<noteq> STORAGE_SCHEMA_VERSION
          then (db, Inl (SchemaVersionMismatch STORAGE_SCHEMA_VERSION found)) else (db, Inr ())
      | None \<Rightarrow> put_tables db ((db_tables db)\<lparr>meta_schema_version := Some STORAGE_SCHEMA_VERSION\<rparr>))"

definition ensure_runtime_state :: "database \<Rightarrow> database \<times> (storage_error + unit)" where
  "ensure_runtime_state db =
     (if meta_runtime_state (db_tables db) \<noteq> None then (db, Inr ())
      else put_tables db ((db_tables db)\<lparr>meta_runtime_state := Some default_runtime_state\<rparr>))"

definition expected_storage_metadata :: "primitives \<Rightarrow> network \<Rightarrow> u64 \<Rightarrow> storage_metadata" where
  "expected_storage_metadata P n now =
     \<lparr>md_storage_magic = STORAGE_MAGIC, md_network_magic = p2p_magic n, md_network_name = network_name n,
      md_chain_id = genesis_hash P n, md_genesis_hash = genesis_hash P n,
      md_genesis_block_id = genesis_hash P n, md_database_schema_version = STORAGE_SCHEMA_VERSION,
      md_software_storage_version = SOFTWARE_STORAGE_VERSION, md_created_at_unix = now,
      md_last_opened_unix = now\<rparr>"

definition check_storage_metadata :: "storage_metadata \<Rightarrow> storage_metadata \<Rightarrow> storage_error + unit" where
  "check_storage_metadata existing expected =
     (if md_storage_magic existing \<noteq> md_storage_magic expected
      then Inl (StorageMetadataMismatch ''storage_magic'')
      else if md_network_magic existing \<noteq> md_network_magic expected
      then Inl (StorageMetadataMismatch ''network_magic'')
      else if md_network_name existing \<noteq> md_network_name expected
      then Inl (StorageMetadataMismatch ''network_name'')
      else if md_chain_id existing \<noteq> md_chain_id expected
      then Inl (StorageMetadataMismatch ''chain_id'')
      else if md_genesis_hash existing \<noteq> md_genesis_hash expected then Inl PersistedGenesisMismatch
      else if md_genesis_block_id existing \<noteq> md_genesis_block_id expected
      then Inl (StorageMetadataMismatch ''genesis_block_id'')
      else if md_database_schema_version existing \<noteq> md_database_schema_version expected
      then Inl (SchemaVersionMismatch (md_database_schema_version expected)
                  (md_database_schema_version existing))
      else if md_software_storage_version existing \<noteq> md_software_storage_version expected
      then Inl (StorageMetadataMismatch ''software_storage_version'')
      else Inr ())"

definition ensure_storage_metadata ::
  "primitives \<Rightarrow> u64 \<Rightarrow> database \<Rightarrow> database \<times> (storage_error + unit)" where
  "ensure_storage_metadata P now db =
     (let expected = expected_storage_metadata P (db_network db) now
      in case meta_storage_metadata (db_tables db) of
           Some existing \<Rightarrow>
             (case check_storage_metadata existing expected of
                Inl err \<Rightarrow> (db, Inl err)
              | Inr _ \<Rightarrow> put_tables db ((db_tables db)\<lparr>meta_storage_metadata :=
                  Some (existing\<lparr>md_last_opened_unix := now\<rparr>)\<rparr>))
         | None \<Rightarrow> put_tables db ((db_tables db)\<lparr>meta_storage_metadata := Some expected\<rparr>))"

definition update_runtime_state ::
  "(storage_runtime_state \<Rightarrow> storage_runtime_state) \<Rightarrow> database \<Rightarrow> database \<times> (storage_error + unit)" where
  "update_runtime_state update db =
     (let state = (case meta_runtime_state (db_tables db) of
                     None \<Rightarrow> default_runtime_state | Some state \<Rightarrow> state)
      in put_tables db ((db_tables db)\<lparr>meta_runtime_state := Some (update state)\<rparr>))"

definition mark_runtime_started :: "u64 \<Rightarrow> database \<Rightarrow> database \<times> (storage_error + unit)" where
  "mark_runtime_started now = update_runtime_state
     (\<lambda>state. state\<lparr>last_clean_shutdown := False, last_runtime_started_unix := now\<rparr>)"

definition mark_clean_shutdown :: "u64 \<Rightarrow> database \<Rightarrow> database \<times> (storage_error + unit)" where
  "mark_clean_shutdown now = update_runtime_state
     (\<lambda>state. state\<lparr>last_clean_shutdown := True, last_shutdown_unix := now\<rparr>)"

section \<open>The persisted delta\<close>

lemma delta_input_utxos [simp]:
  "map_of (tab_utxos (delta_input i t)) = (map_of (tab_utxos t))(input_key i := None)"
  by (simp add: delta_input_def input_key_def delete_conv')

lemma only_utxos_change:
  "tab_utxos (t\<lparr>tab_utxos := us\<rparr>) = us" "t\<lparr>tab_utxos := us\<rparr>\<lparr>tab_utxos := vs\<rparr> = t\<lparr>tab_utxos := vs\<rparr>"
  by simp_all

lemma delta_inputs:
  assumes "spend_loop is acc s = (s', Inr es)" and "map_of (tab_utxos t) = set_entries s"
  shows "map_of (tab_utxos (fold delta_input is t)) = set_entries s'
    \<and> fold delta_input is t = t\<lparr>tab_utxos := tab_utxos (fold delta_input is t)\<rparr>
    \<and> set_network s' = set_network s"
  using assms
proof (induction "is" arbitrary: acc s t)
  case Nil
  then show ?case by simp
next
  case (Cons i "is")
  from Cons.prems(1) obtain s1 e where r: "utxo_remove s (previous_txid i) (output_index i) = (s1, Inr e)"
    and rest: "spend_loop is (acc @ [e]) s1 = (s', Inr es)"
    by (auto split: prod.splits sum.splits)
  have s1: "s1 = s\<lparr>set_entries := (set_entries s)(input_key i := None)\<rparr>"
    using r by (simp add: utxo_remove_Inr input_key_def)
  have "map_of (tab_utxos (delta_input i t)) = set_entries s1" by (simp add: s1 Cons.prems(2))
  from Cons.IH [OF rest this]
  have m: "map_of (tab_utxos (fold delta_input is (delta_input i t))) = set_entries s'"
    and f: "fold delta_input is (delta_input i t) = (delta_input i t)\<lparr>tab_utxos :=
      tab_utxos (fold delta_input is (delta_input i t))\<rparr>" and n: "set_network s' = set_network s1"
    by simp_all
  have "fold delta_input (i # is) t = t\<lparr>tab_utxos := tab_utxos (fold delta_input (i # is) t)\<rparr>"
    using f by (simp add: delta_input_def)
  with m n show ?case by (simp add: s1)
qed

lemma delta_outputs:
  assumes "insert_created es s u = (s', Inr u')" and "map_of (tab_utxos t) = set_entries s"
  shows "\<exists>us. rfold delta_output es t = Inr (t\<lparr>tab_utxos := us\<rparr>) \<and> map_of us = set_entries s'
    \<and> set_network s' = set_network s"
  using assms
proof (induction es arbitrary: s u t)
  case Nil
  then show ?case by (intro exI [of _ "tab_utxos t"]) simp
next
  case (Cons e es)
  from Cons.prems(1) obtain s1 where ins: "utxo_insert s e = (s1, Inr ())"
    and rest: "insert_created es s1 (u\<lparr>created := created u @ [e]\<rparr>) = (s', Inr u')"
    by (auto split: prod.splits sum.splits)
  let ?us = "AList.update (entry_key e) e (tab_utxos t)"
  have new: "set_entries s (entry_key e) = None"
    and s1: "s1 = s\<lparr>set_entries := (set_entries s)(entry_key e \<mapsto> e)\<rparr>"
    using ins by (simp_all add: utxo_insert_Inr)
  then have d: "delta_output e t = Inr (t\<lparr>tab_utxos := ?us\<rparr>)"
    by (simp add: delta_output_def Cons.prems(2))
  have "map_of (tab_utxos (t\<lparr>tab_utxos := ?us\<rparr>)) = set_entries s1"
    by (simp add: s1 Cons.prems(2) update_conv')
  from Cons.IH [OF rest this] show ?case by (auto simp: d s1)
qed

lemma delta_transactions:
  assumes "apply_transactions P h txs s u = (s', Inr u')" and "map_of (tab_utxos t) = set_entries s"
    and "set_network s = n"
  shows "\<exists>us. rfold (delta_transaction P n h) txs t = Inr (t\<lparr>tab_utxos := us\<rparr>)
    \<and> map_of us = set_entries s' \<and> set_network s' = n"
  using assms
proof (induction txs arbitrary: s u t)
  case Nil
  then show ?case by (intro exI [of _ "tab_utxos t"]) simp
next
  case (Cons tx txs)
  from Cons.prems(1) obtain s1 sp s2 u2 where sp: "spend_loop (inputs tx) [] s = (s1, Inr sp)"
    and ins: "insert_created (create_outputs P tx (set_network s1) h) s1 (u\<lparr>spent := spent u @ sp\<rparr>)
      = (s2, Inr u2)"
    and rest: "apply_transactions P h txs s2 u2 = (s', Inr u')"
    by (auto simp: spend_inputs_def split: prod.splits sum.splits)
  from delta_inputs [OF sp Cons.prems(2)] Cons.prems(3)
  have m1: "map_of (tab_utxos (fold delta_input (inputs tx) t)) = set_entries s1"
    and f1: "fold delta_input (inputs tx) t = t\<lparr>tab_utxos := tab_utxos (fold delta_input (inputs tx) t)\<rparr>"
    and n1: "set_network s1 = n" by simp_all
  from delta_outputs [OF ins m1] obtain us where
    us: "delta_transaction P n h tx t = Inr (t\<lparr>tab_utxos := us\<rparr>)" "map_of us = set_entries s2"
    "set_network s2 = n"
    unfolding delta_transaction_def n1 by (subst (asm) f1) auto
  have "map_of (tab_utxos (t\<lparr>tab_utxos := us\<rparr>)) = set_entries s2" using us(2) by simp
  from Cons.IH [OF rest this us(3)] show ?case by (simp add: us(1))
qed

text \<open>C10: The table of unspent outputs follows the in-memory set: when the two agree and the set
  accepts a block, the delta that the commit writes succeeds, leaves every other table alone, and
  the two agree again.\<close>

theorem persisted_delta_refines_memory:
  assumes "map_of (tab_utxos t) = set_entries s" and "set_network s = n"
    and "apply_block P s b = (s', Inr u)"
  shows "\<exists>us. apply_utxo_delta P n b t = Inr (t\<lparr>tab_utxos := us\<rparr>) \<and> map_of us = set_entries s'"
  using delta_transactions [OF assms(3) [unfolded apply_block_def] assms(1,2)]
  unfolding apply_utxo_delta_def by blast

section \<open>The retry loop\<close>

lemma next_map_size:
  assumes "m \<le> MAX_MAP_SIZE"
  shows "min (usize_sat_mul m 2) MAX_MAP_SIZE = m \<longleftrightarrow> m = 0 \<or> m = MAX_MAP_SIZE"
    and "m \<le> min (usize_sat_mul m 2) MAX_MAP_SIZE"
proof -
  have "MAX_MAP_SIZE * 2 < usize_max" by (simp add: MAX_MAP_SIZE_def)
  with assms have "usize_sat_mul m 2 = m * 2" by (simp add: usize_sat_mul_def)
  with assms show "min (usize_sat_mul m 2) MAX_MAP_SIZE = m \<longleftrightarrow> m = 0 \<or> m = MAX_MAP_SIZE"
    and "m \<le> min (usize_sat_mul m 2) MAX_MAP_SIZE" by auto
qed

lemma write_with_retry_returns:
  assumes "map_size \<le> MAX_MAP_SIZE"
  shows "\<exists>r k. write_with_retry op map_size = Some r \<and> map_size \<le> k \<and> k \<le> MAX_MAP_SIZE \<and> r = op k
    \<and> (r = Inl MapFull \<longrightarrow> k = MAX_MAP_SIZE \<or> map_size = 0)"
  using assms
proof (induction "MAX_MAP_SIZE - map_size" arbitrary: map_size rule: less_induct)
  case less
  define m where "m = min (usize_sat_mul map_size 2) MAX_MAP_SIZE"
  note nx = next_map_size [OF less.prems, folded m_def]
  have m_le: "m \<le> MAX_MAP_SIZE" by (simp add: m_def)
  show ?case
  proof (cases "op map_size = Inl MapFull \<and> m \<noteq> map_size")
    case False
    then have "write_with_retry op map_size = Some (op map_size)"
      by (subst write_with_retry.simps, fold m_def) (auto simp: Let_def split: sum.splits)
    then show ?thesis using less.prems False nx(1) by (intro exI [of _ "op map_size"] exI [of _ map_size]) blast
  next
    case True
    have "write_with_retry op map_size = write_with_retry op m"
      using True nx(2) by (subst write_with_retry.simps, fold m_def) (simp add: Let_def)
    moreover have "MAX_MAP_SIZE - m < MAX_MAP_SIZE - map_size" using True nx(2) m_le by linarith
    from less.hyps [OF this m_le] obtain r k where "write_with_retry op m = Some r" "m \<le> k"
      "k \<le> MAX_MAP_SIZE" "r = op k" "r = Inl MapFull \<longrightarrow> k = MAX_MAP_SIZE \<or> m = 0" by blast
    moreover have "m \<noteq> 0" using True nx by simp
    ultimately show ?thesis using nx(2) by (intro exI [of _ r] exI [of _ k]) simp
  qed
qed


section \<open>Pruning keeps the blocks\<close>

text \<open>Every record stands under its own hash, and its block is found both by \<open>load_block\<close> and,
  with the same result, from the transaction index.\<close>

definition archive_ok :: "primitives \<Rightarrow> database \<Rightarrow> bool" where
  "archive_ok P db \<longleftrightarrow> distinct (map fst (tab_blocks (db_tables db)))
     \<and> (\<forall>h r. load_block_record db h = Some r \<longrightarrow> rec_block_hash r = h
          \<and> (\<exists>b. load_block P db h = Inr (Some b) \<and> load_block_from_index P db r = Inr (Some b)))"

lemma archive_okD:
  assumes "archive_ok P db" and "load_block_record db h = Some r"
  shows "rec_block_hash r = h" and "load_block_from_index P db r = load_block P db h"
    and "\<exists>b. load_block P db h = Inr (Some b)"
  using assms unfolding archive_ok_def by metis+

lemma mark_pruned_blocks:
  assumes "\<forall>r\<in>set rs. f (rec_block_hash r) = r \<and> \<not> rec_pruned r"
  shows "map_of (tab_blocks (fold mark_pruned rs t)) h =
     (if h \<in> rec_block_hash ` set rs then Some ((f h)\<lparr>rec_pruned := True\<rparr>) else map_of (tab_blocks t) h)"
  using assms
proof (induction rs arbitrary: t)
  case (Cons r rs)
  then have r: "f (rec_block_hash r) = r" "\<not> rec_pruned r" by auto
  show ?case
    using Cons by (auto simp: mark_pruned_def update_conv' r)
qed simp

lemma mark_pruned_keeps [simp]:
  "tab_block_transactions (fold mark_pruned rs t) = tab_block_transactions t"
  "tab_transactions (fold mark_pruned rs t) = tab_transactions t"
  by (induction rs arbitrary: t) (simp_all add: mark_pruned_def)

lemma mark_pruned_distinct:
  "distinct (map fst (tab_blocks t)) \<Longrightarrow> distinct (map fst (tab_blocks (fold mark_pruned rs t)))"
  by (induction rs arbitrary: t) (simp_all add: mark_pruned_def distinct_update)

lemma delete_files_content:
  "file_content (fold (\<lambda>(f, _) s. delete_file s f) fs s) n =
     (if n \<in> fst ` set fs then None else file_content s n)"
  by (induction fs arbitrary: s) (auto simp: delete_file_def file_content_def delete_conv')

lemma delete_files_network [simp]:
  "store_network (fold (\<lambda>(f, _) s. delete_file s f) fs s) = store_network s"
  by (induction fs arbitrary: s) (auto simp: delete_file_def)

lemma read_cong:
  assumes "file_content s' (file_number l) = file_content s (file_number l)"
    and "store_network s' = store_network s"
  shows "read_archived_block P s' l = read_archived_block P s l"
  unfolding read_archived_block_def assms ..

lemma records_by_file_entry:
  "(f, rs) \<in> set (records_by_file records) \<Longrightarrow> rs = filter (\<lambda>r. rec_file_number r = f) records"
  by (auto simp: records_by_file_def)

lemma files_over_target_entry:
  "x \<in> set (files_over_target m tph files bytes acc) \<Longrightarrow>
     x \<in> set acc \<or> (\<exists>f rs. (f, rs) \<in> set files \<and> x = (f, pending_prune rs))"
proof (induction m tph files bytes acc rule: files_over_target.induct)
  case (2 m tph f rs files bytes acc)
  show ?case
  proof (cases "bytes \<le> m")
    case False
    note le = this
    show ?thesis
    proof (cases "f \<in> fst ` set acc \<or> tph \<le> file_max_height rs \<or> pending_prune rs = []")
      case True
      from "2.IH"(1) [OF False True] "2.prems" False True show ?thesis by auto
    next
      case False
      from "2.IH"(2) [OF le False] "2.prems" le False show ?thesis by (auto simp: set_insort_key)
    qed
  qed (use "2.prems" in simp)
qed simp

lemma files_to_prune_entry:
  assumes "(f, rs) \<in> set (files_to_prune m tph cutoff records)"
  shows "rs = pending_prune (filter (\<lambda>r. rec_file_number r = f) records)"
    and "m = None \<Longrightarrow> r \<in> set rs \<Longrightarrow> rec_height r \<le> cutoff"
proof -
  have below: "rs = pending_prune (filter (\<lambda>r. rec_file_number r = f) records)
      \<and> file_max_height (filter (\<lambda>r. rec_file_number r = f) records) \<le> cutoff"
    if "(f, rs) \<in> set (files_below_cutoff cutoff (records_by_file records))"
    using that by (fastforce simp: files_below_cutoff_def map_filter_def dest: records_by_file_entry
        split: if_splits)
  show "rs = pending_prune (filter (\<lambda>r. rec_file_number r = f) records)"
  proof (cases m)
    case None
    with assms below show ?thesis by (simp add: files_to_prune_def Let_def)
  next
    case (Some b)
    with assms below show ?thesis
      by (auto simp: files_to_prune_def Let_def dest!: files_over_target_entry records_by_file_entry)
  qed
  assume m: "m = None" and r: "r \<in> set rs"
  let ?rs = "filter (\<lambda>r. rec_file_number r = f) records"
  have "file_max_height ?rs \<le> cutoff" and "rs = pending_prune ?rs"
    using assms below m by (simp_all add: files_to_prune_def Let_def)
  moreover have "rec_height r \<le> file_max_height ?rs"
    using r \<open>rs = pending_prune ?rs\<close>
    by (auto simp: file_max_height_def fold_max_Max pending_prune_def)
  ultimately show "rec_height r \<le> cutoff" by (metis order_trans)
qed

lemma from_index_cong:
  assumes "tab_block_transactions (db_tables db') = tab_block_transactions (db_tables db)"
    and "tab_transactions (db_tables db') = tab_transactions (db_tables db)"
  shows "load_block_from_index P db' r = load_block_from_index P db r"
    and "load_block_from_index P db (r\<lparr>rec_pruned := x\<rparr>) = load_block_from_index P db r"
proof -
  have "load_indexed_transaction db' = load_indexed_transaction db"
    by (simp add: load_indexed_transaction_def load_transaction_def fun_eq_iff assms)
  then show "load_block_from_index P db' r = load_block_from_index P db r"
    unfolding load_block_from_index_def load_block_transactions_def assms by (rule ssubst) (rule refl)
  show "load_block_from_index P db (r\<lparr>rec_pruned := x\<rparr>) = load_block_from_index P db r"
    by (simp add: load_block_from_index_def with_record_fees_def [abs_def] record_header_def cong: if_cong)
qed

lemma load_block_cong:
  assumes rec: "load_block_record db' h = load_block_record db h"
    and tabs: "tab_block_transactions (db_tables db') = tab_block_transactions (db_tables db)"
      "tab_transactions (db_tables db') = tab_transactions (db_tables db)"
    and raw: "\<And>r. load_block_record db h = Some r \<Longrightarrow> \<not> rec_pruned r \<Longrightarrow>
      read_archived_block P (db_store db') (file_location r)
        = read_archived_block P (db_store db) (file_location r)"
  shows "load_block P db' h = load_block P db h"
proof (cases "load_block_record db h")
  case (Some r)
  note idx = from_index_cong(1) [OF tabs, of P r]
  show ?thesis
  proof (cases "rec_pruned r")
    case True
    then show ?thesis by (simp add: load_block_def rec Some idx)
  next
    case False
    from raw [OF Some False] show ?thesis unfolding load_block_def rec Some option.case idx by simp
  qed
qed (simp add: load_block_def rec)

lemma record_listed:
  assumes "archive_ok P db"
  shows "r \<in> set (list_block_records db) \<longleftrightarrow> load_block_record db (rec_block_hash r) = Some r"
proof
  assume "r \<in> set (list_block_records db)"
  then obtain k where "(k, r) \<in> set (tab_blocks (db_tables db))" by (auto simp: list_block_records_def)
  then have "load_block_record db k = Some r"
    using assms by (simp add: archive_ok_def load_block_record_def)
  with archive_okD(1) [OF assms this] show "load_block_record db (rec_block_hash r) = Some r" by simp
next
  assume "load_block_record db (rec_block_hash r) = Some r"
  then show "r \<in> set (list_block_records db)"
    by (force simp: load_block_record_def list_block_records_def dest: map_of_SomeD)
qed

text \<open>What one pruning pass does to a database whose archive is in order.\<close>

definition pruned_db ::
  "(u64 \<times> block_archive_record list) list \<Rightarrow> bool \<Rightarrow> database \<Rightarrow> database \<Rightarrow> bool" where
  "pruned_db files deleted db db' \<longleftrightarrow>
     db_tables db' = fold mark_pruned (concat (map snd files)) (db_tables db)
     \<and> db_store db' = (if deleted then fold (\<lambda>(f, _) s. delete_file s f) files (db_store db)
                        else db_store db)"

lemma prune_cases:
  assumes "prune_archived_blocks m db tph depth = (db', res)"
  obtains "db_tables db' = db_tables db" "db_store db' = db_store db"
  | cutoff deleted where "checked_sub tph depth = Some cutoff"
      "pruned_db (files_to_prune m tph cutoff (list_block_records db)) deleted db db'"
proof (cases "checked_sub tph depth")
  case None
  with assms that(1) show thesis by (auto simp: prune_archived_blocks_def)
next
  case (Some cutoff)
  let ?fs = "files_to_prune m tph cutoff (list_block_records db)"
  show thesis
  proof (cases "?fs = []")
    case True
    with assms Some that(1) show thesis by (auto simp: prune_archived_blocks_def Let_def)
  next
    case False
    then show thesis
      using assms Some that(1) that(2) [OF Some, of True] that(2) [OF Some, of False]
      by (cases "next_outcome db") (simp_all add: prune_archived_blocks_def Let_def pruned_db_def, auto)
  qed
qed

lemma pruned_records:
  assumes ok: "archive_ok P db" and p: "pruned_db files deleted db db'"
    and fs: "\<forall>(f, rs)\<in>set files. rs = pending_prune (filter (\<lambda>r. rec_file_number r = f) (list_block_records db))"
  shows "load_block_record db' h = (case load_block_record db h of None \<Rightarrow> None
     | Some r \<Rightarrow> Some (if \<not> rec_pruned r \<and> rec_file_number r \<in> fst ` set files
                        then r\<lparr>rec_pruned := True\<rparr> else r))"
proof -
  let ?rs = "concat (map snd files)" and ?f = "\<lambda>h. the (load_block_record db h)"
  have mem: "r \<in> set ?rs \<longleftrightarrow> load_block_record db (rec_block_hash r) = Some r \<and> \<not> rec_pruned r
      \<and> rec_file_number r \<in> fst ` set files" for r
    using fs by (force simp: pending_prune_def record_listed [OF ok] split_beta)
  have "map_of (tab_blocks (fold mark_pruned ?rs (db_tables db))) h =
     (if h \<in> rec_block_hash ` set ?rs then Some ((?f h)\<lparr>rec_pruned := True\<rparr>)
      else map_of (tab_blocks (db_tables db)) h)"
    by (rule mark_pruned_blocks) (use mem in auto)
  moreover have "h \<in> rec_block_hash ` set ?rs \<longleftrightarrow> (\<exists>r. load_block_record db h = Some r
      \<and> \<not> rec_pruned r \<and> rec_file_number r \<in> fst ` set files)"
    using mem archive_okD(1) [OF ok] by (metis (no_types, lifting) image_iff)
  ultimately show ?thesis
    using p by (auto simp: load_block_record_def pruned_db_def split: option.splits)
qed

lemma pruned_load_block:
  assumes ok: "archive_ok P db" and p: "pruned_db files deleted db db'"
    and fs: "\<forall>(f, rs)\<in>set files. rs = pending_prune (filter (\<lambda>r. rec_file_number r = f) (list_block_records db))"
  shows "load_block P db' h = load_block P db h"
proof (cases "load_block_record db h")
  case None
  then show ?thesis by (simp add: load_block_def pruned_records [OF assms])
next
  case (Some r)
  have tabs: "tab_block_transactions (db_tables db') = tab_block_transactions (db_tables db)"
    "tab_transactions (db_tables db') = tab_transactions (db_tables db)"
    using p by (simp_all add: pruned_db_def)
  note idx = from_index_cong [OF tabs]
  show ?thesis
  proof (cases "rec_pruned r \<or> rec_file_number r \<in> fst ` set files")
    case True
    then have "load_block P db' h = load_block_from_index P db r"
      using Some idx by (auto simp: load_block_def pruned_records [OF assms])
    then show ?thesis using archive_okD(2) [OF ok Some] by simp
  next
    case False
    then have "load_block_record db' h = Some r" using Some by (simp add: pruned_records [OF assms])
    moreover have "read_archived_block P (db_store db') (file_location r)
        = read_archived_block P (db_store db) (file_location r)"
      by (rule read_cong) (use p False in \<open>auto simp: pruned_db_def delete_files_content file_location_def\<close>)
    ultimately show ?thesis using Some tabs by (intro load_block_cong) auto
  qed
qed

lemma pruned_index:
  assumes "archive_ok P db" and p: "pruned_db files deleted db db'"
    and "\<forall>(f, rs)\<in>set files. rs = pending_prune (filter (\<lambda>r. rec_file_number r = f) (list_block_records db))"
    and "load_block_record db' h = Some r'"
  shows "rec_block_hash r' = h" and "load_block_from_index P db' r' = load_block P db h"
    and "\<exists>b. load_block P db h = Inr (Some b)"
proof -
  obtain r x where r: "load_block_record db h = Some r" and r': "r' = r \<or> r' = r\<lparr>rec_pruned := True\<rparr>"
    using assms(4) unfolding pruned_records [OF assms(1-3)] by (auto split: option.splits)
  have tabs: "tab_block_transactions (db_tables db') = tab_block_transactions (db_tables db)"
    "tab_transactions (db_tables db') = tab_transactions (db_tables db)"
    using p by (simp_all add: pruned_db_def)
  show "rec_block_hash r' = h" using archive_okD(1) [OF assms(1) r] r' by auto
  show "load_block_from_index P db' r' = load_block P db h"
    using archive_okD(2) [OF assms(1) r] from_index_cong [OF tabs] r' by auto
  show "\<exists>b. load_block P db h = Inr (Some b)" by (rule archive_okD(3) [OF assms(1) r])
qed


section \<open>The height index\<close>

text \<open>Records hang under their hashes and link to a record one lower, down to height zero.\<close>

definition parent_links :: "tables \<Rightarrow> bool" where
  "parent_links t \<longleftrightarrow> (\<forall>h r. map_of (tab_blocks t) h = Some r \<longrightarrow> rec_block_hash r = h
     \<and> (rec_height r = 0 \<or> (\<exists>p. map_of (tab_blocks t) (rec_previous_block_hash r) = Some p
          \<and> unat (rec_height r) = Suc (unat (rec_height p)))))"

lemma parent_linksD:
  assumes "parent_links t" and "map_of (tab_blocks t) h = Some r"
  shows "rec_block_hash r = h"
    and "rec_height r \<noteq> 0 \<Longrightarrow> \<exists>p. map_of (tab_blocks t) (rec_previous_block_hash r) = Some p
      \<and> unat (rec_height r) = Suc (unat (rec_height p))"
  using assms unfolding parent_links_def by blast+

declare rebuild_walk.simps(2) [simp del]

text \<open>Setting the flag of a record keeps everything the walk looks at.\<close>

definition same_links :: "tables \<Rightarrow> tables \<Rightarrow> bool" where
  "same_links t t' \<longleftrightarrow> (\<forall>h. map_option (\<lambda>r. r\<lparr>rec_main_chain := True\<rparr>) (map_of (tab_blocks t) h)
     = map_option (\<lambda>r. r\<lparr>rec_main_chain := True\<rparr>) (map_of (tab_blocks t') h))"

lemma same_linksD:
  assumes "same_links t t'" and "map_of (tab_blocks t) h = Some r"
  shows "\<exists>f. map_of (tab_blocks t') h = Some (r\<lparr>rec_main_chain := f\<rparr>)"
proof -
  from assms obtain r' where r': "map_of (tab_blocks t') h = Some r'"
    "r\<lparr>rec_main_chain := True\<rparr> = r'\<lparr>rec_main_chain := True\<rparr>"
    unfolding same_links_def by (metis map_option_eq_Some option.map(2))
  have "r' = r'\<lparr>rec_main_chain := True\<rparr>\<lparr>rec_main_chain := rec_main_chain r'\<rparr>" by simp
  also have "\<dots> = r\<lparr>rec_main_chain := rec_main_chain r'\<rparr>" unfolding r'(2) [symmetric] by simp
  finally show ?thesis using r'(1) by metis
qed

lemma same_links_parent_links:
  assumes s: "same_links t t'" and "parent_links t"
  shows "parent_links t'"
  unfolding parent_links_def
proof (intro allI impI)
  fix h r' assume r': "map_of (tab_blocks t') h = Some r'"
  have s': "same_links t' t" using s by (simp add: same_links_def)
  from same_linksD [OF s' r'] obtain f where r: "map_of (tab_blocks t) h = Some (r'\<lparr>rec_main_chain := f\<rparr>)"
    by blast
  note l = parent_linksD [OF assms(2) r]
  show "rec_block_hash r' = h \<and> (rec_height r' = 0 \<or> (\<exists>p. map_of (tab_blocks t')
      (rec_previous_block_hash r') = Some p \<and> unat (rec_height r') = Suc (unat (rec_height p))))"
  proof (cases "rec_height r' = 0")
    case False
    with l(2) obtain p where "map_of (tab_blocks t) (rec_previous_block_hash r') = Some p"
      "unat (rec_height r') = Suc (unat (rec_height p))" by auto
    with same_linksD [OF s] l(1) show ?thesis by fastforce
  qed (use l(1) in simp)
qed

lemma update_flag_same_links:
  assumes "update_main_chain_flag h f t = Inr t'"
  shows "same_links t t'" and "tab_block_heights t' = tab_block_heights t"
  using assms by (auto simp: update_main_chain_flag_def same_links_def load_block_record_from_txn_def
      update_conv' split: option.splits if_splits)

lemma same_links_trans: "same_links a b \<Longrightarrow> same_links b c \<Longrightarrow> same_links a c"
  by (simp add: same_links_def)

lemma same_links_refl: "tab_blocks a = tab_blocks b \<Longrightarrow> same_links a b"
  by (simp add: same_links_def)

lemma rebuild_walk_step:
  assumes "map_of (tab_blocks t) h = Some r" and "rec_block_hash r = h"
  obtains t' where "rebuild_walk (Suc fuel) h (t, acc) =
      (if rec_height r = 0 then Inr (t', h # acc)
       else rebuild_walk fuel (rec_previous_block_hash r) (t', h # acc))"
    and "same_links t t'" and "tab_block_heights t' = AList.update (rec_height r) h (tab_block_heights t)"
proof -
  let ?t = "t\<lparr>tab_block_heights := AList.update (rec_height r) h (tab_block_heights t)\<rparr>"
  have "\<exists>t'. (if rec_main_chain r then Inr ?t else update_main_chain_flag h True ?t) = Inr t'"
    using assms by (simp add: update_main_chain_flag_def load_block_record_from_txn_def)
  then obtain t' where t': "(if rec_main_chain r then Inr ?t else update_main_chain_flag h True ?t) = Inr t'"
    by blast
  have "same_links ?t t' \<and> tab_block_heights t' = tab_block_heights ?t"
    using t' update_flag_same_links by (auto simp: same_links_refl split: if_splits)
  moreover have "same_links t ?t" by (simp add: same_links_refl)
  ultimately have "same_links t t'" "tab_block_heights t' = tab_block_heights ?t"
    using same_links_trans by blast+
  moreover have "rebuild_walk (Suc fuel) h (t, acc) =
      (if rec_height r = 0 then Inr (t', h # acc)
       else rebuild_walk fuel (rec_previous_block_hash r) (t', h # acc))"
    unfolding rebuild_walk.simps load_block_record_from_txn_def assms(1) option.case Let_def assms(2) t'
    by simp
  ultimately show thesis using that by simp
qed

text \<open>The walk ends with fuel for every height below the tip, and indexes no height above it.\<close>

lemma rebuild_walk_enough_fuel:
  assumes "parent_links t" and "map_of (tab_blocks t) h = Some r" and "unat (rec_height r) < fuel"
  shows "\<exists>t' acc'. rebuild_walk fuel h (t, acc) = Inr (t', acc') \<and> same_links t t'
    \<and> (\<forall>k. rec_height r < k \<longrightarrow> map_of (tab_block_heights t') k = map_of (tab_block_heights t) k)
    \<and> map_of (tab_block_heights t') (rec_height r) = Some h"
  using assms
proof (induction fuel arbitrary: t h r acc)
  case (Suc fuel)
  note l = parent_linksD [OF Suc.prems(1,2)]
  from rebuild_walk_step [OF Suc.prems(2) l(1)] obtain t1 where
    w: "rebuild_walk (Suc fuel) h (t, acc) = (if rec_height r = 0 then Inr (t1, h # acc)
       else rebuild_walk fuel (rec_previous_block_hash r) (t1, h # acc))"
    and s: "same_links t t1" and i: "tab_block_heights t1 = AList.update (rec_height r) h (tab_block_heights t)"
    by blast
  show ?case
  proof (cases "rec_height r = 0")
    case True
    then show ?thesis by (simp add: w s i update_conv')
  next
    case False
    from l(2) [OF False] obtain p where p: "map_of (tab_blocks t) (rec_previous_block_hash r) = Some p"
      "unat (rec_height r) = Suc (unat (rec_height p))" by blast
    from same_linksD [OF s p(1)] obtain f where
      p1: "map_of (tab_blocks t1) (rec_previous_block_hash r) = Some (p\<lparr>rec_main_chain := f\<rparr>)" by blast
    have "unat (rec_height (p\<lparr>rec_main_chain := f\<rparr>)) < fuel" using p(2) Suc.prems(3) by simp
    from Suc.IH [OF same_links_parent_links [OF s Suc.prems(1)] p1 this, of "h # acc"]
    obtain t' acc' where t': "rebuild_walk fuel (rec_previous_block_hash r) (t1, h # acc) = Inr (t', acc')"
      "same_links t1 t'"
      "\<forall>k. rec_height p < k \<longrightarrow> map_of (tab_block_heights t') k = map_of (tab_block_heights t1) k"
      by auto
    have lt: "rec_height p < rec_height r" using p(2) by (simp add: word_less_nat_alt)
    have "map_of (tab_block_heights t') k = map_of (tab_block_heights t1) k" if "rec_height r \<le> k" for k
      using t'(3) lt that by auto
    then show ?thesis using w False t'(1) same_links_trans [OF s t'(2)] by (auto simp: i update_conv')
  qed
qed simp

lemma chain_heights_listed:
  assumes "parent_links t" and "map_of (tab_blocks t) h = Some r"
  shows "{..unat (rec_height r)} \<subseteq> (\<lambda>r. unat (rec_height r)) ` set (map snd (tab_blocks t))"
  using assms(2)
proof (induction "unat (rec_height r)" arbitrary: h r)
  case 0
  then have "r \<in> set (map snd (tab_blocks t))" by (force dest: map_of_SomeD)
  with 0(1) show ?case by (auto simp: image_iff)
next
  case (Suc n)
  from Suc.hyps(2) have "rec_height r \<noteq> 0" by auto
  with parent_linksD(2) [OF assms(1) Suc.prems] obtain p where
    p: "map_of (tab_blocks t) (rec_previous_block_hash r) = Some p"
    "unat (rec_height r) = Suc (unat (rec_height p))" by blast
  have "r \<in> set (map snd (tab_blocks t))" using Suc.prems by (force dest: map_of_SomeD)
  moreover have "{..unat (rec_height r)} = insert (unat (rec_height r)) {..unat (rec_height p)}"
    using p(2) by auto
  moreover have "{..unat (rec_height p)} \<subseteq> (\<lambda>r. unat (rec_height r)) ` set (map snd (tab_blocks t))"
    using Suc.hyps(1) [OF _ p(1)] Suc.hyps(2) p(2) by simp
  ultimately show ?case by blast
qed

lemma height_below_records:
  assumes "parent_links t" and "map_of (tab_blocks t) h = Some r"
  shows "unat (rec_height r) < Suc (length (tab_blocks t))"
proof -
  have "Suc (unat (rec_height r)) = card {..unat (rec_height r)}" by simp
  also have "\<dots> \<le> card ((\<lambda>r. unat (rec_height r)) ` set (map snd (tab_blocks t)))"
    by (intro card_mono chain_heights_listed [OF assms]) simp
  also have "\<dots> \<le> length (map snd (tab_blocks t))"
    using card_image_le card_length by (metis List.finite_set order_trans)
  finally show ?thesis by simp
qed

lemma clear_flags:
  assumes "rfold (\<lambda>h t. if h \<in> S then Inr t else update_main_chain_flag h False t) hs t = Inr t'"
  shows "same_links t t' \<and> tab_block_heights t' = tab_block_heights t"
  using assms
proof (induction hs arbitrary: t)
  case Nil
  then show ?case by (simp add: same_links_refl)
next
  case (Cons h hs)
  from Cons.prems obtain t1 where "(if h \<in> S then Inr t else update_main_chain_flag h False t) = Inr t1"
    and rest: "rfold (\<lambda>h t. if h \<in> S then Inr t else update_main_chain_flag h False t) hs t1 = Inr t'"
    by auto
  then have "same_links t t1 \<and> tab_block_heights t1 = tab_block_heights t"
    using update_flag_same_links by (auto simp: same_links_refl split: if_splits)
  with Cons.IH [OF rest] show ?case using same_links_trans by metis
qed

lemma rebuild_height_index_spec:
  assumes "parent_links t" and "map_of (tab_blocks t) h = Some r" and "h \<noteq> replicate 48 0"
    and "rebuild_height_index h t = Inr t'"
  shows "same_links t t'" and "rec_height r < k \<Longrightarrow> map_of (tab_block_heights t') k = None"
    and "map_of (tab_block_heights t') (rec_height r) = Some h"
proof -
  let ?t = "t\<lparr>tab_block_heights := []\<rparr>"
  have "parent_links ?t" "map_of (tab_blocks ?t) h = Some r"
    "unat (rec_height r) < Suc (length (tab_blocks ?t))"
    using assms(1,2) height_below_records [OF assms(1,2)] by (simp_all add: parent_links_def)
  from rebuild_walk_enough_fuel [OF this, of "[]"] obtain t1 acc where
    w: "rebuild_walk (Suc (length (tab_blocks t))) h (?t, []) = Inr (t1, acc)" and s: "same_links ?t t1"
    and i: "\<forall>k. rec_height r < k \<longrightarrow> map_of (tab_block_heights t1) k = None"
      "map_of (tab_block_heights t1) (rec_height r) = Some h" by auto
  have "rfold (\<lambda>h t. if h \<in> set acc then Inr t else update_main_chain_flag h False t)
      (current_main_chain_hashes t) t1 = Inr t'"
    using assms(3,4) w by (simp add: rebuild_height_index_def Let_def)
  note c = clear_flags [OF this]
  show "same_links t t'" using s c same_links_trans by (simp add: same_links_def)
  show "rec_height r < k \<Longrightarrow> map_of (tab_block_heights t') k = None"
    and "map_of (tab_block_heights t') (rec_height r) = Some h"
    using i c by auto
qed

section \<open>Commits are atomic\<close>

lemma archive_append_keeps:
  assumes "archive_append P app db = (db', r)"
  shows "db_tables db' = db_tables db" and "db_network db' = db_network db"
  using assms by (auto simp: archive_append_def split: option.splits prod.splits if_splits sum.splits)

lemma journaled_success:
  assumes "journaled write db = (db', Inr u)"
  shows "\<exists>db1 t. write (db\<lparr>db_outcomes := tl (db_outcomes db), db_journal := True\<rparr>) = (db1, Inr t)
    \<and> db' = db1\<lparr>db_tables := t, db_journal := False\<rparr>"
  using assms by (auto simp: journaled_def Let_def split: write_outcome.splits prod.splits sum.splits)

lemma journaled_failure:
  assumes "journaled write db = (db', Inl err)"
  shows "db' = db\<lparr>db_outcomes := tl (db_outcomes db)\<rparr>
    \<or> (\<exists>db1 r. write (db\<lparr>db_outcomes := tl (db_outcomes db), db_journal := True\<rparr>) = (db1, r)
         \<and> (db' = db1 \<or> next_outcome db = FailsAfterCommit err
              \<and> (\<exists>t. r = Inr t \<and> db' = db1\<lparr>db_tables := t\<rparr>)))"
  using assms by (auto simp: journaled_def Let_def split: write_outcome.splits prod.splits sum.splits)

lemma commit_success:
  assumes "commit_chainstate P now db snap utxos app = (db', Inr u)"
  shows "\<exists>db1 arch. archive_append P app (db\<lparr>db_outcomes := tl (db_outcomes db), db_journal := True\<rparr>)
      = (db1, Inr arch)
    \<and> commit_tables P now (db_network db) snap utxos app arch (db_tables db) = Inr (db_tables db')
    \<and> db_store db' = db_store db1 \<and> db_network db' = db_network db"
proof -
  from journaled_success [OF assms [unfolded commit_chainstate_def]] obtain db1 arch t where
    a: "archive_append P app (db\<lparr>db_outcomes := tl (db_outcomes db), db_journal := True\<rparr>) = (db1, Inr arch)"
    and t: "commit_tables P now (db_network db1) snap utxos app arch (db_tables db1) = Inr t"
    and db': "db' = db1\<lparr>db_tables := t, db_journal := False\<rparr>"
    by (auto split: prod.splits sum.splits)
  with archive_append_keeps [OF a] show ?thesis by simp
qed

lemma commit_failure_tables:
  assumes "commit_chainstate P now db snap utxos app = (db', Inl err)"
    and "next_outcome db \<noteq> FailsAfterCommit err"
  shows "db_tables db' = db_tables db"
  using journaled_failure [OF assms(1) [unfolded commit_chainstate_def]] assms(2)
  by (auto split: prod.splits sum.splits dest: archive_append_keeps)

text \<open>A commit without an appended block replaces the table of unspent outputs.\<close>

lemma rfold_keeps:
  assumes "rfold f xs t = Inr t'" and "\<And>x t t'. f x t = Inr t' \<Longrightarrow> g t' = g t"
  shows "g t' = g t"
  using assms(1) by (induction xs arbitrary: t) (auto dest: assms(2))

lemma update_flag_keeps:
  assumes "update_main_chain_flag h f t = Inr t'"
  shows "meta_chainstate t' = meta_chainstate t \<and> tab_utxos t' = tab_utxos t
    \<and> tab_transactions t' = tab_transactions t
    \<and> tab_block_transactions t' = tab_block_transactions t"
  using assms by (auto simp: update_main_chain_flag_def split: option.splits if_splits)

lemma rebuild_walk_keeps:
  assumes "rebuild_walk fuel h (t, acc) = Inr (t', acc')"
  shows "meta_chainstate t' = meta_chainstate t \<and> tab_utxos t' = tab_utxos t
    \<and> tab_transactions t' = tab_transactions t
    \<and> tab_block_transactions t' = tab_block_transactions t"
  using assms
proof (induction fuel arbitrary: h t acc)
  case (Suc fuel)
  then obtain r where r: "load_block_record_from_txn t h = Some r"
    by (auto simp: rebuild_walk.simps split: option.splits)
  let ?t = "t\<lparr>tab_block_heights := AList.update (rec_height r) (rec_block_hash r) (tab_block_heights t)\<rparr>"
  from Suc.prems r obtain t1 where
    t1: "(if rec_main_chain r then Inr ?t else update_main_chain_flag (rec_block_hash r) True ?t) = Inr t1"
    and rest: "(if rec_height r = 0 then Inr (t1, rec_block_hash r # acc)
      else rebuild_walk fuel (rec_previous_block_hash r) (t1, rec_block_hash r # acc)) = Inr (t', acc')"
    by (auto simp: rebuild_walk.simps Let_def)
  have "meta_chainstate t1 = meta_chainstate t \<and> tab_utxos t1 = tab_utxos t
    \<and> tab_transactions t1 = tab_transactions t \<and> tab_block_transactions t1 = tab_block_transactions t"
    using t1 by (auto split: if_splits dest: update_flag_keeps)
  with rest Suc.IH show ?case by (metis Inr_inject Pair_inject)
qed simp

lemma rebuild_height_index_keeps:
  assumes "rebuild_height_index h t = Inr t'"
  shows "meta_chainstate t' = meta_chainstate t \<and> tab_utxos t' = tab_utxos t
    \<and> tab_transactions t' = tab_transactions t
    \<and> tab_block_transactions t' = tab_block_transactions t"
proof -
  define g where "g t = (meta_chainstate t, tab_utxos t, tab_transactions t, tab_block_transactions t)" for t :: tables
  let ?t = "t\<lparr>tab_block_heights := []\<rparr>"
  have flag: "update_main_chain_flag h f t = Inr t' \<Longrightarrow> g t' = g t" for h f t t'
    by (auto simp: g_def dest: update_flag_keeps)
  have "g t' = g ?t"
  proof (cases "h = replicate 48 0")
    case True
    with assms have "rfold (\<lambda>h. update_main_chain_flag h False) (current_main_chain_hashes t) ?t = Inr t'"
      by (simp add: rebuild_height_index_def Let_def)
    then show ?thesis by (rule rfold_keeps) (rule flag)
  next
    case False
    with assms obtain t1 acc where w: "rebuild_walk (Suc (length (tab_blocks t))) h (?t, []) = Inr (t1, acc)"
      and f: "rfold (\<lambda>h t. if h \<in> set acc then Inr t else update_main_chain_flag h False t)
        (current_main_chain_hashes t) t1 = Inr t'"
      by (auto simp: rebuild_height_index_def Let_def)
    have "g t' = g t1" by (rule rfold_keeps [OF f]) (auto split: if_splits dest: flag)
    also have "g t1 = g ?t" using rebuild_walk_keeps [OF w] by (simp add: g_def)
    finally show ?thesis .
  qed
  then show ?thesis by (simp add: g_def)
qed

lemma stored_entries:
  "distinct (map entry_key es) \<Longrightarrow> map_of (fold (\<lambda>e. AList.update (entry_key e) e) es al)
     = map_of al ++ entries_of es"
proof (induction es arbitrary: al)
  case (Cons e es)
  have "map_of (AList.update (entry_key e) e al) ++ entries_of es
      = map_of al ++ entries_of (e # es)"
  proof
    fix k
    have "entry_key e \<notin> dom (entries_of es)" using Cons.prems by simp
    then show "(map_of (AList.update (entry_key e) e al) ++ entries_of es) k
        = (map_of al ++ entries_of (e # es)) k"
      by (auto simp: map_add_def update_conv' domIff simp del: dom_entries_of split: option.splits)
  qed
  moreover have "map_of (fold (\<lambda>e. AList.update (entry_key e) e) es (AList.update (entry_key e) e al))
      = map_of (AList.update (entry_key e) e al) ++ entries_of es"
    using Cons by (intro Cons.IH) simp
  ultimately show ?case by (simp only: fold.simps o_apply)
qed simp

text \<open>What a snapshot commit leaves in the tables.\<close>

lemma snapshot_commit:
  assumes "commit_chainstate P now db snap utxos None = (db', Inr u)" and "distinct (map entry_key utxos)"
  shows "load_chainstate_snapshot db' = Some snap"
    and "map_of (tab_utxos (db_tables db')) = entries_of utxos"
    and "db_network db' = db_network db"
proof -
  from commit_success [OF assms(1)] have n: "db_network db' = db_network db"
    and t: "rebuild_height_index (snap_tip_hash snap) ((db_tables db)\<lparr>meta_chainstate := Some snap,
      tab_utxos := fold (\<lambda>e. AList.update (entry_key e) e) utxos []\<rparr>) = Inr (db_tables db')"
    by (auto simp: archive_append_def commit_tables_def)
  note k = rebuild_height_index_keeps [OF t]
  show "load_chainstate_snapshot db' = Some snap" using k by (simp add: load_chainstate_snapshot_def)
  show "map_of (tab_utxos (db_tables db')) = entries_of utxos" using k stored_entries [OF assms(2), of "[]"] by simp
  show "db_network db' = db_network db" by (rule n)
qed

lemma snapshot_commit_heights:
  assumes "commit_chainstate P now db snap utxos None = (db', Inr u)"
    and "parent_links (db_tables db)" and "load_block_record db (snap_tip_hash snap) = Some r"
    and "snap_tip_hash snap \<noteq> replicate 48 0"
  shows "same_links (db_tables db) (db_tables db')"
    and "rec_height r < k \<Longrightarrow> load_block_hash_by_height db' k = None"
    and "load_block_hash_by_height db' (rec_height r) = Some (snap_tip_hash snap)"
proof -
  let ?t = "(db_tables db)\<lparr>meta_chainstate := Some snap,
      tab_utxos := fold (\<lambda>e. AList.update (entry_key e) e) utxos []\<rparr>"
  have t: "rebuild_height_index (snap_tip_hash snap) ?t = Inr (db_tables db')"
    using commit_success [OF assms(1)] by (auto simp: archive_append_def commit_tables_def)
  have "parent_links ?t" "map_of (tab_blocks ?t) (snap_tip_hash snap) = Some r"
    using assms(2,3) by (simp_all add: parent_links_def load_block_record_def)
  note h = rebuild_height_index_spec [OF this assms(4) t]
  show "same_links (db_tables db) (db_tables db')" using h(1) by (simp add: same_links_def)
  show "rec_height r < k \<Longrightarrow> load_block_hash_by_height db' k = None"
    and "load_block_hash_by_height db' (rec_height r) = Some (snap_tip_hash snap)"
    using h(2,3) by (simp_all add: load_block_hash_by_height_def)
qed

text \<open>A block that has a record is not archived again: the commit writes the tip and the delta only.\<close>

lemma delta_keeps:
  assumes "apply_utxo_delta P n b t = Inr t'"
  shows "tab_blocks t' = tab_blocks t \<and> tab_block_heights t' = tab_block_heights t
    \<and> meta_chainstate t' = meta_chainstate t"
proof -
  define g where "g t = (tab_blocks t, tab_block_heights t, meta_chainstate t)" for t :: tables
  have i: "g (fold delta_input is t) = g t" for "is" and t
    by (induction "is" arbitrary: t) (simp_all add: g_def delta_input_def)
  have o: "delta_output e t = Inr t' \<Longrightarrow> g t' = g t" for e t t'
    by (auto simp: delta_output_def g_def split: if_splits)
  have "g t' = g t" if "delta_transaction P n h tx t = Inr t'" for h tx t t'
    using rfold_keeps [OF that [unfolded delta_transaction_def], of g] o i by metis
  then have "g t' = g t" by (rule rfold_keeps [OF assms [unfolded apply_utxo_delta_def]])
  then show ?thesis by (simp add: g_def)
qed

lemma recommit:
  assumes "commit_chainstate P now db snap utxos (Some (hgt, b)) = (db', Inr u)"
    and "load_block_record db (block_hash P (header b)) \<noteq> None"
  shows "load_chainstate_snapshot db' = Some snap"
    and "tab_blocks (db_tables db') = tab_blocks (db_tables db)"
    and "tab_block_heights (db_tables db') = tab_block_heights (db_tables db)"
proof -
  from commit_success [OF assms(1)] obtain arch db1 where
    a: "archive_append P (Some (hgt, b)) (db\<lparr>db_outcomes := tl (db_outcomes db), db_journal := True\<rparr>)
      = (db1, Inr arch)"
    and c: "commit_tables P now (db_network db) snap utxos (Some (hgt, b)) arch (db_tables db)
      = Inr (db_tables db')" by blast
  have "arch = None"
    using a assms(2) by (auto simp: archive_append_def load_block_record_def split: if_splits)
  with c have "apply_utxo_delta P (db_network db) b ((db_tables db)\<lparr>meta_chainstate := Some snap\<rparr>)
      = Inr (db_tables db')" by (simp add: commit_tables_def)
  from delta_keeps [OF this] show "load_chainstate_snapshot db' = Some snap"
    and "tab_blocks (db_tables db') = tab_blocks (db_tables db)"
    and "tab_block_heights (db_tables db') = tab_block_heights (db_tables db)"
    by (simp_all add: load_chainstate_snapshot_def)
qed

text \<open>C28: A block that is disconnected and connected again disappears from the height index. The
  snapshot commit of the disconnection cuts the index at the parent; the commit of the
  reconnection finds the record of the block and skips the archive, and with it the index entry
  and the main-chain flag. The stored tip is then a block that no height leads to.\<close>

theorem reconnected_block_missing_from_height_index:
  assumes links: "parent_links (db_tables db)"
    and parent: "load_block_record db (snap_tip_hash snap) = Some p" "snap_tip_hash snap \<noteq> replicate 48 0"
    and known: "load_block_record db (block_hash P (header b)) \<noteq> None"
    and above: "rec_height p < hgt"
    and off: "commit_chainstate P now db snap utxos None = (db1, Inr ())"
    and on: "commit_chainstate P now' db1 snap' [] (Some (hgt, b)) = (db2, Inr ())"
  shows "load_chainstate_snapshot db2 = Some snap' \<and> load_block_hash_by_height db2 hgt = None
    \<and> load_block_record_by_height db2 hgt = None"
proof -
  note h = snapshot_commit_heights [OF off links parent]
  have "load_block_record db1 (block_hash P (header b)) \<noteq> None"
    using known same_linksD [OF h(1)] by (fastforce simp: load_block_record_def)
  note r = recommit [OF on this]
  have "load_block_hash_by_height db2 hgt = None"
    using h(2) [OF above] r(3) by (simp add: load_block_hash_by_height_def)
  then show ?thesis using r(1) by (simp add: load_block_record_by_height_def)
qed

end
