(* ===== verification/Archive.thy ===== *)
theory Archive
  imports Database
begin

text \<open>
  Properties of the storage engine that need a block to be committed: a new block is archived so
  that it loads again, the snapshot commit of a disconnection always succeeds on a linked archive,
  and the two cases in which the indexes lose a block. The last section holds the concrete
  databases on which the theorems of this theory and of \<open>Database\<close> are applied.
\<close>

section \<open>Archiving a block\<close>

text \<open>The raw bytes of every record that is not pruned can be read and belong to the record.\<close>

definition raw_ok :: "primitives \<Rightarrow> database \<Rightarrow> bool" where
  "raw_ok P db \<longleftrightarrow> (\<forall>h r. load_block_record db h = Some r \<and> \<not> rec_pruned r \<longrightarrow>
     (\<exists>b. read_archived_block P (db_store db) (file_location r) = Inr b
        \<and> block_hash P (header b) = rec_block_hash r \<and> height (header b) = rec_height r))"

definition consensus_founders :: "block_header \<Rightarrow> bool" where
  "consensus_founders h \<longleftrightarrow> founders_hash_sha3_384 h = FOUNDERS_HASH_SHA3_384
     \<and> founders_hash_sha3_512 h = FOUNDERS_HASH_SHA3_512"

lemma archive_transactions_keeps [simp]:
  "tab_blocks (fold (archive_transaction P hgt h) itxs t) = tab_blocks t"
  "tab_block_heights (fold (archive_transaction P hgt h) itxs t) = tab_block_heights t"
  "tab_block_transactions (fold (archive_transaction P hgt h) itxs t) = tab_block_transactions t"
  by (induction itxs arbitrary: t) (auto simp: archive_transaction_def split: prod.splits)

lemma archive_transactions_other:
  "k \<notin> txid P ` snd ` set itxs \<Longrightarrow>
     map_of (tab_transactions (fold (archive_transaction P hgt h) itxs t)) k = map_of (tab_transactions t) k"
  by (induction itxs arbitrary: t) (auto simp: archive_transaction_def update_conv' split: prod.splits)

lemma archive_transactions_own:
  assumes "distinct (map (txid P) txs)" and "i < length txs"
  shows "map_of (tab_transactions (fold (archive_transaction P hgt h) (enumerate n txs) t)) (txid P (txs ! i))
    = Some \<lparr>txr_height = hgt, txr_block_hash = h, txr_tx_index = of_nat (n + i), txr_txid = txid P (txs ! i),
        txr_transaction = txs ! i\<rparr>"
  using assms
proof (induction txs arbitrary: n i t)
  case (Cons tx txs)
  show ?case
  proof (cases i)
    case 0
    have "txid P tx \<notin> txid P ` snd ` set (enumerate (Suc n) txs)"
      using Cons.prems(1) by (auto simp: in_set_enumerate_eq)
    from archive_transactions_other [OF this] 0 show ?thesis
      by (simp add: archive_transaction_def update_conv')
  next
    case (Suc j)
    with Cons.IH [of j "Suc n"] Cons.prems show ?thesis by simp
  qed
qed simp

lemma rcollect_map:
  assumes "\<And>x. x \<in> set xs \<Longrightarrow> f x = Inr (g x)"
  shows "rcollect f xs = Inr (map g xs)"
  using assms by (induction xs) simp_all

lemma rcollect_cong: "(\<And>x. x \<in> set xs \<Longrightarrow> f x = g x) \<Longrightarrow> rcollect f xs = rcollect g xs"
  by (induction xs) simp_all

lemma rcollect_all: "rcollect f xs = Inr ys \<Longrightarrow> x \<in> set xs \<Longrightarrow> \<exists>y. f x = Inr y"
  by (induction xs arbitrary: ys) auto

text \<open>The new record, read back through the transaction index.\<close>

lemma new_block_from_index:
  assumes bt: "map_of (tab_block_transactions (db_tables db)) h
      = Some \<lparr>btr_height = hgt, btr_txids = map (txid P) (transactions b)\<rparr>"
    and own: "\<And>i. i < length (transactions b) \<Longrightarrow> load_transaction db (txid P (transactions b ! i))
      = Some \<lparr>txr_height = hgt, txr_block_hash = h, txr_tx_index = of_nat i,
          txr_txid = txid P (transactions b ! i), txr_transaction = transactions b ! i\<rparr>"
    and r: "r = block_record_of P now (network_id (header b)) hgt b loc cw"
    and h: "h = block_hash P (header b)" "hgt = height (header b)"
    and w: "digest_widths P" and l: "length (transactions b) < u32_bound" and f: "consensus_founders (header b)"
  shows "load_block_from_index P db r = Inr (Some (with_record_fees r (archived P b)))"
proof -
  let ?g = "\<lambda>(i, k). the (load_transaction db k)"
  have len: "length (txid P tx) = 48" for tx using w by (simp add: txid_def)
  have "rcollect (load_indexed_transaction db h hgt) (enumerate 0 (map (txid P) (transactions b)))
      = Inr (map ?g (enumerate 0 (map (txid P) (transactions b))))"
  proof (rule rcollect_map)
    fix x assume "x \<in> set (enumerate 0 (map (txid P) (transactions b)))"
    then obtain i where "i < length (transactions b)" "x = (i, txid P (transactions b ! i))"
      by (auto simp: in_set_enumerate_eq prod_eq_iff)
    then show "load_indexed_transaction db h hgt x = Inr (?g x)"
      by (simp add: load_indexed_transaction_def own len)
  qed
  then have txs: "load_block_transactions db h
      = Inr (map ?g (enumerate 0 (map (txid P) (transactions b))))"
    by (simp add: load_block_transactions_def bt)
  have "map txr_transaction (map ?g (enumerate 0 (map (txid P) (transactions b)))) = transactions b"
  proof (rule nth_equalityI)
    fix i assume "i < length (map txr_transaction (map ?g (enumerate 0 (map (txid P) (transactions b)))))"
    then have "i < length (transactions b)" by simp
    from own [OF this] this show "map txr_transaction (map ?g (enumerate 0
        (map (txid P) (transactions b)))) ! i = transactions b ! i" by (simp add: nth_enumerate_eq)
  qed simp
  moreover have "record_header r = header b"
    using f by (simp add: r record_header_def block_record_of_def consensus_founders_def h(2))
  moreover have "rec_block_hash r = h" "unat (rec_tx_count r) = length (transactions b)"
    using l by (simp_all add: r block_record_of_def h(1) unsigned_of_nat take_bit_nat_eq_self_iff)
  ultimately show ?thesis by (simp add: load_block_from_index_def txs archived_def)
qed

text \<open>The other records, read through the index, when the new identifiers are new.\<close>

lemma old_block_from_index:
  assumes old: "load_block_from_index P db r = Inr (Some b0)"
    and bt: "map_of (tab_block_transactions (db_tables db')) (rec_block_hash r)
      = map_of (tab_block_transactions (db_tables db)) (rec_block_hash r)"
    and tx: "\<And>k. load_transaction db k \<noteq> None \<Longrightarrow> load_transaction db' k = load_transaction db k"
  shows "load_block_from_index P db' r = Inr (Some b0)"
proof -
  have "load_block_transactions db' (rec_block_hash r) = load_block_transactions db (rec_block_hash r)"
  proof (cases "map_of (tab_block_transactions (db_tables db)) (rec_block_hash r)")
    case None
    then show ?thesis by (simp add: load_block_transactions_def bt)
  next
    case (Some order)
    from old Some obtain ys where ys: "rcollect (load_indexed_transaction db (rec_block_hash r)
        (btr_height order)) (enumerate 0 (btr_txids order)) = Inr ys"
      by (auto simp: load_block_from_index_def load_block_transactions_def)
    have "load_indexed_transaction db' (rec_block_hash r) (btr_height order) x
        = load_indexed_transaction db (rec_block_hash r) (btr_height order) x"
      if "x \<in> set (enumerate 0 (btr_txids order))" for x
    proof -
      from rcollect_all [OF ys that] have "load_transaction db (snd x) \<noteq> None"
        by (auto simp: load_indexed_transaction_def split: prod.splits if_splits)
      from tx [OF this] show ?thesis by (cases x) (simp add: load_indexed_transaction_def)
    qed
    then show ?thesis by (simp add: load_block_transactions_def bt Some cong: rcollect_cong)
  qed
  with old show ?thesis by (simp add: load_block_from_index_def)
qed

lemma delta_only_utxos:
  assumes "apply_utxo_delta P n b t = Inr t'"
  shows "t' = t\<lparr>tab_utxos := tab_utxos t'\<rparr>"
proof -
  define g where "g t = t\<lparr>tab_utxos := []\<rparr>" for t :: tables
  have i: "g (fold delta_input is t) = g t" for "is" and t
    by (induction "is" arbitrary: t) (simp_all add: g_def delta_input_def)
  have o: "delta_output e t = Inr t' \<Longrightarrow> g t' = g t" for e t t'
    by (auto simp: delta_output_def g_def split: if_splits)
  have "g t' = g t" if "delta_transaction P n h tx t = Inr t'" for h tx t t'
    using rfold_keeps [OF that [unfolded delta_transaction_def], of g] o i by metis
  then have "g t' = g t" by (rule rfold_keeps [OF assms [unfolded apply_utxo_delta_def]])
  have "t' = (g t')\<lparr>tab_utxos := tab_utxos t'\<rparr>" by (simp add: g_def)
  also have "\<dots> = t\<lparr>tab_utxos := tab_utxos t'\<rparr>" unfolding \<open>g t' = g t\<close> by (simp add: g_def)
  finally show ?thesis .
qed

lemma commit_new_block:
  assumes c: "commit_chainstate P now db snap utxos (Some (hgt, b)) = (db', Inr u)"
    and ok: "store_ok (db_store db)" "archive_append_file_hint db \<noteq> Some (- 1)"
    and b: "archivable (db_network db) b" and n: "store_network (db_store db) = db_network db"
    and new: "load_block_record db (block_hash P (header b)) = None"
  obtains loc cw t us where "db_tables db' = t\<lparr>tab_utxos := us\<rparr>"
    and "t = (fold (archive_transaction P hgt (block_hash P (header b))) (enumerate 0 (transactions b))
        ((db_tables db)\<lparr>tab_blocks := AList.update (block_hash P (header b))
              (block_record_of P now (db_network db) hgt b loc cw) (tab_blocks (db_tables db)),
            tab_block_heights := AList.update hgt (block_hash P (header b)) (tab_block_heights (db_tables db))\<rparr>))
       \<lparr>tab_block_transactions := AList.update (block_hash P (header b))
          \<lparr>btr_height = hgt, btr_txids = map (txid P) (transactions b)\<rparr>
          (tab_block_transactions (db_tables db)), meta_chainstate := Some snap\<rparr>"
    and "read_archived_block P (db_store db') loc = Inr (archived P b)"
    and "\<And>l b0. read_archived_block P (db_store db) l = Inr b0 \<Longrightarrow>
      read_archived_block P (db_store db') l = Inr b0"
proof -
  let ?db = "db\<lparr>db_outcomes := tl (db_outcomes db), db_journal := True\<rparr>"
  let ?h = "block_hash P (header b)" and ?app = "append_block_with_minimum_file_number (db_store db) b
    (archive_append_file_hint db)"
  from commit_success [OF c] obtain arch db1 where
    a: "archive_append P (Some (hgt, b)) ?db = (db1, Inr arch)"
    and t: "commit_tables P now (db_network db) snap utxos (Some (hgt, b)) arch (db_tables db)
      = Inr (db_tables db')" and st: "db_store db' = db_store db1" by blast
  have hint: "archive_append_file_hint ?db = archive_append_file_hint db"
    by (simp add: archive_append_file_hint_def list_block_records_def)
  from archive_roundtrip_parts [OF ok(1) b [folded n] ok(2), of P] obtain store loc where
    app: "?app = (store, Inr loc)"
    and rd: "read_archived_block P store loc = Inr (archived P b)"
      "\<And>l b0. read_archived_block P (db_store db) l = Inr b0 \<Longrightarrow> read_archived_block P store l = Inr b0"
    by blast
  have net: "network_id (header b) = db_network db" using b by (simp add: archivable_def)
  have arch: "arch = Some (hgt, b, loc)" "db_store db1 = store"
    using a net new app hint by (auto simp: archive_append_def load_block_record_def)
  from t [unfolded arch] obtain t1 where
    w: "write_block_archive P now (db_network db) hgt b loc (db_tables db) = Inr t1"
    and d: "apply_utxo_delta P (db_network db) b (t1\<lparr>meta_chainstate := Some snap\<rparr>) = Inr (db_tables db')"
    by (auto simp: commit_tables_def Let_def)
  from w new obtain cw where t1: "t1 = (fold (archive_transaction P hgt ?h) (enumerate 0 (transactions b))
        ((db_tables db)\<lparr>tab_blocks := AList.update ?h
              (block_record_of P now (db_network db) hgt b loc cw) (tab_blocks (db_tables db)),
            tab_block_heights := AList.update hgt ?h (tab_block_heights (db_tables db))\<rparr>))
       \<lparr>tab_block_transactions := AList.update ?h
          \<lparr>btr_height = hgt, btr_txids = map (txid P) (transactions b)\<rparr>
          (tab_block_transactions (db_tables db))\<rparr>"
    by (auto simp: write_block_archive_def Let_def load_block_record_from_txn_def load_block_record_def
        split: if_splits)
  show thesis
  proof (rule that [OF delta_only_utxos [OF d], of loc cw])
    show "read_archived_block P (db_store db') loc = Inr (archived P b)" using rd(1) st arch(2) by simp
    show "read_archived_block P (db_store db') l = Inr b0"
      if "read_archived_block P (db_store db) l = Inr b0" for l b0
      using rd(2) [OF that] st arch(2) by simp
  qed (simp add: t1)
qed

lemma archive_commit_spec:
  assumes w: "digest_widths P" and arch: "archive_ok P db" and raw: "raw_ok P db"
    and ok: "store_ok (db_store db)" "archive_append_file_hint db \<noteq> Some (- 1)"
    and b: "archivable (db_network db) b" and n: "store_network (db_store db) = db_network db"
    and f: "consensus_founders (header b)" and h: "hgt = height (header b)"
    and new: "load_block_record db (block_hash P (header b)) = None"
    and d: "distinct (map (txid P) (transactions b))"
    and fresh: "\<forall>tx\<in>set (transactions b). load_transaction db (txid P tx) = None"
    and c: "commit_chainstate P now db snap utxos (Some (hgt, b)) = (db', Inr ())"
  shows "load_block P db' (block_hash P (header b)) = Inr (Some ((archived P b)
        \<lparr>fees_total_atoms := fees_total_atoms b, fees_miner_atoms := fees_miner_atoms b\<rparr>))
    \<and> load_block_hash_by_height db' hgt = Some (block_hash P (header b))
    \<and> (\<forall>k. load_block_record db k \<noteq> None \<longrightarrow> load_block P db' k = load_block P db k)
    \<and> archive_ok P db' \<and> raw_ok P db'"
proof (rule commit_new_block [OF c ok b n new])
  let ?h = "block_hash P (header b)"
  let ?r = "\<lambda>loc cw. block_record_of P now (db_network db) hgt b loc cw"
  fix loc cw t us
  assume t': "db_tables db' = t\<lparr>tab_utxos := us\<rparr>" and
    t: "t = (fold (archive_transaction P hgt ?h) (enumerate 0 (transactions b))
        ((db_tables db)\<lparr>tab_blocks := AList.update ?h (?r loc cw) (tab_blocks (db_tables db)),
            tab_block_heights := AList.update hgt ?h (tab_block_heights (db_tables db))\<rparr>))
       \<lparr>tab_block_transactions := AList.update ?h
          \<lparr>btr_height = hgt, btr_txids = map (txid P) (transactions b)\<rparr>
          (tab_block_transactions (db_tables db)), meta_chainstate := Some snap\<rparr>"
    and rd: "read_archived_block P (db_store db') loc = Inr (archived P b)"
      "\<And>l b0. read_archived_block P (db_store db) l = Inr b0 \<Longrightarrow>
        read_archived_block P (db_store db') l = Inr b0"
  define r where "r = ?r loc cw"
  have net: "network_id (header b) = db_network db" using b by (simp add: archivable_def)
  have fields: "rec_block_hash r = ?h" "rec_height r = hgt" "\<not> rec_pruned r" "file_location r = loc"
    by (simp_all add: r_def block_record_of_def file_location_def)
  have rec: "load_block_record db' k = (if k = ?h then Some r else load_block_record db k)" for k
    by (simp add: load_block_record_def t' t update_conv' r_def)
  have tx: "load_transaction db' k = load_transaction db k" if "load_transaction db k \<noteq> None" for k
  proof -
    have "k \<notin> txid P ` snd ` set (enumerate 0 (transactions b))"
      using that fresh by (auto simp: in_set_enumerate_eq)
    then show ?thesis by (simp add: load_transaction_def t' t archive_transactions_other)
  qed
  have bt: "map_of (tab_block_transactions (db_tables db')) k
      = map_of (tab_block_transactions (db_tables db)) k" if "k \<noteq> ?h" for k
    using that by (simp add: t' t update_conv')
  have own: "load_transaction db' (txid P (transactions b ! i)) = Some \<lparr>txr_height = hgt,
      txr_block_hash = ?h, txr_tx_index = of_nat i, txr_txid = txid P (transactions b ! i),
      txr_transaction = transactions b ! i\<rparr>" if "i < length (transactions b)" for i
    using archive_transactions_own [OF d that, of hgt ?h 0] by (simp add: load_transaction_def t' t)
  have idx: "load_block_from_index P db' r = Inr (Some (with_record_fees r (archived P b)))"
    by (rule new_block_from_index [OF _ own _ refl h w _ f])
      (use b in \<open>simp_all add: t' t update_conv' r_def net archivable_def\<close>)
  have load: "load_block P db' ?h = Inr (Some (with_record_fees r (archived P b)))"
    by (simp add: load_block_def rec fields rd(1) h)
  have old: "load_block P db' k = load_block P db k \<and> load_block_from_index P db' r0 = load_block P db k
      \<and> (\<not> rec_pruned r0 \<longrightarrow> read_archived_block P (db_store db') (file_location r0)
             = read_archived_block P (db_store db) (file_location r0))"
    if r0: "load_block_record db k = Some r0" for k r0
  proof (cases "rec_pruned r0")
    case True
    have k: "k \<noteq> ?h" using new r0 by auto
    from archive_okD [OF arch r0] obtain b0 where b0: "load_block_from_index P db r0 = Inr (Some b0)"
      "load_block P db k = Inr (Some b0)" "rec_block_hash r0 = k" by auto
    have "load_block_from_index P db' r0 = Inr (Some b0)"
      by (rule old_block_from_index [OF b0(1) _ tx]) (use bt k b0(3) in auto)
    then show ?thesis using True r0 k b0 by (simp add: load_block_def rec)
  next
    case False
    have k: "k \<noteq> ?h" using new r0 by auto
    from archive_okD [OF arch r0] obtain b0 where b0: "load_block_from_index P db r0 = Inr (Some b0)"
      "load_block P db k = Inr (Some b0)" "rec_block_hash r0 = k" by auto
    have i: "load_block_from_index P db' r0 = Inr (Some b0)"
      by (rule old_block_from_index [OF b0(1) _ tx]) (use bt k b0(3) in auto)
    from raw r0 False obtain b1 where b1: "read_archived_block P (db_store db) (file_location r0) = Inr b1"
      "block_hash P (header b1) = rec_block_hash r0" "height (header b1) = rec_height r0"
      unfolding raw_ok_def by blast
    then show ?thesis using False r0 k b0 i rd(2) [OF b1(1)] by (simp add: load_block_def rec)
  qed
  have "with_record_fees r (archived P b) = (archived P b)
      \<lparr>fees_total_atoms := fees_total_atoms b, fees_miner_atoms := fees_miner_atoms b\<rparr>"
    by (simp add: with_record_fees_def r_def block_record_of_def)
  moreover have "load_block_hash_by_height db' hgt = Some ?h"
    by (simp add: load_block_hash_by_height_def t' t update_conv')
  moreover have "archive_ok P db'"
    unfolding archive_ok_def
  proof (intro conjI allI impI)
    show "distinct (map fst (tab_blocks (db_tables db')))"
      using arch by (simp add: t' t archive_ok_def distinct_update)
    fix k r0 assume r0: "load_block_record db' k = Some r0"
    show "rec_block_hash r0 = k" using r0 fields archive_okD(1) [OF arch] by (auto simp: rec split: if_splits)
    show "\<exists>b. load_block P db' k = Inr (Some b) \<and> load_block_from_index P db' r0 = Inr (Some b)"
      using r0 load idx old archive_okD(3) [OF arch] by (cases "k = ?h") (auto simp: rec)
  qed
  moreover have "raw_ok P db'"
    unfolding raw_ok_def
  proof (intro allI impI, elim conjE)
    fix k r0 assume r0: "load_block_record db' k = Some r0" "\<not> rec_pruned r0"
    show "\<exists>b. read_archived_block P (db_store db') (file_location r0) = Inr b
        \<and> block_hash P (header b) = rec_block_hash r0 \<and> height (header b) = rec_height r0"
      using r0 raw old fields rd(1) h unfolding raw_ok_def by (cases "k = ?h") (auto simp: rec)
  qed
  ultimately show ?thesis using load old by auto
qed


text \<open>C29: The transaction index holds one place per transaction. When a block of another branch with a
  transaction of an archived block is connected, the index moves to the new block, and the archived
  block can no longer be rebuilt from it: if its raw bytes are pruned, it cannot be loaded any more,
  not even when its branch becomes the main chain again.\<close>

theorem shared_transaction_index_moves:
  assumes c: "commit_chainstate P now db snap utxos (Some (hgt, b)) = (db', Inr ())"
    and ok: "store_ok (db_store db)" "archive_append_file_hint db \<noteq> Some (- 1)"
    and b: "archivable (db_network db) b" and n: "store_network (db_store db) = db_network db"
    and new: "load_block_record db (block_hash P (header b)) = None"
    and d: "distinct (map (txid P) (transactions b))"
    and r0: "load_block_record db h0 = Some r0" "rec_pruned r0" "rec_block_hash r0 = h0"
    and order: "map_of (tab_block_transactions (db_tables db)) h0 = Some order"
      "txid P tx \<in> set (btr_txids order)" "tx \<in> set (transactions b)"
  shows "\<exists>err. load_block P db' h0 = Inl err"
proof (rule commit_new_block [OF c ok b n new])
  let ?h = "block_hash P (header b)"
  fix loc cw t us
  assume t': "db_tables db' = t\<lparr>tab_utxos := us\<rparr>" and
    t: "t = (fold (archive_transaction P hgt ?h) (enumerate 0 (transactions b))
        ((db_tables db)\<lparr>tab_blocks := AList.update ?h (block_record_of P now (db_network db) hgt b loc cw)
              (tab_blocks (db_tables db)),
            tab_block_heights := AList.update hgt ?h (tab_block_heights (db_tables db))\<rparr>))
       \<lparr>tab_block_transactions := AList.update ?h
          \<lparr>btr_height = hgt, btr_txids = map (txid P) (transactions b)\<rparr>
          (tab_block_transactions (db_tables db)), meta_chainstate := Some snap\<rparr>"
  have ne: "h0 \<noteq> ?h" using new r0(1) by auto
  then have rec: "load_block_record db' h0 = Some r0"
    and bt: "map_of (tab_block_transactions (db_tables db')) h0 = Some order"
    using r0(1) order(1) by (simp_all add: load_block_record_def t' t update_conv')
  from order(3) obtain i where i: "i < length (transactions b)" "transactions b ! i = tx"
    by (auto simp: in_set_conv_nth)
  have moved: "\<exists>r. load_transaction db' (txid P tx) = Some r \<and> txr_block_hash r = ?h"
    using archive_transactions_own [OF d i(1), of hgt ?h 0] by (simp add: load_transaction_def t' t i(2))
  obtain j where "j < length (btr_txids order)" "btr_txids order ! j = txid P tx"
    using order(2) by (auto simp: in_set_conv_nth)
  then have j: "(j, txid P tx) \<in> set (enumerate 0 (btr_txids order))"
    by (simp add: in_set_enumerate_eq)
  have "rcollect (load_indexed_transaction db' h0 (btr_height order)) (enumerate 0 (btr_txids order))
      \<noteq> Inr ys" for ys
    using rcollect_all [OF _ j] moved ne by (fastforce simp: load_indexed_transaction_def split: if_splits)
  then have "\<exists>err. load_block_transactions db' h0 = Inl err"
    unfolding load_block_transactions_def bt option.case by (metis sumE)
  then show ?thesis by (auto simp: load_block_def rec r0 load_block_from_index_def)
qed

section \<open>Examples\<close>

definition empty_tables :: tables where
  "empty_tables = \<lparr>meta_chainstate = None, meta_schema_version = None, meta_storage_metadata = None,
     meta_runtime_state = None, tab_blocks = [], tab_block_heights = [], tab_block_transactions = [],
     tab_transactions = [], tab_utxos = []\<rparr>"

definition empty_database :: database where
  "empty_database = \<lparr>db_network = Mainnet, db_store = \<lparr>store_network = Mainnet, store_files = []\<rparr>,
     db_tables = empty_tables, db_journal = False, db_outcomes = []\<rparr>"

definition example_snapshot :: chainstate_snapshot where
  "example_snapshot = \<lparr>snap_height = 0, snap_tip_hash = replicate 48 1, snap_tip_header = None\<rparr>"

theorem persisted_delta_refines_memory_witness:
  "\<exists>us. apply_utxo_delta example_primitives Testnet example_linked_block
     (empty_tables\<lparr>tab_utxos := [((replicate 48 7, 2), example_entry)]\<rparr>)
   = Inr (empty_tables\<lparr>tab_utxos := us\<rparr>)"
proof -
  let ?t = "empty_tables\<lparr>tab_utxos := [((replicate 48 7, 2), example_entry)]\<rparr>"
  have m: "map_of (tab_utxos ?t) = set_entries example_utxo_set" "set_network example_utxo_set = Testnet"
    by (simp_all add: example_utxo_set_def empty_tables_def)
  obtain s u where "apply_block example_primitives example_utxo_set example_linked_block = (s, Inr u)"
    using example_linked_applies by blast
  from persisted_delta_refines_memory [OF m this] show ?thesis by auto
qed


lemma empty_archive:
  "archive_ok P empty_database" "raw_ok P empty_database" "store_ok (db_store empty_database)"
  "archive_append_file_hint empty_database = None" "load_block_record empty_database h = None"
  "load_transaction empty_database h = None"
  by (simp_all add: archive_ok_def raw_ok_def store_ok_def empty_database_def empty_tables_def
      load_block_record_def load_transaction_def archive_append_file_hint_def highest_file_number_def
      list_block_records_def file_content_def)

lemma example_block_commits:
  assumes net: "db_network db = Mainnet" "store_network (db_store db) = Mainnet"
    and ok: "store_ok (db_store db)" "archive_append_file_hint db \<noteq> Some (- 1)"
    and new: "load_block_record db (block_hash example_primitives (header example_block)) = None"
    and rest: "tab_utxos (db_tables db) = []" "db_outcomes db = []"
  shows "\<exists>db'. commit_chainstate example_primitives 7 db example_snapshot []
     (Some (0, example_block)) = (db', Inr ())"
proof -
  have b: "archivable (store_network (db_store db)) example_block"
    using example_block_archivable by (simp add: net)
  from archive_roundtrip_parts [OF ok(1) b ok(2)] obtain store loc where
    app: "append_block_with_minimum_file_number (db_store db) example_block
      (archive_append_file_hint db) = (store, Inr loc)" by blast
  have nh: "network_id (header example_block) = Mainnet"
    using example_block_archivable by (simp add: archivable_def)
  let ?db = "db\<lparr>db_outcomes := [], db_journal := True\<rparr>"
  have a: "archive_append example_primitives (Some (0, example_block)) ?db
      = (?db\<lparr>db_store := store\<rparr>, Inr (Some (0, example_block, loc)))"
  proof -
    have "archive_append_file_hint ?db = archive_append_file_hint db"
      by (simp add: archive_append_file_hint_def list_block_records_def)
    then show ?thesis using app new by (simp add: archive_append_def nh net load_block_record_def)
  qed
  have "\<exists>t. commit_tables example_primitives 7 Mainnet example_snapshot [] (Some (0, example_block))
      (Some (0, example_block, loc)) (db_tables db) = Inr t"
    using new rest(1)
    by (simp add: commit_tables_def write_block_archive_def load_block_record_from_txn_def Let_def
        load_block_record_def apply_utxo_delta_def example_block_shape delta_transaction_def
        create_outputs_def delta_output_def delta_input_def archive_transaction_def example_spend_def
        utxo_entry_new_def)
  then show ?thesis
    by (auto simp: commit_chainstate_def journaled_def next_outcome_def Let_def a net rest)
qed

lemma example_archive:
  obtains db where "commit_chainstate example_primitives 7 empty_database example_snapshot []
      (Some (0, example_block)) = (db, Inr ())"
proof -
  have "\<exists>db. commit_chainstate example_primitives 7 empty_database example_snapshot []
      (Some (0, example_block)) = (db, Inr ())"
    by (rule example_block_commits) (use empty_archive in \<open>simp_all add: empty_database_def empty_tables_def\<close>)
  then show thesis using that by blast
qed

lemma example_block_parts:
  "archivable (db_network empty_database) example_block"
  "store_network (db_store empty_database) = db_network empty_database"
  "consensus_founders (header example_block)" "0 = height (header example_block)"
  "distinct (map (txid example_primitives) (transactions example_block))"
  "\<forall>tx\<in>set (transactions example_block). load_transaction empty_database (txid example_primitives tx) = None"
  using example_block_archivable empty_archive(6)
  by (simp_all add: empty_database_def example_block_shape consensus_founders_def)
    (simp_all add: default_header_def)



text \<open>A record under a hash that no block of the example has.\<close>

definition example_record :: "bytes \<Rightarrow> u64 \<Rightarrow> block_archive_record" where
  "example_record h hgt = (block_record_of example_primitives 7 Mainnet hgt default_block
     \<lparr>file_number = 0, record_offset = 0, payload_length = 0\<rparr> 0)
     \<lparr>rec_block_hash := h, rec_previous_block_hash := replicate 48 1, rec_pruned := True\<rparr>"

definition shared_database :: database where
  "shared_database = empty_database\<lparr>db_tables := empty_tables\<lparr>
     tab_blocks := [(replicate 48 9, example_record (replicate 48 9) 0)],
     tab_block_transactions := [(replicate 48 9,
       \<lparr>btr_height = 0, btr_txids = [txid example_primitives example_spend]\<rparr>)]\<rparr>\<rparr>"

lemma example_hash_hd: "hd (block_hash example_primitives default_header) = 0"
  unfolding block_hash_canonical [OF default_header_ok]
  by (simp add: example_primitives_def header_canonical_bytes_def default_header_def u16_le_def
      numeral_2_eq_2)

lemma example_hash_other: "x \<noteq> 0 \<Longrightarrow> block_hash example_primitives default_header \<noteq> replicate 48 x"
  using example_hash_hd by (metis hd_replicate numeral_eq_Suc nat.distinct(1))

theorem shared_transaction_index_moves_witness:
  "\<exists>db err. commit_chainstate example_primitives 7 shared_database example_snapshot []
       (Some (0, example_block)) = (db, Inr ())
     \<and> load_block example_primitives db (replicate 48 9) = Inl err"
proof -
  have new: "load_block_record shared_database (block_hash example_primitives (header example_block)) = None"
    using example_hash_other [of 9]
    by (simp add: shared_database_def load_block_record_def example_block_shape)
  have parts: "db_network shared_database = Mainnet" "store_network (db_store shared_database) = Mainnet"
    "store_ok (db_store shared_database)" "archive_append_file_hint shared_database \<noteq> Some (- 1)"
    "tab_utxos (db_tables shared_database) = []" "db_outcomes shared_database = []"
    by (simp_all add: shared_database_def empty_database_def empty_tables_def store_ok_def file_content_def
        archive_append_file_hint_def highest_file_number_def list_block_records_def example_record_def
        block_record_of_def sat_add_def)
  obtain db where c: "commit_chainstate example_primitives 7 shared_database example_snapshot []
      (Some (0, example_block)) = (db, Inr ())"
    using example_block_commits [OF parts(1-4) new parts(5,6)] by blast
  have "\<exists>err. load_block example_primitives db (replicate 48 9) = Inl err"
    by (rule shared_transaction_index_moves [OF c parts(3,4) _ _ new, where tx = example_spend
          and order = "\<lparr>btr_height = 0, btr_txids = [txid example_primitives example_spend]\<rparr>"
          and ?r0.0 = "example_record (replicate 48 9) 0"])
      (use example_block_archivable in \<open>simp_all add: parts example_block_shape, simp_all add:
        shared_database_def load_block_record_def example_record_def\<close>)
  with c show ?thesis by blast
qed

text \<open>Two records: a parent at height 0 and an archived block at height 1.\<close>

definition two_blocks :: database where
  "two_blocks = empty_database\<lparr>db_tables := empty_tables\<lparr>
     tab_blocks := [(replicate 48 1, example_record (replicate 48 1) 0),
       (block_hash example_primitives default_header,
        example_record (block_hash example_primitives default_header) 1)],
     tab_block_heights := [(0, replicate 48 1), (1, block_hash example_primitives default_header)]\<rparr>\<rparr>"

lemma clear_flags_succeeds:
  assumes "\<forall>h\<in>set hs. map_of (tab_blocks t) h \<noteq> None"
  shows "\<exists>t'. rfold (\<lambda>h t. if h \<in> S then Inr t else update_main_chain_flag h False t) hs t = Inr t'"
  using assms
proof (induction hs arbitrary: t)
  case (Cons h hs)
  then have "\<exists>t1. (if h \<in> S then Inr t else update_main_chain_flag h False t) = Inr t1"
    by (auto simp: update_main_chain_flag_def load_block_record_from_txn_def)
  then obtain t1 where t1: "(if h \<in> S then Inr t else update_main_chain_flag h False t) = Inr t1" ..
  then have "same_links t t1" using update_flag_same_links by (auto simp: same_links_refl split: if_splits)
  then have "\<forall>h\<in>set hs. map_of (tab_blocks t1) h \<noteq> None" using Cons.prems same_linksD by fastforce
  from Cons.IH [OF this] t1 show ?case by simp
qed simp

text \<open>A snapshot commit to an archived tip succeeds when nothing outside fails.\<close>

lemma snapshot_commit_succeeds:
  assumes links: "parent_links (db_tables db)" and r: "load_block_record db (snap_tip_hash snap) = Some r"
    and tip: "snap_tip_hash snap \<noteq> replicate 48 0" and out: "next_outcome db = Succeeds"
    and idx: "\<forall>h\<in>set (map snd (tab_block_heights (db_tables db))). load_block_record db h \<noteq> None"
  shows "\<exists>t. commit_chainstate P now db snap utxos None = (db\<lparr>db_outcomes := tl (db_outcomes db),
     db_journal := False, db_tables := t\<rparr>, Inr ())"
proof -
  let ?t = "(db_tables db)\<lparr>meta_chainstate := Some snap,
      tab_utxos := fold (\<lambda>e. AList.update (entry_key e) e) utxos [], tab_block_heights := []\<rparr>"
  let ?h = "snap_tip_hash snap"
  have "parent_links ?t" "map_of (tab_blocks ?t) ?h = Some r"
    using links r by (simp_all add: parent_links_def load_block_record_def)
  from rebuild_walk_enough_fuel [OF this height_below_records [OF this], of "[]"] obtain t1 acc where
    w: "rebuild_walk (Suc (length (tab_blocks (db_tables db)))) ?h (?t, []) = Inr (t1, acc)"
    and s: "same_links ?t t1" by auto
  have "\<forall>h\<in>set (current_main_chain_hashes (db_tables db)). map_of (tab_blocks t1) h \<noteq> None"
    using idx same_linksD [OF s] by (fastforce simp: current_main_chain_hashes_def load_block_record_def)
  from clear_flags_succeeds [OF this] obtain t2 where
    "rfold (\<lambda>h t. if h \<in> set acc then Inr t else update_main_chain_flag h False t)
      (current_main_chain_hashes (db_tables db)) t1 = Inr t2" by blast
  then have "commit_tables P now n snap utxos None None (db_tables db) = Inr t2" for n
    using w tip by (simp add: commit_tables_def rebuild_height_index_def Let_def current_main_chain_hashes_def)
  then show ?thesis
    using out by (intro exI [of _ t2]) (simp add: commit_chainstate_def journaled_def archive_append_def Let_def)
qed

theorem reconnected_block_missing_from_height_index_witness:
  "\<exists>db1 db2. commit_chainstate example_primitives 7 two_blocks example_snapshot [] None = (db1, Inr ())
     \<and> commit_chainstate example_primitives 8 db1 (example_snapshot\<lparr>snap_height := 1,
          snap_tip_hash := block_hash example_primitives default_header\<rparr>) []
          (Some (1, default_block)) = (db2, Inr ())
     \<and> load_block_hash_by_height db2 1 = None"
proof -
  let ?h = "block_hash example_primitives default_header" and ?g = "replicate 48 1 :: bytes"
  let ?snap = "example_snapshot\<lparr>snap_height := 1, snap_tip_hash := ?h\<rparr>"
  note ne = example_hash_other [of 1, simplified]
  have r: "load_block_record two_blocks ?g = Some (example_record ?g 0)"
    "load_block_record two_blocks ?h = Some (example_record ?h 1)"
    using ne by (auto simp: load_block_record_def two_blocks_def)
  have f: "rec_height (example_record k x) = x" "rec_block_hash (example_record k x) = k"
    "rec_previous_block_hash (example_record k x) = ?g" for k x
    by (simp_all add: example_record_def block_record_of_def)
  have links: "parent_links (db_tables two_blocks)"
    using ne by (auto simp: parent_links_def two_blocks_def f)
  have tip: "snap_tip_hash example_snapshot = ?g" by (simp add: example_snapshot_def)
  have z: "?g \<noteq> replicate 48 0" by (simp add: replicate_eq_replicate)
  obtain t where off: "commit_chainstate example_primitives 7 two_blocks example_snapshot [] None
      = (two_blocks\<lparr>db_outcomes := [], db_journal := False, db_tables := t\<rparr>, Inr ())"
    using snapshot_commit_succeeds [OF links, of example_snapshot "example_record ?g 0" example_primitives 7 "[]"]
      r tip z by (auto simp: two_blocks_def empty_database_def next_outcome_def load_block_record_def)
  let ?db1 = "two_blocks\<lparr>db_outcomes := [], db_journal := False, db_tables := t\<rparr>"
  note sl = snapshot_commit_heights(1) [OF off links, unfolded tip, OF r(1) z]
  have known: "load_block_record ?db1 ?h \<noteq> None"
    using same_linksD [OF sl] r(2) by (fastforce simp: load_block_record_def)
  obtain db2 where on: "commit_chainstate example_primitives 8 ?db1 ?snap [] (Some (1, default_block)) = (db2, Inr ())"
    using known by (auto simp: commit_chainstate_def journaled_def archive_append_def next_outcome_def Let_def
        load_block_record_def commit_tables_def apply_utxo_delta_def default_block_def two_blocks_def
        empty_database_def default_header_def)
  have "load_block_hash_by_height db2 1 = None"
    using reconnected_block_missing_from_height_index [OF links _ _ _ _ off on, of "example_record ?g 0"]
      r tip z by (simp add: f default_block_def)
  with off on show ?thesis by blast
qed

end
