(* ===== verification/Chainstate.thy ===== *)
theory Chainstate
  imports Archive Validation "HOL-Library.Product_Lexorder"
begin

text \<open>
  The chain state (\<^verbatim>\<open>crates/atho-storage/src/chainstate.rs\<close>): the in-memory chain with its undo
  stack on top of the database, connecting and disconnecting blocks, selection of a branch with the
  incremental switch and its rollback journal, the full replacement of the chain, pruning, queries,
  and loading from the database with the start-up checks of \<^verbatim>\<open>db.rs\<close>.

  Every operation passes the state explicitly and returns it with its result. The clock and the
  environment variables are the record \<open>node_env\<close>; the clock is read once per operation. A panic of
  the genesis assertions is outside the model: the genesis block is the one of \<open>Genesis\<close>.
\<close>

section \<open>State\<close>

definition RECENT_BLOCK_RELOAD_LIMIT :: usize where "RECENT_BLOCK_RELOAD_LIMIT = 27"

text \<open>The parsed values of the variables \<^verbatim>\<open>ATHO_PRUNETEST_PRUNE_DEPTH\<close>,
  \<^verbatim>\<open>ATHO_PRUNETEST_MAX_REORG_DEPTH\<close> and \<^verbatim>\<open>ATHO_PRUNE_TARGET_BYTES\<close>.\<close>

record node_env =
  env_now :: u64
  env_prune_depth :: "u64 option"
  env_max_reorg_depth :: "u64 option"
  env_prune_target_bytes :: "u64 option"

record chain_undo =
  previous_tip :: "block_header option"
  previous_tip_hash :: bytes
  undo_of_block :: block_undo

datatype chain_selection_outcome = Extended | Reorged | KeptCurrent

record chain_selection_result =
  sel_outcome :: chain_selection_outcome
  sel_disconnected :: "block list"

record finalized_checkpoint =
  cp_height :: u64
  cp_block_hash :: bytes
  cp_chainwork :: bytes
  cp_network :: network
  cp_ruleset_version :: u32
  cp_timestamp :: u64

record chainstate =
  cs_network :: network
  cs_tip :: "block_header option"
  cs_tip_hash :: bytes
  cs_height :: u64
  cs_blocks :: "block list"
  cs_index :: "bytes \<rightharpoonup> usize"
  cs_utxos :: utxo_set
  cs_undo_stack :: "chain_undo list"
  cs_storage :: "database option"
  cs_last_prune_report :: "block_prune_report option"
  cs_last_prune_error :: "storage_error option"

definition effective_prune_depth :: "node_env \<Rightarrow> network \<Rightarrow> u64" where
  "effective_prune_depth env n =
     (if n = Prunetest then
        case env_prune_depth env of Some v \<Rightarrow> max v 1 | None \<Rightarrow> PRUNE_DEPTH_BLOCKS
      else PRUNE_DEPTH_BLOCKS)"

definition effective_max_reorg_depth :: "node_env \<Rightarrow> network \<Rightarrow> u64" where
  "effective_max_reorg_depth env n =
     (if n = Prunetest then
        case env_max_reorg_depth env of Some v \<Rightarrow> v | None \<Rightarrow> MAX_REORG_DEPTH_BLOCKS
      else MAX_REORG_DEPTH_BLOCKS)"

definition reorg_depth_error :: "u64 \<Rightarrow> u64 \<Rightarrow> u64 \<Rightarrow> storage_error option" where
  "reorg_depth_error current_height fork_height max_reorg_depth =
     (let depth = sat_sub current_height fork_height
      in if depth > max_reorg_depth
         then Some (ReorgTooDeep depth max_reorg_depth fork_height current_height) else None)"

text \<open>A later block with the same hash overwrites the entry of an earlier one.\<close>

definition build_block_index_by_hash :: "primitives \<Rightarrow> block list \<Rightarrow> bytes \<rightharpoonup> usize" where
  "build_block_index_by_hash P blocks =
     fold (\<lambda>(i, b) m. m(block_hash P (header b) \<mapsto> i)) (enumerate 0 blocks) Map.empty"

text \<open>\<open>self.utxos.entries()\<close> walks the map in the order of its keys.\<close>

definition utxo_entries :: "utxo_set \<Rightarrow> utxo_entry list" where
  "utxo_entries s = map (\<lambda>k. the (set_entries s k)) (sorted_list_of_set (dom (set_entries s)))"

definition fresh_with_storage :: "primitives \<Rightarrow> network \<Rightarrow> database option \<Rightarrow> chainstate" where
  "fresh_with_storage P n storage =
     (let genesis = genesis_block P n;
          lock = locking_script (outputs (transactions genesis ! 0) ! 0);
          utxos = fst (utxo_insert (utxo_set_new n)
            (utxo_entry_coinbase n (genesis_coinbase_txid P n) 0 (genesis_utxo_value n) lock 0))
      in \<lparr>cs_network = n, cs_tip = Some (header genesis), cs_tip_hash = genesis_hash P n, cs_height = 0,
          cs_blocks = [genesis], cs_index = build_block_index_by_hash P [genesis], cs_utxos = utxos,
          cs_undo_stack = [], cs_storage = storage, cs_last_prune_report = None,
          cs_last_prune_error = None\<rparr>)"

definition chainstate_fresh :: "primitives \<Rightarrow> network \<Rightarrow> chainstate" where
  "chainstate_fresh P n = fresh_with_storage P n None"

definition connect_header :: "primitives \<Rightarrow> chainstate \<Rightarrow> block_header \<Rightarrow> chainstate" where
  "connect_header P cs h = cs\<lparr>cs_tip_hash := block_hash P h, cs_tip := Some h, cs_height := height h\<rparr>"

definition next_difficulty_target_for_timestamp :: "chainstate \<Rightarrow> u64 \<Rightarrow> bytes" where
  "next_difficulty_target_for_timestamp cs next_timestamp =
     target_for_next_block_with_timestamp (cs_network cs) (cs_blocks cs) next_timestamp"

definition next_difficulty_target :: "primitives \<Rightarrow> chainstate \<Rightarrow> bytes" where
  "next_difficulty_target P cs = next_difficulty_target_for_timestamp cs
     (case minimum_next_block_timestamp (cs_blocks cs) of
        Some t \<Rightarrow> t
      | None \<Rightarrow> timestamp (header (genesis_block P (cs_network cs))))"

section \<open>Pruning the in-memory chain\<close>

definition prune_history_to_retain :: "primitives \<Rightarrow> usize \<Rightarrow> chainstate \<Rightarrow> chainstate" where
  "prune_history_to_retain P retain cs =
     (if length (cs_blocks cs) \<le> retain \<or> retain = 0 then cs
      else
        let prune_count = length (cs_blocks cs) - retain;
            blocks = take 1 (cs_blocks cs) @ drop (1 + prune_count) (cs_blocks cs);
            undo_prune_count = min prune_count (length (cs_undo_stack cs))
        in cs\<lparr>cs_blocks := blocks, cs_undo_stack := drop undo_prune_count (cs_undo_stack cs),
              cs_index := build_block_index_by_hash P blocks\<rparr>)"

definition prune_history :: "primitives \<Rightarrow> node_env \<Rightarrow> chainstate \<Rightarrow> chainstate" where
  "prune_history P env cs =
     (let prune_depth = effective_prune_depth env (cs_network cs);
          cs = prune_history_to_retain P (unat (sat_add prune_depth 1)) cs
      in if cs_height cs < prune_depth then cs
         else case cs_storage cs of
                None \<Rightarrow> cs
              | Some db \<Rightarrow>
                  (case prune_archived_blocks (env_prune_target_bytes env) db (cs_height cs) prune_depth of
                     (db, Inr report) \<Rightarrow> cs\<lparr>cs_storage := Some db, cs_last_prune_error := None,
                       cs_last_prune_report := Some report\<rparr>
                   | (db, Inl err) \<Rightarrow> cs\<lparr>cs_storage := Some db, cs_last_prune_error := Some err\<rparr>))"

section \<open>Connecting and disconnecting\<close>

definition persist_snapshot_for ::
  "primitives \<Rightarrow> node_env \<Rightarrow> chainstate \<Rightarrow> u64 \<Rightarrow> bytes \<Rightarrow> block_header option
     \<Rightarrow> chainstate \<times> (storage_error + unit)" where
  "persist_snapshot_for P env cs hgt tip_hash tip_header =
     (case cs_storage cs of
        None \<Rightarrow> (cs, Inr ())
      | Some db \<Rightarrow>
          (case commit_chainstate P (env_now env) db
                  \<lparr>snap_height = hgt, snap_tip_hash = tip_hash, snap_tip_header = tip_header\<rparr>
                  (utxo_entries (cs_utxos cs)) None of
             (db, r) \<Rightarrow> (cs\<lparr>cs_storage := Some db\<rparr>, r)))"

definition save_persisted_chainstate ::
  "primitives \<Rightarrow> node_env \<Rightarrow> chainstate \<Rightarrow> chainstate \<times> (storage_error + unit)" where
  "save_persisted_chainstate P env cs =
     persist_snapshot_for P env cs (cs_height cs) (cs_tip_hash cs) (cs_tip cs)"

definition commit_connected ::
  "primitives \<Rightarrow> node_env \<Rightarrow> database option \<Rightarrow> block \<Rightarrow> database option \<times> (storage_error + unit)" where
  "commit_connected P env storage b =
     (case storage of
        None \<Rightarrow> (None, Inr ())
      | Some db \<Rightarrow>
          (case commit_chainstate P (env_now env) db
                  \<lparr>snap_height = height (header b), snap_tip_hash = block_hash P (header b),
                   snap_tip_header = Some (header b)\<rparr> [] (Some (height (header b), b)) of
             (db, r) \<Rightarrow> (Some db, r)))"

definition connect_block ::
  "primitives \<Rightarrow> node_env \<Rightarrow> chainstate \<Rightarrow> block \<Rightarrow> chainstate \<times> (storage_error + unit)" where
  "connect_block P env cs b =
     (case validate_block_with_context P (env_now env) b (sat_add (cs_height cs) 1) (cs_network cs)
             (cs_tip_hash cs) (next_difficulty_target_for_timestamp cs (timestamp (header b)))
             (cs_blocks cs) (cs_utxos cs) of
        Inl err \<Rightarrow> (cs, Inl (Validation err))
      | Inr _ \<Rightarrow>
          (case apply_block P (cs_utxos cs) b of
             (utxos, Inl err) \<Rightarrow> (cs\<lparr>cs_utxos := utxos\<rparr>, Inl err)
           | (utxos, Inr undo) \<Rightarrow>
               (case commit_connected P env (cs_storage cs) b of
                  (storage, Inl err) \<Rightarrow>
                    (cs\<lparr>cs_utxos := disconnect_block utxos undo, cs_storage := storage\<rparr>, Inl err)
                | (storage, Inr _) \<Rightarrow>
                    (prune_history P env (cs\<lparr>cs_utxos := utxos, cs_storage := storage,
                       cs_tip := Some (header b), cs_tip_hash := block_hash P (header b),
                       cs_height := height (header b),
                       cs_index := (cs_index cs)(block_hash P (header b) \<mapsto> length (cs_blocks cs)),
                       cs_blocks := cs_blocks cs @ [b],
                       cs_undo_stack := cs_undo_stack cs @ [\<lparr>previous_tip = cs_tip cs,
                         previous_tip_hash = cs_tip_hash cs, undo_of_block = undo\<rparr>]\<rparr>), Inr ()))))"

definition disconnect_last_block ::
  "primitives \<Rightarrow> node_env \<Rightarrow> chainstate \<Rightarrow> chainstate \<times> (storage_error + unit)" where
  "disconnect_last_block P env cs =
     (if cs_undo_stack cs = [] \<or> cs_blocks cs = [] then (cs, Inl NoBlockToDisconnect)
      else
        let undo = last (cs_undo_stack cs); removed_block = last (cs_blocks cs);
            cs1 = cs\<lparr>cs_utxos := disconnect_block (cs_utxos cs) (undo_of_block undo)\<rparr>;
            previous_height = (case previous_tip undo of Some h \<Rightarrow> height h | None \<Rightarrow> 0)
        in case persist_snapshot_for P env cs1 previous_height (previous_tip_hash undo) (previous_tip undo) of
             (cs2, Inl err) \<Rightarrow>
               (cs2\<lparr>cs_utxos := fst (apply_block P (cs_utxos cs2) removed_block)\<rparr>, Inl err)
           | (cs2, Inr _) \<Rightarrow>
               (cs2\<lparr>cs_undo_stack := butlast (cs_undo_stack cs), cs_blocks := butlast (cs_blocks cs),
                  cs_index := (cs_index cs)(block_hash P (header removed_block) := None),
                  cs_tip := previous_tip undo, cs_tip_hash := previous_tip_hash undo,
                  cs_height := previous_height\<rparr>, Inr ()))"

text \<open>The loops \<open>for _ in 0..n { self.disconnect_last_block()?; }\<close> and
  \<open>for block in blocks { self.connect_block(block)?; }\<close>.\<close>

fun disconnect_times ::
  "primitives \<Rightarrow> node_env \<Rightarrow> nat \<Rightarrow> chainstate \<Rightarrow> chainstate \<times> (storage_error + unit)" where
  "disconnect_times P env 0 cs = (cs, Inr ())"
| "disconnect_times P env (Suc n) cs =
     (case disconnect_last_block P env cs of
        (cs, Inl err) \<Rightarrow> (cs, Inl err)
      | (cs, Inr _) \<Rightarrow> disconnect_times P env n cs)"

fun connect_all ::
  "primitives \<Rightarrow> node_env \<Rightarrow> block list \<Rightarrow> chainstate \<Rightarrow> chainstate \<times> (storage_error + unit)" where
  "connect_all P env [] cs = (cs, Inr ())"
| "connect_all P env (b # bs) cs =
     (case connect_block P env cs b of
        (cs, Inl err) \<Rightarrow> (cs, Inl err)
      | (cs, Inr _) \<Rightarrow> connect_all P env bs cs)"

section \<open>Queries\<close>

definition memory_block_index_for_height :: "chainstate \<Rightarrow> u64 \<Rightarrow> usize option" where
  "memory_block_index_for_height cs hgt =
     (case cs_blocks cs of
        [] \<Rightarrow> None
      | b # _ \<Rightarrow>
          (case checked_sub hgt (height (header b)) of
             None \<Rightarrow> None
           | Some offset \<Rightarrow>
               let index = unat offset
               in if index < length (cs_blocks cs) \<and> height (header (cs_blocks cs ! index)) = hgt
                  then Some index else None))"

definition nth_option :: "'a list \<Rightarrow> usize \<Rightarrow> 'a option" where
  "nth_option xs i = (if i < length xs then Some (xs ! i) else None)"

definition block_by_hash :: "primitives \<Rightarrow> chainstate \<Rightarrow> bytes \<Rightarrow> storage_error + block option" where
  "block_by_hash P cs h =
     (case cs_index cs h of
        Some index \<Rightarrow> Inr (nth_option (cs_blocks cs) index)
      | None \<Rightarrow> (case cs_storage cs of None \<Rightarrow> Inr None | Some db \<Rightarrow> load_block P db h))"

definition contains_block :: "primitives \<Rightarrow> chainstate \<Rightarrow> bytes \<Rightarrow> storage_error + bool" where
  "contains_block P cs h = rbind (block_by_hash P cs h) (\<lambda>b. Inr (b \<noteq> None))"

definition is_canonical_block :: "chainstate \<Rightarrow> bytes \<Rightarrow> bool" where
  "is_canonical_block cs h =
     (if cs_index cs h \<noteq> None then True
      else case cs_storage cs of
             None \<Rightarrow> False
           | Some db \<Rightarrow>
               (case load_block_record db h of
                  None \<Rightarrow> False
                | Some r \<Rightarrow> rec_main_chain r \<and> load_block_hash_by_height db (rec_height r) = Some h))"

definition block_by_height :: "primitives \<Rightarrow> chainstate \<Rightarrow> u64 \<Rightarrow> storage_error + block option" where
  "block_by_height P cs hgt =
     (case memory_block_index_for_height cs hgt of
        Some index \<Rightarrow> Inr (nth_option (cs_blocks cs) index)
      | None \<Rightarrow>
          (case cs_storage cs of
             None \<Rightarrow> Inr None
           | Some db \<Rightarrow>
               (case load_block_hash_by_height db hgt of
                  None \<Rightarrow> Inr None
                | Some h \<Rightarrow> load_block P db h)))"

definition known_block_height :: "chainstate \<Rightarrow> bytes \<Rightarrow> u64 option" where
  "known_block_height cs h =
     (case cs_index cs h of
        Some index \<Rightarrow> map_option (\<lambda>b. height (header b)) (nth_option (cs_blocks cs) index)
      | None \<Rightarrow>
          (case cs_storage cs of
             None \<Rightarrow> None
           | Some db \<Rightarrow> map_option rec_height (load_block_record db h)))"

definition require_block_by_height :: "primitives \<Rightarrow> chainstate \<Rightarrow> u64 \<Rightarrow> storage_error + block" where
  "require_block_by_height P cs hgt =
     rbind (block_by_height P cs hgt) (ok_or IncompleteBlockHistory)"

definition canonical_fork_height :: "primitives \<Rightarrow> chainstate \<Rightarrow> bytes \<Rightarrow> storage_error + u64" where
  "canonical_fork_height P cs fork_hash =
     rbind (ok_or ForkPointUnavailable (known_block_height cs fork_hash))
       (\<lambda>hgt. rbind (require_block_by_height P cs hgt)
       (\<lambda>b. if block_hash P (header b) \<noteq> fork_hash then Inl ForkPointUnavailable else Inr hgt))"

definition canonical_branch_after :: "primitives \<Rightarrow> chainstate \<Rightarrow> u64 \<Rightarrow> storage_error + block list" where
  "canonical_branch_after P cs fork_height =
     (if fork_height \<ge> cs_height cs then Inr []
      else rcollect (require_block_by_height P cs)
             (map of_nat [Suc (unat fork_height)..<Suc (unat (cs_height cs))]))"

definition canonical_prefix_through :: "primitives \<Rightarrow> chainstate \<Rightarrow> u64 \<Rightarrow> storage_error + block list" where
  "canonical_prefix_through P cs hgt =
     rcollect (require_block_by_height P cs) (map of_nat [0..<Suc (unat hgt)])"

section \<open>Selecting a branch\<close>

fun validate_branch_sequence :: "primitives \<Rightarrow> block list \<Rightarrow> storage_error + unit" where
  "validate_branch_sequence P (left # right # rest) =
     (if previous_block_hash (header right) \<noteq> block_hash P (header left)
         \<or> height (header right) \<noteq> sat_add (height (header left)) 1
      then Inl InvalidBranchSequence
      else validate_branch_sequence P (right # rest))"
| "validate_branch_sequence P _ = Inr ()"

definition validate_replacement_chain ::
  "primitives \<Rightarrow> node_env \<Rightarrow> network \<Rightarrow> block list \<Rightarrow> storage_error + chainstate" where
  "validate_replacement_chain P env n blocks =
     (case blocks of
        [] \<Rightarrow> Inl IncompleteBlockHistory
      | g # rest \<Rightarrow>
          if height (header g) \<noteq> 0 \<or> block_hash P (header g) \<noteq> genesis_hash P n
          then Inl PersistedGenesisMismatch
          else if block_hash P (header (cs_blocks (chainstate_fresh P n) ! 0)) \<noteq> block_hash P (header g)
          then Inl PersistedGenesisMismatch
          else case connect_all P env rest (chainstate_fresh P n) of
                 (_, Inl err) \<Rightarrow> Inl err
               | (validated, Inr _) \<Rightarrow> Inr validated)"

definition replace_with_validated_branch ::
  "primitives \<Rightarrow> node_env \<Rightarrow> u64 \<Rightarrow> block list \<Rightarrow> chainstate \<Rightarrow> chainstate \<times> (storage_error + unit)" where
  "replace_with_validated_branch P env fork_height branch cs =
     (case canonical_prefix_through P cs fork_height of
        Inl err \<Rightarrow> (cs, Inl err)
      | Inr prefix \<Rightarrow>
          let replacement_blocks = prefix @ branch
          in case validate_replacement_chain P env (cs_network cs) replacement_blocks of
               Inl err \<Rightarrow> (cs, Inl err)
             | Inr validated \<Rightarrow>
                 let snapshot = \<lparr>snap_height = cs_height validated, snap_tip_hash = cs_tip_hash validated,
                       snap_tip_header = cs_tip validated\<rparr>;
                     (storage, r) = (case cs_storage cs of
                       None \<Rightarrow> (None, Inr ())
                     | Some db \<Rightarrow> apfst Some (replace_chainstate P (env_now env) db snapshot
                         (utxo_entries (cs_utxos validated)) replacement_blocks))
                 in case r of
                      Inl err \<Rightarrow> (cs\<lparr>cs_storage := storage\<rparr>, Inl err)
                    | Inr _ \<Rightarrow>
                        (prune_history P env (cs\<lparr>cs_storage := storage, cs_tip := cs_tip validated,
                           cs_tip_hash := cs_tip_hash validated, cs_height := cs_height validated,
                           cs_blocks := cs_blocks validated, cs_index := cs_index validated,
                           cs_utxos := cs_utxos validated, cs_undo_stack := cs_undo_stack validated\<rparr>),
                         Inr ()))"

record branch_switch_journal =
  jr_fork_height :: u64
  jr_canonical_suffix :: "block list"
  jr_disconnected_count :: usize
  jr_connected_count :: usize

definition journal_new :: "u64 \<Rightarrow> block list \<Rightarrow> branch_switch_journal" where
  "journal_new fork_height canonical_suffix = \<lparr>jr_fork_height = fork_height,
     jr_canonical_suffix = canonical_suffix, jr_disconnected_count = 0, jr_connected_count = 0\<rparr>"

definition note_disconnect :: "branch_switch_journal \<Rightarrow> branch_switch_journal" where
  "note_disconnect j = j\<lparr>jr_disconnected_count := usize_sat_add (jr_disconnected_count j) 1\<rparr>"

definition note_connect :: "branch_switch_journal \<Rightarrow> branch_switch_journal" where
  "note_connect j = j\<lparr>jr_connected_count := usize_sat_add (jr_connected_count j) 1\<rparr>"

definition disconnected_suffix_to_restore :: "branch_switch_journal \<Rightarrow> block list" where
  "disconnected_suffix_to_restore j =
     drop (length (jr_canonical_suffix j) - jr_disconnected_count j) (jr_canonical_suffix j)"

definition rollback_incremental_branch_switch ::
  "primitives \<Rightarrow> node_env \<Rightarrow> branch_switch_journal \<Rightarrow> chainstate \<Rightarrow> chainstate \<times> (storage_error + unit)" where
  "rollback_incremental_branch_switch P env j cs =
     (case disconnect_times P env (jr_connected_count j) cs of
        (cs, Inl err) \<Rightarrow> (cs, Inl err)
      | (cs, Inr _) \<Rightarrow> connect_all P env (disconnected_suffix_to_restore j) cs)"

definition restore_original_branch_from_journal ::
  "primitives \<Rightarrow> node_env \<Rightarrow> branch_switch_journal \<Rightarrow> chainstate \<Rightarrow> chainstate \<times> (storage_error + unit)" where
  "restore_original_branch_from_journal P env j cs =
     (case rollback_incremental_branch_switch P env j cs of
        (cs, Inr _) \<Rightarrow> (cs, Inr ())
      | (cs, Inl _) \<Rightarrow> replace_with_validated_branch P env (jr_fork_height j)
                         (disconnected_suffix_to_restore j) cs)"

text \<open>\<open>self.restore_original_branch_from_journal(journal)?; return Err(err)\<close>\<close>

definition restore_and_fail ::
  "primitives \<Rightarrow> node_env \<Rightarrow> branch_switch_journal \<Rightarrow> storage_error \<Rightarrow> chainstate
     \<Rightarrow> chainstate \<times> (storage_error + branch_switch_journal)" where
  "restore_and_fail P env j err cs =
     (case restore_original_branch_from_journal P env j cs of
        (cs, Inl err') \<Rightarrow> (cs, Inl err')
      | (cs, Inr _) \<Rightarrow> (cs, Inl err))"

fun switch_disconnects ::
  "primitives \<Rightarrow> node_env \<Rightarrow> nat \<Rightarrow> branch_switch_journal \<Rightarrow> chainstate
     \<Rightarrow> chainstate \<times> (storage_error + branch_switch_journal)" where
  "switch_disconnects P env 0 j cs = (cs, Inr j)"
| "switch_disconnects P env (Suc n) j cs =
     (case disconnect_last_block P env cs of
        (cs, Inl err) \<Rightarrow> restore_and_fail P env j err cs
      | (cs, Inr _) \<Rightarrow> switch_disconnects P env n (note_disconnect j) cs)"

fun switch_connects ::
  "primitives \<Rightarrow> node_env \<Rightarrow> block list \<Rightarrow> branch_switch_journal \<Rightarrow> chainstate
     \<Rightarrow> chainstate \<times> (storage_error + branch_switch_journal)" where
  "switch_connects P env [] j cs = (cs, Inr j)"
| "switch_connects P env (b # bs) j cs =
     (case connect_block P env cs b of
        (cs, Inl err) \<Rightarrow> restore_and_fail P env j err cs
      | (cs, Inr _) \<Rightarrow> switch_connects P env bs (note_connect j) cs)"

definition switch_branch_incrementally ::
  "primitives \<Rightarrow> node_env \<Rightarrow> u64 \<Rightarrow> block list \<Rightarrow> block list \<Rightarrow> chainstate
     \<Rightarrow> chainstate \<times> (storage_error + unit)" where
  "switch_branch_incrementally P env fork_height disconnected branch cs =
     (case switch_disconnects P env (length disconnected) (journal_new fork_height disconnected) cs of
        (cs, Inl err) \<Rightarrow> (cs, Inl err)
      | (cs, Inr j) \<Rightarrow>
          (case switch_connects P env branch j cs of
             (cs, Inl err) \<Rightarrow> (cs, Inl err)
           | (cs, Inr _) \<Rightarrow> (cs, Inr ())))"

text \<open>The loop of \<open>extend_with_validated_branch\<close> with its counter of connected blocks.\<close>

fun extend_loop ::
  "primitives \<Rightarrow> node_env \<Rightarrow> block list \<Rightarrow> usize \<Rightarrow> chainstate \<Rightarrow> chainstate \<times> (storage_error + unit)" where
  "extend_loop P env [] connected cs = (cs, Inr ())"
| "extend_loop P env (b # bs) connected cs =
     (case connect_block P env cs b of
        (cs, Inl err) \<Rightarrow>
          (case disconnect_times P env connected cs of
             (cs, Inl err') \<Rightarrow> (cs, Inl err')
           | (cs, Inr _) \<Rightarrow> (cs, Inl err))
      | (cs, Inr _) \<Rightarrow> extend_loop P env bs (usize_sat_add connected 1) cs)"

definition extend_with_validated_branch ::
  "primitives \<Rightarrow> node_env \<Rightarrow> block list \<Rightarrow> chainstate \<Rightarrow> chainstate \<times> (storage_error + unit)" where
  "extend_with_validated_branch P env branch cs = extend_loop P env branch 0 cs"

definition can_switch_incrementally :: "primitives \<Rightarrow> bytes \<Rightarrow> block list \<Rightarrow> chainstate \<Rightarrow> bool" where
  "can_switch_incrementally P fork_hash disconnected cs =
     (case find (\<lambda>i. block_hash P (header (cs_blocks cs ! i)) = fork_hash) [0..<length (cs_blocks cs)] of
        None \<Rightarrow> False
      | Some index \<Rightarrow> length (drop (index + 1) (cs_blocks cs)) = length disconnected
          \<and> length (cs_undo_stack cs) \<ge> length disconnected)"

definition with_result ::
  "chain_selection_result \<Rightarrow> chainstate \<times> (storage_error + unit)
     \<Rightarrow> chainstate \<times> (storage_error + chain_selection_result)" where
  "with_result result r = (fst r, rbind (snd r) (\<lambda>_. Inr result))"

definition select_branch_with_max_reorg_depth ::
  "primitives \<Rightarrow> node_env \<Rightarrow> block list \<Rightarrow> u64 \<Rightarrow> chainstate
     \<Rightarrow> chainstate \<times> (storage_error + chain_selection_result)" where
  "select_branch_with_max_reorg_depth P env branch max_reorg_depth cs =
     (if branch = [] then (cs, Inl EmptyBranch)
      else case rbind (validate_branch_sequence P branch)
                  (\<lambda>_. canonical_fork_height P cs (previous_block_hash (header (branch ! 0)))) of
        Inl err \<Rightarrow> (cs, Inl err)
      | Inr fork_height \<Rightarrow>
          if height (header (branch ! 0)) \<noteq> sat_add fork_height 1
          then (cs, Inl InvalidBranchSequence)
          else case canonical_branch_after P cs fork_height of
                 Inl err \<Rightarrow> (cs, Inl err)
               | Inr disconnected \<Rightarrow>
                   if disconnected = []
                   then with_result \<lparr>sel_outcome = Extended, sel_disconnected = disconnected\<rparr>
                          (extend_with_validated_branch P env branch cs)
                   else case reorg_depth_error (cs_height cs) fork_height max_reorg_depth of
                          Some err \<Rightarrow> (cs, Inl err)
                        | None \<Rightarrow>
                            if \<not> branch_is_preferred P branch disconnected
                            then (cs, Inr \<lparr>sel_outcome = KeptCurrent, sel_disconnected = []\<rparr>)
                            else with_result \<lparr>sel_outcome = Reorged, sel_disconnected = disconnected\<rparr>
                              (if \<not> can_switch_incrementally P (previous_block_hash (header (branch ! 0)))
                                      disconnected cs
                               then replace_with_validated_branch P env fork_height branch cs
                               else switch_branch_incrementally P env fork_height disconnected branch cs))"

definition select_branch ::
  "primitives \<Rightarrow> node_env \<Rightarrow> block list \<Rightarrow> chainstate
     \<Rightarrow> chainstate \<times> (storage_error + chain_selection_result)" where
  "select_branch P env branch cs =
     select_branch_with_max_reorg_depth P env branch (effective_max_reorg_depth env (cs_network cs)) cs"

end
