(* ===== verification/Chain_Startup.thy ===== *)
theory Chain_Startup
  imports Chainstate "HOL-Library.Char_ord"
begin

text \<open>
  The chain state beside block processing: records, checkpoints and headers for peers, snapshots of
  the whole chain, and the start of the node from its database, with the replay that checks the
  database after an unclean shutdown and the recovery from a damaged one.
\<close>

section \<open>Headers, records and checkpoints\<close>

definition finalized_height :: "node_env \<Rightarrow> chainstate \<Rightarrow> u64 option" where
  "finalized_height env cs = checked_sub (cs_height cs) (effective_max_reorg_depth env (cs_network cs))"

text \<open>The record that is made up for a block of a chain without a database.\<close>

definition memory_record :: "primitives \<Rightarrow> chainstate \<Rightarrow> bytes \<Rightarrow> nat \<Rightarrow> block_archive_record" where
  "memory_record P cs h index =
     (let b = cs_blocks cs ! index
      in (block_record_of P 0 (network_id (header b)) (height (header b)) b
            \<lparr>file_number = 0, record_offset = 0, payload_length = 0\<rparr>
            (accumulated_chain_work (take (Suc index) (cs_blocks cs))))
         \<lparr>rec_block_hash := h, rec_raw_block_size := of_nat (length (block_full_bytes b))\<rparr>)"

definition block_record_by_hash :: "primitives \<Rightarrow> chainstate \<Rightarrow> bytes \<Rightarrow> block_archive_record option" where
  "block_record_by_hash P cs h =
     (case cs_storage cs of
        None \<Rightarrow> map_option (memory_record P cs h)
          (find (\<lambda>i. block_hash P (header (cs_blocks cs ! i)) = h) [0..<length (cs_blocks cs)])
      | Some db \<Rightarrow> load_block_record db h)"

definition block_record_by_height :: "primitives \<Rightarrow> chainstate \<Rightarrow> u64 \<Rightarrow> block_archive_record option" where
  "block_record_by_height P cs hgt =
     (case memory_block_index_for_height cs hgt of
        Some index \<Rightarrow> block_record_by_hash P cs (block_hash P (header (cs_blocks cs ! index)))
      | None \<Rightarrow>
          (case cs_storage cs of None \<Rightarrow> None | Some db \<Rightarrow> load_block_record_by_height db hgt))"

definition finalized_checkpoint_for_depth ::
  "primitives \<Rightarrow> chainstate \<Rightarrow> u64 \<Rightarrow> storage_error + finalized_checkpoint option" where
  "finalized_checkpoint_for_depth P cs depth =
     (case checked_sub (cs_height cs) depth of
        None \<Rightarrow> Inr None
      | Some hgt \<Rightarrow>
          (case block_record_by_height P cs hgt of
             None \<Rightarrow> Inl IncompleteBlockHistory
           | Some r \<Rightarrow> Inr (Some \<lparr>cp_height = hgt, cp_block_hash = rec_block_hash r,
               cp_chainwork = rec_chainwork r, cp_network = rec_network r,
               cp_ruleset_version = ruleset_version_at_height hgt, cp_timestamp = rec_timestamp r\<rparr>)))"

definition get_finalized_checkpoint ::
  "primitives \<Rightarrow> node_env \<Rightarrow> chainstate \<Rightarrow> storage_error + finalized_checkpoint option" where
  "get_finalized_checkpoint P env cs =
     finalized_checkpoint_for_depth P cs (effective_max_reorg_depth env (cs_network cs))"

definition canonical_locator_height :: "primitives \<Rightarrow> chainstate \<Rightarrow> bytes \<Rightarrow> u64 option" where
  "canonical_locator_height P cs h =
     (case find (\<lambda>b. block_hash P (header b) = h) (cs_blocks cs) of
        Some b \<Rightarrow> Some (height (header b))
      | None \<Rightarrow>
          (case cs_storage cs of
             None \<Rightarrow> None
           | Some db \<Rightarrow>
               (case load_block_record db h of
                  None \<Rightarrow> None
                | Some r \<Rightarrow>
                    if load_block_hash_by_height db (rec_height r) = Some h
                    then Some (rec_height r) else None)))"

text \<open>The loop over in-memory blocks and the loop over stored heights of \<open>headers_after_locator\<close>.\<close>

fun collect_headers ::
  "primitives \<Rightarrow> bytes \<Rightarrow> usize \<Rightarrow> block list \<Rightarrow> block_header list \<Rightarrow> block_header list" where
  "collect_headers P stop_hash max_headers [] headers = headers"
| "collect_headers P stop_hash max_headers (b # bs) headers =
     (if length headers \<ge> max_headers then headers
      else let headers = headers @ [header b]
           in if stop_hash \<noteq> replicate 48 0 \<and> block_hash P (header b) = stop_hash then headers
              else collect_headers P stop_hash max_headers bs headers)"

text \<open>Every pass pushes a header, so the number of headers still wanted bounds the loop.\<close>

fun collect_stored_headers ::
  "database \<Rightarrow> bytes \<Rightarrow> u64 \<Rightarrow> nat \<Rightarrow> u64 \<Rightarrow> block_header list" where
  "collect_stored_headers db stop_hash tip_height 0 next_height = []"
| "collect_stored_headers db stop_hash tip_height (Suc n) next_height =
     (if next_height > tip_height then []
      else case load_block_record_by_height db next_height of
             None \<Rightarrow> []
           | Some r \<Rightarrow> record_header r #
               (if stop_hash \<noteq> replicate 48 0 \<and> rec_block_hash r = stop_hash then []
                else collect_stored_headers db stop_hash tip_height n (sat_add next_height 1)))"

definition find_map :: "('a \<Rightarrow> 'b option) \<Rightarrow> 'a list \<Rightarrow> 'b option" where
  "find_map f xs = (case List.map_filter f xs of [] \<Rightarrow> None | y # _ \<Rightarrow> Some y)"

definition headers_after_locator ::
  "primitives \<Rightarrow> chainstate \<Rightarrow> bytes list \<Rightarrow> bytes \<Rightarrow> usize \<Rightarrow> block_header list" where
  "headers_after_locator P cs locator_hashes stop_hash max_headers =
     (if max_headers = 0 then []
      else case cs_storage cs of
        None \<Rightarrow>
          (case find_map (\<lambda>h. map_option (\<lambda>i. usize_sat_add i 1)
                  (find (\<lambda>i. block_hash P (header (cs_blocks cs ! i)) = h) [0..<length (cs_blocks cs)]))
                locator_hashes of
             Some index \<Rightarrow> collect_headers P stop_hash max_headers (drop index (cs_blocks cs)) []
           | None \<Rightarrow> if locator_hashes = [] then collect_headers P stop_hash max_headers (cs_blocks cs) []
                    else [])
      | Some db \<Rightarrow>
          (case find_map (\<lambda>h. map_option (\<lambda>hgt. sat_add hgt 1) (canonical_locator_height P cs h))
                locator_hashes of
             Some start \<Rightarrow> collect_stored_headers db stop_hash (cs_height cs) max_headers start
           | None \<Rightarrow> if locator_hashes = []
                    then collect_stored_headers db stop_hash (cs_height cs) max_headers 0
                    else []))"

definition position_in_block :: "primitives \<Rightarrow> bytes \<Rightarrow> block \<Rightarrow> transaction_archive_record option" where
  "position_in_block P t b =
     find_map (\<lambda>(tx_index, tx). if txid P tx = t
         then Some \<lparr>txr_height = height (header b), txr_block_hash = block_hash P (header b),
                txr_tx_index = of_nat tx_index, txr_txid = t, txr_transaction = tx\<rparr>
         else None) (enumerate 0 (transactions b))"

definition transaction_record_by_txid ::
  "primitives \<Rightarrow> chainstate \<Rightarrow> bytes \<Rightarrow> transaction_archive_record option" where
  "transaction_record_by_txid P cs t =
     (case find_map (position_in_block P t) (cs_blocks cs) of
        Some r \<Rightarrow> Some r
      | None \<Rightarrow> (case cs_storage cs of None \<Rightarrow> None | Some db \<Rightarrow> load_transaction db t))"

section \<open>Snapshots\<close>

text \<open>The loop of \<open>canonical_blocks\<close>: each block must have the height that is left, so the walk ends
  after that many steps.\<close>

fun canonical_walk ::
  "primitives \<Rightarrow> database \<Rightarrow> nat \<Rightarrow> bytes \<Rightarrow> block list \<Rightarrow> storage_error + block list" where
  "canonical_walk P db remaining_height next_hash blocks =
     rbind (rbind (load_block P db next_hash) (ok_or IncompleteBlockHistory))
       (\<lambda>b. if block_hash P (header b) \<noteq> next_hash \<or> unat (height (header b)) \<noteq> remaining_height
             then Inl IncompleteBlockHistory
             else case remaining_height of
                    0 \<Rightarrow> Inr (b # blocks)
                  | Suc n \<Rightarrow> canonical_walk P db n (previous_block_hash (header b)) (b # blocks))"

declare canonical_walk.simps [simp del]

definition canonical_blocks :: "primitives \<Rightarrow> chainstate \<Rightarrow> storage_error + block list" where
  "canonical_blocks P cs =
     (case cs_storage cs of
        None \<Rightarrow> Inr (cs_blocks cs)
      | Some db \<Rightarrow> canonical_walk P db (unat (cs_height cs)) (cs_tip_hash cs) [])"

record chain_snapshot_bundle =
  bundle_snapshot :: chainstate_snapshot
  bundle_utxos :: "utxo_entry list"
  bundle_blocks :: "block list"

definition export_snapshot_bundle :: "primitives \<Rightarrow> chainstate \<Rightarrow> storage_error + chain_snapshot_bundle" where
  "export_snapshot_bundle P cs =
     rbind (canonical_blocks P cs)
       (\<lambda>blocks. Inr \<lparr>bundle_snapshot = \<lparr>snap_height = cs_height cs, snap_tip_hash = cs_tip_hash cs,
            snap_tip_header = cs_tip cs\<rparr>, bundle_utxos = utxo_entries (cs_utxos cs),
          bundle_blocks = blocks\<rparr>)"

text \<open>\<open>for entry in utxos { set.insert(entry)?; }\<close>\<close>

fun insert_entries :: "utxo_entry list \<Rightarrow> utxo_set \<Rightarrow> storage_error + utxo_set" where
  "insert_entries [] s = Inr s"
| "insert_entries (e # es) s =
     (case utxo_insert s e of (s, Inl err) \<Rightarrow> Inl err | (s, Inr _) \<Rightarrow> insert_entries es s)"

definition check_bundle :: "primitives \<Rightarrow> network \<Rightarrow> chain_snapshot_bundle \<Rightarrow> storage_error + unit" where
  "check_bundle P n bundle =
     (if bundle_blocks bundle = [] then Inl IncompleteBlockHistory
      else let last_block = last (bundle_blocks bundle); first = hd (bundle_blocks bundle)
        in if height (header last_block) \<noteq> snap_height (bundle_snapshot bundle)
              \<or> block_hash P (header last_block) \<noteq> snap_tip_hash (bundle_snapshot bundle)
           then Inl PersistedTipMismatch
           else if height (header first) \<noteq> 0 \<or> block_hash P (header first) \<noteq> genesis_hash P n
           then Inl PersistedGenesisMismatch
           else Inr ())"

definition import_snapshot_bundle ::
  "primitives \<Rightarrow> node_env \<Rightarrow> chain_snapshot_bundle \<Rightarrow> chainstate \<Rightarrow> chainstate \<times> (storage_error + unit)" where
  "import_snapshot_bundle P env bundle cs =
     (case rbind (check_bundle P (cs_network cs) bundle)
             (\<lambda>_. insert_entries (bundle_utxos bundle) (utxo_set_new (cs_network cs))) of
        Inl err \<Rightarrow> (cs, Inl err)
      | Inr utxos \<Rightarrow>
          let (storage, r) = (case cs_storage cs of
                None \<Rightarrow> (None, Inr ())
              | Some db \<Rightarrow> apfst Some (replace_chainstate P (env_now env) db (bundle_snapshot bundle)
                  (bundle_utxos bundle) (bundle_blocks bundle)))
          in case r of
               Inl err \<Rightarrow> (cs\<lparr>cs_storage := storage\<rparr>, Inl err)
             | Inr _ \<Rightarrow>
                 (prune_history P env (cs\<lparr>cs_storage := storage,
                    cs_tip := snap_tip_header (bundle_snapshot bundle),
                    cs_tip_hash := snap_tip_hash (bundle_snapshot bundle),
                    cs_height := snap_height (bundle_snapshot bundle),
                    cs_blocks := bundle_blocks bundle,
                    cs_index := build_block_index_by_hash P (bundle_blocks bundle),
                    cs_utxos := utxos, cs_undo_stack := []\<rparr>), Inr ()))"

section \<open>Loading\<close>

fun load_recent_walk ::
  "primitives \<Rightarrow> database \<Rightarrow> nat \<Rightarrow> bytes \<Rightarrow> block list \<Rightarrow> storage_error + block list" where
  "load_recent_walk P db 0 next_hash blocks = Inr blocks"
| "load_recent_walk P db (Suc n) next_hash blocks =
     rbind (load_block P db next_hash)
       (\<lambda>loaded. case loaded of
           None \<Rightarrow> if blocks = [] then Inr [] else Inl IncompleteBlockHistory
         | Some b \<Rightarrow>
             if height (header b) = 0 then Inr (b # blocks)
             else load_recent_walk P db n (previous_block_hash (header b)) (b # blocks))"

definition load_recent_blocks_from_storage ::
  "primitives \<Rightarrow> database \<Rightarrow> bytes \<Rightarrow> usize \<Rightarrow> storage_error + block list" where
  "load_recent_blocks_from_storage P db tip_hash limit = load_recent_walk P db limit tip_hash []"

definition reconstruct_spent :: "network \<Rightarrow> database \<Rightarrow> tx_input \<Rightarrow> storage_error + utxo_entry" where
  "reconstruct_spent n db i =
     rbind (ok_or IncompleteBlockHistory (load_transaction db (previous_txid i)))
       (\<lambda>previous. rbind (ok_or CorruptData
           (nth_option (outputs (txr_transaction previous)) (unat (output_index i))))
       (\<lambda>out. Inr (utxo_entry_new n (previous_txid i) (output_index i) (value_atoms out)
           (locking_script out) (txr_height previous) (is_coinbase (txr_transaction previous)))))"

definition reconstruct_block_undo_from_storage ::
  "primitives \<Rightarrow> network \<Rightarrow> database \<Rightarrow> block \<Rightarrow> storage_error + block_undo" where
  "reconstruct_block_undo_from_storage P n db b =
     rbind (rcollect (\<lambda>tx. rcollect (reconstruct_spent n db) (inputs tx)) (transactions b))
       (\<lambda>spent_lists. Inr \<lparr>spent = concat spent_lists,
          created = concat (map (\<lambda>tx. create_outputs P tx n (height (header b))) (transactions b))\<rparr>)"

text \<open>The walk from the last block to the second. The rolled back set that the loop carries is
  never read, so it is left out.\<close>

fun rehydrate_walk ::
  "primitives \<Rightarrow> network \<Rightarrow> database \<Rightarrow> block list \<Rightarrow> storage_error + chain_undo list" where
  "rehydrate_walk P n db (b # c # rest) =
     rbind (rehydrate_walk P n db (c # rest))
       (\<lambda>later. rbind (reconstruct_block_undo_from_storage P n db c)
       (\<lambda>undo. Inr (\<lparr>previous_tip = Some (header b), previous_tip_hash = block_hash P (header b),
            undo_of_block = undo\<rparr> # later)))"
| "rehydrate_walk P n db _ = Inr []"

definition rehydrate_undo_stack_from_storage ::
  "primitives \<Rightarrow> network \<Rightarrow> database \<Rightarrow> block list \<Rightarrow> storage_error + chain_undo list" where
  "rehydrate_undo_stack_from_storage P n db blocks =
     (if length blocks \<le> 1 then Inr []
      else rbind (validate_branch_sequence P blocks) (\<lambda>_. rehydrate_walk P n db blocks))"

record persisted_chainstate =
  pc_height :: u64
  pc_tip_hash :: bytes
  pc_tip_header :: "block_header option"
  pc_utxos :: "utxo_entry list"

text \<open>\<open>legacy\<close>: whether a file of an older layout is present.\<close>

definition load_persisted_chainstate ::
  "bool \<Rightarrow> database \<Rightarrow> storage_error + persisted_chainstate option" where
  "load_persisted_chainstate legacy db =
     (case load_chainstate_snapshot db of
        Some snapshot \<Rightarrow> Inr (Some \<lparr>pc_height = snap_height snapshot,
          pc_tip_hash = snap_tip_hash snapshot, pc_tip_header = snap_tip_header snapshot,
          pc_utxos = load_utxos db\<rparr>)
      | None \<Rightarrow> if legacy then Inl LegacyStorageLayout else Inr None)"

definition load_chain_blocks ::
  "primitives \<Rightarrow> network \<Rightarrow> database option \<Rightarrow> persisted_chainstate \<Rightarrow> storage_error + block list" where
  "load_chain_blocks P n storage pc =
     (if pc_height pc = 0 then Inr [genesis_block P n]
      else rbind (ok_or IncompleteBlockHistory storage)
        (\<lambda>db. rbind (load_recent_blocks_from_storage P db (pc_tip_hash pc) RECENT_BLOCK_RELOAD_LIMIT)
        (\<lambda>blocks. if blocks = [] then Inl IncompleteBlockHistory
           else if height (header (last blocks)) \<noteq> pc_height pc
             \<or> block_hash P (header (last blocks)) \<noteq> pc_tip_hash pc then Inl PersistedTipMismatch
           else Inr blocks)))"

definition load_tip ::
  "primitives \<Rightarrow> database option \<Rightarrow> persisted_chainstate \<Rightarrow> storage_error + block_header option" where
  "load_tip P storage pc =
     (case pc_tip_header pc of
        Some h \<Rightarrow>
          if height h \<noteq> pc_height pc \<or> block_hash P h \<noteq> pc_tip_hash pc then Inl PersistedTipMismatch
          else Inr (Some h)
      | None \<Rightarrow>
          (case storage of
             None \<Rightarrow> Inr None
           | Some db \<Rightarrow> (case load_block P db (pc_tip_hash pc) of
                           Inr (Some b) \<Rightarrow> Inr (Some (header b))
                         | _ \<Rightarrow> Inr None)))"

definition try_into_chainstate ::
  "primitives \<Rightarrow> network \<Rightarrow> database option \<Rightarrow> persisted_chainstate \<Rightarrow> storage_error + chainstate" where
  "try_into_chainstate P n storage pc =
     rbind (insert_entries (pc_utxos pc) (utxo_set_new n))
       (\<lambda>utxos.
          if pc_height pc = 0 \<and> (pc_tip_hash pc \<noteq> block_hash P (header (genesis_block P n))
               \<or> utxo_get utxos (genesis_coinbase_txid P n) 0 = None)
          then Inl PersistedGenesisMismatch
          else rbind (load_tip P storage pc)
          (\<lambda>tip_header. rbind (load_chain_blocks P n storage pc)
          (\<lambda>blocks. rbind (case storage of None \<Rightarrow> Inr []
                             | Some db \<Rightarrow> rehydrate_undo_stack_from_storage P n db blocks)
          (\<lambda>undo_stack. Inr \<lparr>cs_network = n, cs_tip = tip_header, cs_tip_hash = pc_tip_hash pc,
             cs_height = pc_height pc, cs_blocks = blocks,
             cs_index = build_block_index_by_hash P blocks, cs_utxos = utxos,
             cs_undo_stack = undo_stack, cs_storage = storage, cs_last_prune_report = None,
             cs_last_prune_error = None\<rparr>))))"

section \<open>Start-up\<close>

definition sort_utxos_for_consistency_check :: "utxo_entry list \<Rightarrow> utxo_entry list" where
  "sort_utxos_for_consistency_check = sort_key (\<lambda>e. (utxo_txid e, utxo_output_index e,
     utxo_value_atoms e, utxo_created_height e, utxo_is_coinbase e, utxo_locking_script e,
     network_name (utxo_network e)))"

text \<open>The loop over the records of the main chain, which replays every block after genesis.\<close>

fun replay_records ::
  "primitives \<Rightarrow> node_env \<Rightarrow> database \<Rightarrow> u64 \<Rightarrow> block_archive_record list \<Rightarrow> chainstate
     \<Rightarrow> storage_error + chainstate" where
  "replay_records P env db expected_height [] replay = Inr replay"
| "replay_records P env db expected_height (r # rs) replay =
     rbind (ensure (rec_height r = expected_height) IncompleteBlockHistory)
       (\<lambda>_. rbind (ok_or IncompleteBlockHistory (load_block_hash_by_height db expected_height))
       (\<lambda>indexed_hash. rbind (ensure (indexed_hash = rec_block_hash r) PersistedTipMismatch)
       (\<lambda>_. rbind (rbind (load_block P db (rec_block_hash r)) (ok_or IncompleteBlockHistory))
       (\<lambda>b. rbind (ensure (block_hash P (header b) = rec_block_hash r
                           \<and> height (header b) = expected_height) CorruptData)
       (\<lambda>_. if expected_height = 0
            then (if header b \<noteq> header (genesis_block P (db_network db))
                     \<or> transactions b \<noteq> transactions (genesis_block P (db_network db))
                  then Inl PersistedGenesisMismatch
                  else replay_records P env db (expected_height + 1) rs replay)
            else case connect_block P env replay b of
                   (_, Inl _) \<Rightarrow> Inl CorruptData
                 | (replay, Inr _) \<Rightarrow> replay_records P env db (expected_height + 1) rs replay)))))"

definition verify_persisted_chainstate_consistency ::
  "primitives \<Rightarrow> node_env \<Rightarrow> database \<Rightarrow> storage_error + unit" where
  "verify_persisted_chainstate_consistency P env db =
     (let main_chain_records = sort_key rec_height (filter rec_main_chain (list_block_records db))
      in case (load_chainstate_snapshot db, main_chain_records) of
           (None, []) \<Rightarrow> Inr ()
         | (Some snapshot, _ # _) \<Rightarrow>
             let r = last main_chain_records
             in rbind (ensure (snap_height snapshot = rec_height r
                               \<and> snap_tip_hash snapshot = rec_block_hash r) PersistedTipMismatch)
             (\<lambda>_. rbind (ensure (length main_chain_records = unat (snap_height snapshot) + 1)
                   IncompleteBlockHistory)
             (\<lambda>_. rbind (ensure (case snap_tip_header snapshot of None \<Rightarrow> True
                      | Some h \<Rightarrow> block_hash P h = snap_tip_hash snapshot
                                  \<and> height h = snap_height snapshot) PersistedTipMismatch)
             (\<lambda>_. rbind (replay_records P env db 0 main_chain_records
                           (chainstate_fresh P (db_network db)))
             (\<lambda>replay. rbind (ensure (cs_height replay = snap_height snapshot
                               \<and> cs_tip_hash replay = snap_tip_hash snapshot) PersistedTipMismatch)
             (\<lambda>_. rbind (ensure (case snap_tip_header snapshot of None \<Rightarrow> True
                      | Some h \<Rightarrow> cs_tip replay = Some h) PersistedTipMismatch)
             (\<lambda>_. rbind (ensure (list_all (\<lambda>e. utxo_network e = db_network db) (load_utxos db))
                   CrossNetworkReplay)
             (\<lambda>_. ensure (sort_utxos_for_consistency_check (load_utxos db)
                     = sort_utxos_for_consistency_check (utxo_entries (cs_utxos replay)))
                   CorruptData)))))))
         | _ \<Rightarrow> Inl IncompleteBlockHistory)"

text \<open>The removal of the journal file ignores its error; the model removes it.\<close>

definition run_startup_consistency_checks ::
  "primitives \<Rightarrow> node_env \<Rightarrow> database \<Rightarrow> database \<times> (storage_error + unit)" where
  "run_startup_consistency_checks P env db =
     (let runtime_state = (case meta_runtime_state (db_tables db) of
            None \<Rightarrow> default_runtime_state | Some state \<Rightarrow> state)
      in if last_clean_shutdown runtime_state \<and> \<not> db_journal db then (db, Inr ())
         else case verify_persisted_chainstate_consistency P env db of
                Inl err \<Rightarrow> (db, Inl err)
              | Inr _ \<Rightarrow> update_runtime_state (\<lambda>state. state\<lparr>last_clean_shutdown := True,
                  last_recovery_check_unix := env_now env\<rparr>) (db\<lparr>db_journal := False\<rparr>))"

text \<open>One step after another on a database, up to the first error.\<close>

definition then_db ::
  "database \<times> (storage_error + unit) \<Rightarrow> (database \<Rightarrow> database \<times> (storage_error + unit))
     \<Rightarrow> database \<times> (storage_error + unit)" where
  "then_db r f = (case r of (db, Inl err) \<Rightarrow> (db, Inl err) | (db, Inr _) \<Rightarrow> f db)"

text \<open>\<open>db\<close> is what is on disk, \<open>legacy_layout\<close> whether directories of an older layout are present.\<close>

definition database_open ::
  "primitives \<Rightarrow> node_env \<Rightarrow> bool \<Rightarrow> database \<Rightarrow> database \<times> (storage_error + unit)" where
  "database_open P env legacy_layout db =
     (if legacy_layout then (db, Inl LegacyStorageLayout)
      else then_db (then_db (then_db
             (ensure_storage_metadata P (env_now env)
                (db\<lparr>db_store := repair_last_file_tail P (db_store db)\<rparr>))
             ensure_schema_version) ensure_runtime_state) (run_startup_consistency_checks P env))"

definition first_start ::
  "primitives \<Rightarrow> node_env \<Rightarrow> network \<Rightarrow> database \<Rightarrow> database \<times> (storage_error + chainstate)" where
  "first_start P env n db =
     (let cs = fresh_with_storage P n (Some db)
      in case commit_chainstate P (env_now env) db
                \<lparr>snap_height = 0, snap_tip_hash = cs_tip_hash cs, snap_tip_header = cs_tip cs\<rparr>
                (utxo_entries (cs_utxos cs)) (Some (0, genesis_block P n)) of
           (db, Inl err) \<Rightarrow> (db, Inl err)
         | (db, Inr _) \<Rightarrow> (db, Inr (cs\<lparr>cs_storage := Some db\<rparr>)))"

definition reload ::
  "primitives \<Rightarrow> node_env \<Rightarrow> network \<Rightarrow> persisted_chainstate \<Rightarrow> database
     \<Rightarrow> database \<times> (storage_error + chainstate)" where
  "reload P env n pc db =
     (case try_into_chainstate P n (Some db) pc of
        Inl err \<Rightarrow> (db, Inl err)
      | Inr cs \<Rightarrow>
          (case save_persisted_chainstate P env cs of
             (cs, Inl err) \<Rightarrow> (the (cs_storage cs), Inl err)
           | (cs, Inr _) \<Rightarrow> (the (cs_storage cs), Inr cs)))"

definition try_load_or_new ::
  "primitives \<Rightarrow> node_env \<Rightarrow> bool \<Rightarrow> bool \<Rightarrow> network \<Rightarrow> database
     \<Rightarrow> database \<times> (storage_error + chainstate)" where
  "try_load_or_new P env legacy_layout legacy n db =
     (case database_open P env legacy_layout db of
        (db, Inl err) \<Rightarrow> (db, Inl err)
      | (db, Inr _) \<Rightarrow>
          (case load_persisted_chainstate legacy db of
             Inl err \<Rightarrow> (db, Inl err)
           | Inr (Some pc) \<Rightarrow> reload P env n pc db
           | Inr None \<Rightarrow> first_start P env n db))"

text \<open>The quarantine moves the database directory with its block files and the commit journal away,
  so the second attempt finds an empty one; \<open>quarantine\<close> is what the file system answers.\<close>

definition quarantined :: "database \<Rightarrow> database" where
  "quarantined db = db\<lparr>db_store := (db_store db)\<lparr>store_files := []\<rparr>, db_tables := empty_tables,
     db_journal := False\<rparr>"

definition try_load_or_recover ::
  "primitives \<Rightarrow> node_env \<Rightarrow> bool \<Rightarrow> bool \<Rightarrow> storage_error + unit \<Rightarrow> network \<Rightarrow> database
     \<Rightarrow> database \<times> (storage_error + chainstate)" where
  "try_load_or_recover P env legacy_layout legacy quarantine n db =
     (case try_load_or_new P env legacy_layout legacy n db of
        (db, Inr cs) \<Rightarrow> (db, Inr cs)
      | (db, Inl err) \<Rightarrow>
          if is_recoverable_local_state err
          then case quarantine of
                 Inl e \<Rightarrow> (db, Inl e)
               | Inr _ \<Rightarrow> try_load_or_new P env False False n (quarantined db)
          else (db, Inl err))"

section \<open>Thin wrappers\<close>

definition chainstate_insert_utxo :: "chainstate \<Rightarrow> utxo_entry \<Rightarrow> chainstate \<times> (storage_error + unit)" where
  "chainstate_insert_utxo cs e =
     (case utxo_insert (cs_utxos cs) e of (s, r) \<Rightarrow> (cs\<lparr>cs_utxos := s\<rparr>, r))"

definition on_storage ::
  "(database \<Rightarrow> database \<times> (storage_error + unit)) \<Rightarrow> chainstate \<Rightarrow> chainstate \<times> (storage_error + unit)" where
  "on_storage f cs =
     (case cs_storage cs of
        None \<Rightarrow> (cs, Inr ())
      | Some db \<Rightarrow> (case f db of (db, r) \<Rightarrow> (cs\<lparr>cs_storage := Some db\<rparr>, r)))"

definition chainstate_mark_runtime_started ::
  "node_env \<Rightarrow> chainstate \<Rightarrow> chainstate \<times> (storage_error + unit)" where
  "chainstate_mark_runtime_started env = on_storage (mark_runtime_started (env_now env))"

definition chainstate_mark_clean_shutdown ::
  "node_env \<Rightarrow> chainstate \<Rightarrow> chainstate \<times> (storage_error + unit)" where
  "chainstate_mark_clean_shutdown env = on_storage (mark_clean_shutdown (env_now env))"

definition has_pruned_history :: "chainstate \<Rightarrow> bool" where
  "has_pruned_history cs =
     (case cs_storage cs of None \<Rightarrow> False | Some db \<Rightarrow> has_pruned_blocks db)"

end
