(* ===== verification/Reload.thy ===== *)
theory Reload
  imports Chain_Startup
begin

text \<open>
  How many blocks a restarted node needs in memory. A restart reloads the last 27 blocks. They decide
  the target and the earliest time of the next block exactly as the whole chain does; one block
  fewer, after a disconnect, and the target can be another one.
\<close>

section \<open>The window of the retargeting rule\<close>

lemma full_window_target:
  assumes "strip_genesis bs = xs" and "17 \<le> length xs"
  shows "next_target_from_blocks n bs = clamp_target (biguint_to_target
    (mean_target_blocks (drop (length xs - 17) xs)
      * unat (bounded_actual_timespan (sat_sub (median_time_past_blocks xs (length xs - 1))
            (median_time_past_blocks xs (length xs - 17))) (expected_timespan_seconds_for_window 17))
      div unat (expected_timespan_seconds_for_window 17)))"
proof -
  have "min (length xs) 17 = 17" using assms(2) by simp
  then show ?thesis
    unfolding next_target_from_blocks_def Let_def assms(1) by (simp add: POW_PROFILE_def)
qed

lemma median_time_past_window:
  assumes "i < usize_max"
  shows "median_time_past_blocks xs i
    = median_u64 (map (\<lambda>b. timestamp (header b)) (drop (i - 10) (take (Suc i) xs)))"
  using assms
  by (simp add: median_time_past_blocks_def Let_def POW_PROFILE_def usize_sat_add_def drop_take)

lemma median_time_past_drop:
  assumes "k + 10 \<le> i" and "i < usize_max"
  shows "median_time_past_blocks (drop k xs) (i - k) = median_time_past_blocks xs i"
proof -
  have "i - k - 10 + k = i - 10" "Suc (i - k) + k = Suc i" using assms(1) by simp_all
  then have "drop (i - k - 10) (take (Suc (i - k)) (drop k xs)) = drop (i - 10) (take (Suc i) xs)"
    by (simp add: take_drop)
  then show ?thesis using assms(2) by (simp add: median_time_past_window)
qed

lemma last_blocks_decide:
  assumes "strip_genesis bs = xs" and "strip_genesis cs = drop k xs" and "k + 27 \<le> length xs"
    and "length xs \<le> usize_max"
  shows "next_target_from_blocks n cs = next_target_from_blocks n bs"
proof -
  have len: "length (drop k xs) = length xs - k" by simp
  have "median_time_past_blocks (drop k xs) (length xs - k - 1) = median_time_past_blocks xs (length xs - 1)"
    using median_time_past_drop [of k "length xs - 1" xs] assms(3,4) by (simp add: diff_commute)
  moreover have "median_time_past_blocks (drop k xs) (length xs - k - 17)
      = median_time_past_blocks xs (length xs - 17)"
  proof -
    have "k + 10 \<le> length xs - 17" "length xs - 17 < usize_max" using assms(3,4) by linarith+
    from median_time_past_drop [OF this, of xs] show ?thesis by (simp add: add.commute)
  qed
  moreover have "drop (length xs - k - 17) (drop k xs) = drop (length xs - 17) xs" using assms(3) by simp
  ultimately show ?thesis
    using full_window_target [OF assms(1), of n] full_window_target [OF assms(2), of n] assms(3)
    by (simp only: len)
qed

text \<open>C9: after a restart a node asks for the same next target and the same earliest time as before
  it: the reloaded blocks decide both, for every chain that is longer than the reload limit.\<close>

theorem reloaded_blocks_decide_target:
  fixes n :: network
  assumes "RECENT_BLOCK_RELOAD_LIMIT < length blocks" and "length blocks \<le> usize_max"
    and "\<forall>i<length blocks. height (header (blocks ! i)) = 0 \<longleftrightarrow> i = 0"
  defines "reloaded \<equiv> drop (length blocks - RECENT_BLOCK_RELOAD_LIMIT) blocks"
  shows "target_for_next_block_with_timestamp n reloaded ts = target_for_next_block_with_timestamp n blocks ts
    \<and> minimum_next_block_timestamp reloaded = minimum_next_block_timestamp blocks"
proof -
  have lim: "RECENT_BLOCK_RELOAD_LIMIT = 27" by (simp add: RECENT_BLOCK_RELOAD_LIMIT_def)
  have len: "27 < length blocks" using assms(1) by (simp add: lim)
  then obtain g rest where g: "blocks = g # rest" by (cases blocks) auto
  have strip: "strip_genesis blocks = rest"
    using assms(3) len by (auto simp: g strip_genesis_def)
  define k where "k = length rest - 27"
  have "length blocks - 27 = Suc k" using len by (simp add: g k_def)
  then have re: "reloaded = drop k rest" by (simp add: reloaded_def lim g)
  have "height (header (rest ! k)) \<noteq> 0" using spec [OF assms(3), of "Suc k"] len by (simp add: g k_def)
  moreover have "reloaded = rest ! k # drop (Suc k) rest"
    unfolding re using len by (intro Cons_nth_drop_Suc [symmetric]) (simp add: g k_def)
  ultimately have "strip_genesis reloaded = drop k rest" by (simp add: strip_genesis_def re)
  then have "next_target_from_blocks n reloaded = next_target_from_blocks n blocks"
    by (rule last_blocks_decide [OF strip]) (use len assms(2) in \<open>simp_all add: g k_def\<close>)
  moreover have lst: "last reloaded = last blocks" and ne: "reloaded \<noteq> []" "blocks \<noteq> []"
    using len by (auto simp: reloaded_def lim)
  moreover have "median_time_past_blocks reloaded (length reloaded - 1)
      = median_time_past_blocks blocks (length blocks - 1)"
    using median_time_past_drop [of "length blocks - 27" "length blocks - 1" blocks] len assms(2)
    by (simp add: reloaded_def lim)
  ultimately show ?thesis
    by (simp add: target_for_next_block_with_timestamp_def minimum_next_block_timestamp_def
        median_time_past_from_blocks_def)
qed

section \<open>One block fewer\<close>

text \<open>Blocks at the easiest target, one every hundred seconds from genesis on.\<close>

definition steady_chain :: "block list" where
  "steady_chain = map (\<lambda>i. example_chain_block (of_nat i) (100 * of_nat i)) [0..<40]"

lemma steady_target:
  assumes "strip_genesis bs = xs" and "17 \<le> length xs"
    and "\<forall>b\<in>set xs. difficulty_target_or_bits (header b) = min_difficulty_target DIFFICULTY_PROFILE"
    and "bounded_actual_timespan (sat_sub (median_time_past_blocks xs (length xs - 1))
            (median_time_past_blocks xs (length xs - 17))) (expected_timespan_seconds_for_window 17) = d"
    and "unat d \<le> 1600"
  shows "target_to_biguint (next_target_from_blocks n bs) = max 4095 ((256 ^ 46 - 1) * unat d div 1600)"
proof -
  let ?w = "drop (length xs - 17) xs" and ?t = "(256 ^ 46 - 1) * unat d div 1600 :: nat"
  have "sum_list (map (\<lambda>b. target_to_biguint (difficulty_target_or_bits (header b))) ?w)
      = 17 * (256 ^ 46 - 1)"
  proof -
    have "map (\<lambda>b. target_to_biguint (difficulty_target_or_bits (header b))) ?w
        = map (\<lambda>b. 256 ^ 46 - 1) ?w"
      using assms(3) by (auto simp: target_to_biguint_def profile_targets dest: in_set_dropD)
    then show ?thesis using assms(2) by (simp add: map_replicate_const sum_list_replicate)
  qed
  then have mean: "mean_target_blocks ?w = 256 ^ 46 - 1"
    unfolding mean_target_blocks_def sum_targets_fold using assms(2) by simp
  have e: "unat (expected_timespan_seconds_for_window 17) = 1600" by (simp add: expected_timespan_window)
  have le: "?t \<le> 256 ^ 46 - 1"
    using div_le_mono [OF mult_le_mono2 [OF assms(5)], of "256 ^ 46 - 1" 1600] by simp
  have lt: "?t < 256 ^ 48" by (rule order_le_less_trans [OF le]) simp
  have "be_to_nat (biguint_to_target ?t) = ?t"
    unfolding biguint_to_target_value be_to_nat_of_nat using lt by (rule mod_less)
  then have "target_to_biguint (next_target_from_blocks n bs) = max LO (min HI ?t)"
    unfolding full_window_target [OF assms(1,2)] assms(4) mean e target_to_biguint_def
    by (subst clamp_value) (simp_all only: biguint_to_target_value length_be_of_nat)
  then show ?thesis using le by (simp add: min_def)
qed

lemma steady_spans:
  "strip_genesis (butlast steady_chain) = tl (butlast steady_chain)"
  "strip_genesis (butlast (drop 13 steady_chain)) = butlast (drop 13 steady_chain)"
  "bounded_actual_timespan (sat_sub (median_time_past_blocks (tl (butlast steady_chain)) 37)
     (median_time_past_blocks (tl (butlast steady_chain)) 21)) (expected_timespan_seconds_for_window 17) = 1600"
  "bounded_actual_timespan (sat_sub (median_time_past_blocks (butlast (drop 13 steady_chain)) 25)
     (median_time_past_blocks (butlast (drop 13 steady_chain)) 9)) (expected_timespan_seconds_for_window 17) = 1575"
proof -
  have "[0..<40] = [0..<13] @ [13..<39] @ [39]" by code_simp
  then have chain: "steady_chain = map (\<lambda>i. example_chain_block (of_nat i) (100 * of_nat i)) ([0..<13] @ [13..<39] @ [39])"
    by (simp only: steady_chain_def)
  have mem: "butlast (drop 13 steady_chain) = map (\<lambda>i. example_chain_block (of_nat i) (100 * of_nat i)) [13..<39]"
    unfolding chain by (simp only: map_append drop_append) simp
  have "[0..<40] = 0 # [1..<39] @ [39]" by code_simp
  then have chain': "steady_chain = map (\<lambda>i. example_chain_block (of_nat i) (100 * of_nat i)) (0 # [1..<39] @ [39])"
    by (simp only: steady_chain_def)
  have full: "tl (butlast steady_chain) = map (\<lambda>i. example_chain_block (of_nat i) (100 * of_nat i)) [1..<39]"
    unfolding chain' by (simp add: butlast_append)
  show "strip_genesis (butlast steady_chain) = tl (butlast steady_chain)"
    "strip_genesis (butlast (drop 13 steady_chain)) = butlast (drop 13 steady_chain)"
    unfolding mem by (simp_all add: chain' strip_genesis_def upt_rec_numeral butlast_append)
  have win: "median_time_past_blocks (map (\<lambda>i. example_chain_block (of_nat i) (100 * of_nat i)) [a..<39]) i
      = median_u64 (map (\<lambda>i. 100 * of_nat i) (drop (i - 10) (take (Suc i) [a..<39])))" if "i < 1000" for a i
    using that by (simp add: median_time_past_window drop_map take_map comp_def)
  have m: "median_time_past_blocks (tl (butlast steady_chain)) 37 = 3300"
    "median_time_past_blocks (tl (butlast steady_chain)) 21 = 1700"
    "median_time_past_blocks (butlast (drop 13 steady_chain)) 25 = 3300"
    "median_time_past_blocks (butlast (drop 13 steady_chain)) 9 = 1800"
  proof -
    have l: "drop (37 - 10) (take (Suc 37) [1..<39]) = [28, 29, 30, 31, 32, 33, 34, 35, 36, 37, 38]"
      "drop (21 - 10) (take (Suc 21) [1..<39]) = [12, 13, 14, 15, 16, 17, 18, 19, 20, 21, 22]"
      "drop (25 - 10) (take (Suc 25) [13..<39]) = [28, 29, 30, 31, 32, 33, 34, 35, 36, 37, 38]"
      "drop (9 - 10) (take (Suc 9) [13..<39]) = [13, 14, 15, 16, 17, 18, 19, 20, 21, 22]"
      by code_simp+
    show "median_time_past_blocks (tl (butlast steady_chain)) 37 = 3300"
      "median_time_past_blocks (tl (butlast steady_chain)) 21 = 1700"
      "median_time_past_blocks (butlast (drop 13 steady_chain)) 25 = 3300"
      "median_time_past_blocks (butlast (drop 13 steady_chain)) 9 = 1800"
      unfolding mem full by (subst win, simp, subst l, simp add: median_u64_def Let_def)+
  qed
  have e: "expected_timespan_seconds_for_window 17 = 1600"
    by (simp add: expected_timespan_seconds_for_window_def POW_PROFILE_def sat_mul_def)
  show "bounded_actual_timespan (sat_sub (median_time_past_blocks (tl (butlast steady_chain)) 37)
     (median_time_past_blocks (tl (butlast steady_chain)) 21)) (expected_timespan_seconds_for_window 17) = 1600"
   "bounded_actual_timespan (sat_sub (median_time_past_blocks (butlast (drop 13 steady_chain)) 25)
     (median_time_past_blocks (butlast (drop 13 steady_chain)) 9)) (expected_timespan_seconds_for_window 17) = 1575"
    unfolding m e by (simp_all add: bounded_actual_timespan_def POW_PROFILE_def Let_def sat_sub_def sat_mul_def sat_add_def)
qed

lemma steady_facts: "length steady_chain = 40" "length (butlast steady_chain) = 39"
  "\<forall>b\<in>set steady_chain. difficulty_target_or_bits (header b) = min_difficulty_target DIFFICULTY_PROFILE"
  by (simp_all add: steady_chain_def)

lemma steady_targets:
  "next_target_from_blocks n (butlast (drop 13 steady_chain)) \<noteq> next_target_from_blocks n (butlast steady_chain)"
proof -
  have sub: "set (tl (butlast steady_chain)) \<subseteq> set steady_chain"
    "set (butlast (drop 13 steady_chain)) \<subseteq> set steady_chain"
    using in_set_dropD [of _ 1 "butlast steady_chain"]
    by (auto simp: drop_Suc dest: in_set_butlastD in_set_dropD)
  have full: "target_to_biguint (next_target_from_blocks n (butlast steady_chain))
      = max 4095 ((256 ^ 46 - 1) * unat (1600 :: u64) div 1600)"
    by (rule steady_target [OF steady_spans(1)])
      (use steady_spans(3) steady_facts sub in \<open>auto simp: subset_iff\<close>)
  have mem: "target_to_biguint (next_target_from_blocks n (butlast (drop 13 steady_chain)))
      = max 4095 ((256 ^ 46 - 1) * unat (1575 :: u64) div 1600)"
    by (rule steady_target [OF steady_spans(2)])
      (use steady_spans(4) steady_facts sub in \<open>auto simp: subset_iff\<close>)
  show ?thesis
  proof
    assume "next_target_from_blocks n (butlast (drop 13 steady_chain)) = next_target_from_blocks n (butlast steady_chain)"
    with full mem show False by simp
  qed
qed

text \<open>C23: one block fewer is not enough. A restarted node that disconnects its tip, as every
  reorganisation does first, asks the next block for a target that the rest of the network does not
  use, already on a chain with one block every hundred seconds.\<close>

theorem reorg_after_restart_changes_target:
  assumes "cs_blocks cs = drop (length steady_chain - RECENT_BLOCK_RELOAD_LIMIT) steady_chain"
    and "cs_network cs = Mainnet" and "disconnect_last_block P env cs = (cs', Inr ())"
  shows "next_difficulty_target_for_timestamp cs' ts
    \<noteq> target_for_next_block_with_timestamp Mainnet (butlast steady_chain) ts"
proof -
  have "cs_blocks cs' = butlast (cs_blocks cs) \<and> cs_network cs' = cs_network cs"
    using assms(3)
    by (auto simp: disconnect_last_block_def Let_def persist_snapshot_for_def
        split: if_splits prod.splits sum.splits option.splits)
  then have "cs_blocks cs' = butlast (drop 13 steady_chain)" "cs_network cs' = Mainnet"
    using assms(1,2) by (simp_all add: steady_facts RECENT_BLOCK_RELOAD_LIMIT_def)
  then show ?thesis
    using steady_targets
    by (simp add: next_difficulty_target_for_timestamp_def target_for_next_block_with_timestamp_def)
qed

section \<open>Examples\<close>

definition restarted :: chainstate where
  "restarted = \<lparr>cs_network = Mainnet, cs_tip = None, cs_tip_hash = [], cs_height = 39,
     cs_blocks = drop 13 steady_chain, cs_index = Map.empty, cs_utxos = utxo_set_new Mainnet,
     cs_undo_stack = [\<lparr>previous_tip = None, previous_tip_hash = [], undo_of_block = empty_undo\<rparr>],
     cs_storage = None, cs_last_prune_report = None, cs_last_prune_error = None\<rparr>"

theorem reorg_after_restart_changes_target_witness:
  "\<exists>cs'. disconnect_last_block example_primitives \<lparr>env_now = 0, env_prune_depth = None,
      env_max_reorg_depth = None, env_prune_target_bytes = None\<rparr> restarted = (cs', Inr ())
    \<and> next_difficulty_target_for_timestamp cs' 3900
      \<noteq> target_for_next_block_with_timestamp Mainnet (butlast steady_chain) 3900"
proof -
  let ?env = "\<lparr>env_now = 0, env_prune_depth = None, env_max_reorg_depth = None,
    env_prune_target_bytes = None\<rparr>"
  have r: "cs_blocks restarted = drop (length steady_chain - RECENT_BLOCK_RELOAD_LIMIT) steady_chain"
    "cs_network restarted = Mainnet"
    by (simp_all add: restarted_def steady_facts RECENT_BLOCK_RELOAD_LIMIT_def)
  have "drop 13 steady_chain \<noteq> []" by (simp add: steady_facts)
  then obtain cs' where d: "disconnect_last_block example_primitives ?env restarted = (cs', Inr ())"
    by (simp add: disconnect_last_block_def restarted_def persist_snapshot_for_def)
  with reorg_after_restart_changes_target [OF r d] show ?thesis by blast
qed

theorem reloaded_blocks_decide_target_witness:
  "target_for_next_block_with_timestamp Testnet (drop 13 steady_chain) 3950
     = target_for_next_block_with_timestamp Testnet steady_chain 3950"
proof -
  have "\<forall>i<length steady_chain. height (header (steady_chain ! i)) = 0 \<longleftrightarrow> i = 0"
  proof (intro allI impI)
    fix i assume "i < length steady_chain"
    then have i: "i < 40" by (simp add: steady_facts)
    then have "unat (of_nat i :: u64) = i" by (intro unat_small_word) simp
    then have "(of_nat i :: u64) = 0 \<longleftrightarrow> i = 0" by auto
    then show "height (header (steady_chain ! i)) = 0 \<longleftrightarrow> i = 0" using i by (simp add: steady_chain_def)
  qed
  from reloaded_blocks_decide_target [OF _ _ this, of Testnet 3950] show ?thesis
    by (simp add: steady_facts RECENT_BLOCK_RELOAD_LIMIT_def)
qed

end
