(* ===== verification/Reorg.thy ===== *)
theory Reorg
  imports Chainstate
begin

text \<open>
  What connecting, disconnecting and switching branches do to the chain state: a failed step leaves
  the memory as it was, disconnecting undoes connecting, and a switch of branches either ends in the
  state of the new branch or gives back the state it started from. The database follows the memory.
\<close>

section \<open>One block\<close>

text \<open>The parts of the state that live in memory only.\<close>

definition memory :: "chainstate \<Rightarrow> chainstate" where
  "memory cs = cs\<lparr>cs_storage := None, cs_last_prune_report := None, cs_last_prune_error := None\<rparr>"

definition utxos_ok :: "chainstate \<Rightarrow> bool" where
  "utxos_ok cs \<longleftrightarrow> utxo_set_ok (cs_utxos cs) \<and> finite (dom (set_entries (cs_utxos cs)))
     \<and> set_network (cs_utxos cs) = cs_network cs"

definition tip_ok :: "chainstate \<Rightarrow> bool" where
  "tip_ok cs \<longleftrightarrow> (case cs_tip cs of None \<Rightarrow> cs_height cs = 0 | Some h \<Rightarrow> height h = cs_height cs)"

text \<open>A block that can be taken back: its transactions are new to the set, none spends an output of
  another one, its hash is new, and the memory keeps all blocks.\<close>

definition reversible :: "primitives \<Rightarrow> node_env \<Rightarrow> chainstate \<Rightarrow> block \<Rightarrow> bool" where
  "reversible P env cs b \<longleftrightarrow> fresh_txs P (cs_utxos cs) (transactions b) \<and> unlinked_txs P (transactions b)
     \<and> cs_index cs (block_hash P (header b)) = None
     \<and> length (cs_blocks cs) < unat (sat_add (effective_prune_depth env (cs_network cs)) 1)"

definition connected ::
  "primitives \<Rightarrow> chainstate \<Rightarrow> database option \<Rightarrow> block \<Rightarrow> utxo_set \<Rightarrow> block_undo \<Rightarrow> chainstate" where
  "connected P cs storage b utxos undo = cs\<lparr>cs_utxos := utxos, cs_storage := storage, cs_tip := Some (header b),
     cs_tip_hash := block_hash P (header b), cs_height := height (header b),
     cs_index := (cs_index cs)(block_hash P (header b) \<mapsto> length (cs_blocks cs)),
     cs_blocks := cs_blocks cs @ [b],
     cs_undo_stack := cs_undo_stack cs @ [\<lparr>previous_tip = cs_tip cs,
       previous_tip_hash = cs_tip_hash cs, undo_of_block = undo\<rparr>]\<rparr>"

lemma connect_blockE:
  assumes "connect_block P env cs b = (cs', r)"
  obtains (invalid) err where "r = Inl (Validation err)" "cs' = cs"
  | (unapplied) utxos err where "apply_block P (cs_utxos cs) b = (utxos, Inl err)" "r = Inl err"
      "cs' = cs\<lparr>cs_utxos := utxos\<rparr>"
      "validate_block_with_context P (env_now env) b (sat_add (cs_height cs) 1) (cs_network cs)
         (cs_tip_hash cs) (next_difficulty_target_for_timestamp cs (timestamp (header b)))
         (cs_blocks cs) (cs_utxos cs) = Inr ()"
  | (unsaved) utxos undo storage err where "apply_block P (cs_utxos cs) b = (utxos, Inr undo)"
      "commit_connected P env (cs_storage cs) b = (storage, Inl err)" "r = Inl err"
      "cs' = cs\<lparr>cs_utxos := disconnect_block utxos undo, cs_storage := storage\<rparr>"
  | (saved) utxos undo storage where "apply_block P (cs_utxos cs) b = (utxos, Inr undo)"
      "commit_connected P env (cs_storage cs) b = (storage, Inr ())" "r = Inr ()"
      "cs' = prune_history P env (connected P cs storage b utxos undo)"
      "validate_block_with_context P (env_now env) b (sat_add (cs_height cs) 1) (cs_network cs)
         (cs_tip_hash cs) (next_difficulty_target_for_timestamp cs (timestamp (header b)))
         (cs_blocks cs) (cs_utxos cs) = Inr ()"
proof (cases "validate_block_with_context P (env_now env) b (sat_add (cs_height cs) 1) (cs_network cs)
    (cs_tip_hash cs) (next_difficulty_target_for_timestamp cs (timestamp (header b)))
    (cs_blocks cs) (cs_utxos cs)")
  case (Inl err)
  with assms show thesis by (intro invalid [of err]) (simp_all add: connect_block_def)
next
  case valid: (Inr x)
  obtain utxos q where app: "apply_block P (cs_utxos cs) b = (utxos, q)" by fastforce
  obtain storage w where com: "commit_connected P env (cs_storage cs) b = (storage, w)" by fastforce
  show thesis
  proof (cases q)
    case (Inl err)
    with assms valid app show thesis by (intro unapplied [of utxos err]) (simp_all add: connect_block_def)
  next
    case undo: (Inr undo)
    show thesis
    proof (cases w)
      case (Inl err)
      with assms valid app undo com show thesis
        by (intro unsaved [of utxos undo storage err]) (simp_all add: connect_block_def)
    next
      case (Inr y)
      with assms valid app undo com show thesis
        by (intro saved [of utxos undo storage]) (simp_all add: connect_block_def connected_def)
    qed
  qed
qed

lemma prune_history_keeps:
  assumes "length (cs_blocks cs) \<le> unat (sat_add (effective_prune_depth env (cs_network cs)) 1)"
  shows "memory (prune_history P env cs) = memory cs"
  using assms
  by (simp add: prune_history_def prune_history_to_retain_def memory_def Let_def
      split: option.splits prod.splits sum.splits)

lemma prune_history_no_storage:
  assumes "length (cs_blocks cs) \<le> unat (sat_add (effective_prune_depth env (cs_network cs)) 1)"
    and "cs_storage cs = None"
  shows "prune_history P env cs = cs"
  using assms by (simp add: prune_history_def prune_history_to_retain_def Let_def)

lemma commit_connected_None [simp]: "commit_connected P env None b = (None, Inr ())"
  by (simp add: commit_connected_def)

lemma valid_fresh_applies:
  assumes "utxos_ok cs" and "fresh_txs P (cs_utxos cs) (transactions b)"
    and "validate_block_with_context P now b h (cs_network cs) prev target blocks (cs_utxos cs) = Inr ()"
  obtains s u where "apply_block P (cs_utxos cs) b = (s, Inr u)"
proof -
  have "transactions b \<noteq> []" by (rule block_validation_parts [OF assms(3)])
  then have "set_entries (cs_utxos cs) (txid P (transactions b ! 0), 0) = None"
    using assms(2) by (simp add: fresh_txs_def)
  with valid_block_applies [OF _ _ _ assms(3)] assms(1) that show thesis
    unfolding utxos_ok_def by blast
qed

lemma failed_connect_memory:
  assumes ok: "utxos_ok cs" and fresh: "fresh_txs P (cs_utxos cs) (transactions b)"
    and unl: "unlinked_txs P (transactions b)" and c: "connect_block P env cs b = (cs', Inl err)"
  shows "cs' = cs\<lparr>cs_storage := cs_storage cs'\<rparr>"
  using c
proof (cases rule: connect_blockE)
  case (unapplied utxos err)
  then show ?thesis using valid_fresh_applies [OF ok fresh] by (metis Inl_Inr_False prod.inject)
next
  case (unsaved utxos undo storage err)
  have "disconnect_block utxos undo = cs_utxos cs"
    using disconnect_exact [OF _ fresh unsaved(1)] ok unl by (simp add: utxos_ok_def)
  then show ?thesis using unsaved(4) by simp
qed simp_all

lemma memory_fields:
  assumes "memory cs = memory cs'"
  shows "cs_network cs = cs_network cs'" "cs_tip cs = cs_tip cs'" "cs_tip_hash cs = cs_tip_hash cs'"
    "cs_height cs = cs_height cs'" "cs_blocks cs = cs_blocks cs'" "cs_index cs = cs_index cs'"
    "cs_utxos cs = cs_utxos cs'" "cs_undo_stack cs = cs_undo_stack cs'"
  using assms unfolding memory_def by (cases cs; cases cs'; simp)+

lemma memory_eqI:
  assumes "cs_network cs = cs_network cs'" "cs_tip cs = cs_tip cs'" "cs_tip_hash cs = cs_tip_hash cs'"
    "cs_height cs = cs_height cs'" "cs_blocks cs = cs_blocks cs'" "cs_index cs = cs_index cs'"
    "cs_utxos cs = cs_utxos cs'" "cs_undo_stack cs = cs_undo_stack cs'"
  shows "memory cs = memory cs'"
  using assms unfolding memory_def by (cases cs; cases cs'; simp)

lemma persist_keeps:
  assumes "persist_snapshot_for P env cs hgt h t = (cs', r)"
  shows "cs' = cs\<lparr>cs_storage := cs_storage cs'\<rparr>" and "cs_storage cs = None \<Longrightarrow> cs' = cs \<and> r = Inr ()"
  using assms by (auto simp: persist_snapshot_for_def split: option.splits prod.splits)

lemma disconnect_lastE:
  assumes d: "disconnect_last_block P env cs = (cs', r)"
    and ne: "cs_undo_stack cs = us @ [undo]" "cs_blocks cs = bs @ [b]"
  obtains (unsaved) err storage where "r = Inl err"
      "cs' = cs\<lparr>cs_utxos := fst (apply_block P (disconnect_block (cs_utxos cs) (undo_of_block undo)) b),
         cs_storage := storage\<rparr>"
      "cs_storage cs \<noteq> None"
  | (saved) storage where "r = Inr ()"
      "cs' = cs\<lparr>cs_utxos := disconnect_block (cs_utxos cs) (undo_of_block undo), cs_storage := storage,
         cs_undo_stack := us, cs_blocks := bs,
         cs_index := (cs_index cs)(block_hash P (header b) := None),
         cs_tip := previous_tip undo, cs_tip_hash := previous_tip_hash undo,
         cs_height := (case previous_tip undo of Some h \<Rightarrow> height h | None \<Rightarrow> 0)\<rparr>"
      "cs_storage cs = None \<Longrightarrow> storage = None"
proof -
  let ?cs1 = "cs\<lparr>cs_utxos := disconnect_block (cs_utxos cs) (undo_of_block undo)\<rparr>"
  let ?utxos = "disconnect_block (cs_utxos cs) (undo_of_block undo)"
  let ?h = "case previous_tip undo of Some h \<Rightarrow> height h | None \<Rightarrow> 0"
  obtain cs2 q where p: "persist_snapshot_for P env ?cs1 ?h (previous_tip_hash undo) (previous_tip undo)
      = (cs2, q)" by fastforce
  note keep = persist_keeps [OF p]
  from keep(1) obtain storage where cs2: "cs2 = ?cs1\<lparr>cs_storage := storage\<rparr>" by blast
  show thesis
  proof (cases q)
    case (Inl err)
    have "cs_storage cs \<noteq> None" using keep(2) Inl by auto
    moreover have "r = Inl err \<and> cs' = cs2\<lparr>cs_utxos := fst (apply_block P (cs_utxos cs2) b)\<rparr>"
      using d ne Inl p by (simp add: disconnect_last_block_def Let_def)
    moreover have "cs2\<lparr>cs_utxos := fst (apply_block P (cs_utxos cs2) b)\<rparr>
        = cs\<lparr>cs_utxos := fst (apply_block P ?utxos b), cs_storage := storage\<rparr>"
      by (cases cs) (simp add: cs2)
    ultimately show thesis by (intro unsaved [of err storage]) (simp_all add: cs2)
  next
    case (Inr x)
    have "cs_storage cs = None \<Longrightarrow> storage = None" using arg_cong [where f = cs_storage] keep(2) by (fastforce simp: cs2)
    moreover have "r = Inr () \<and> cs' = cs2\<lparr>cs_undo_stack := us, cs_blocks := bs,
        cs_index := (cs_index cs)(block_hash P (header b) := None), cs_tip := previous_tip undo,
        cs_tip_hash := previous_tip_hash undo, cs_height := ?h\<rparr>"
      using d ne Inr p by (simp add: disconnect_last_block_def Let_def)
    ultimately show thesis by (intro saved [of storage]) (simp_all add: cs2)
  qed
qed

lemma connected_undone:
  assumes ok: "utxos_ok cs" "tip_ok cs" and rev: "reversible P env cs b"
    and app: "apply_block P (cs_utxos cs) b = (s, Inr u)"
    and m: "memory cs1 = memory (connected P cs storage b s u)"
    and d: "disconnect_last_block P env' cs1 = (cs2, r)"
  shows "r = Inr () \<Longrightarrow> memory cs2 = memory cs"
    and "cs_storage cs1 = None \<Longrightarrow> r = Inr () \<and> cs_storage cs2 = None"
    and "r = Inl err \<Longrightarrow> memory cs2 = memory cs1"
proof -
  note f = memory_fields [OF m]
  let ?undo = "\<lparr>previous_tip = cs_tip cs, previous_tip_hash = cs_tip_hash cs, undo_of_block = u\<rparr>"
  have restored: "disconnect_block s u = cs_utxos cs"
    using disconnect_exact [OF _ _ app] ok(1) rev by (simp add: utxos_ok_def reversible_def)
  have hgt: "(case cs_tip cs of Some h \<Rightarrow> height h | None \<Rightarrow> 0) = cs_height cs"
    using ok(2) by (simp add: tip_ok_def split: option.splits)
  have idx: "(cs_index cs)(block_hash P (header b) := None) = cs_index cs"
    using rev by (auto simp: reversible_def)
  have st: "cs_undo_stack cs1 = cs_undo_stack cs @ [?undo]" "cs_blocks cs1 = cs_blocks cs @ [b]"
    by (simp_all add: f connected_def)
  show "r = Inr () \<Longrightarrow> memory cs2 = memory cs"
    using d st
  proof (cases rule: disconnect_lastE)
    case (saved storage)
    show ?thesis unfolding saved(2)
      by (rule memory_eqI) (simp_all add: f connected_def restored hgt idx)
  qed simp
  show "cs_storage cs1 = None \<Longrightarrow> r = Inr () \<and> cs_storage cs2 = None"
    using d st by (cases rule: disconnect_lastE) auto
  show "r = Inl err \<Longrightarrow> memory cs2 = memory cs1"
    using d st
  proof (cases rule: disconnect_lastE)
    case (unsaved err storage)
    show ?thesis unfolding unsaved(2)
      by (rule memory_eqI) (simp_all add: f connected_def restored app)
  qed simp
qed

section \<open>Runs of blocks in memory\<close>

text \<open>A state without a database whose set and tip are in order.\<close>

definition in_memory :: "chainstate \<Rightarrow> bool" where
  "in_memory cs \<longleftrightarrow> cs_storage cs = None \<and> utxos_ok cs \<and> tip_ok cs"

lemma applied_utxos_ok:
  assumes ok: "utxos_ok cs" and fresh: "fresh_txs P (cs_utxos cs) (transactions b)"
    and app: "apply_block P (cs_utxos cs) b = (s, Inr u)"
  shows "utxo_set_ok s" and "finite (dom (set_entries s))" and "set_network s = cs_network cs"
proof -
  have s0: "utxo_set_ok (cs_utxos cs)" "finite (dom (set_entries (cs_utxos cs)))"
    "set_network (cs_utxos cs) = cs_network cs" using ok by (simp_all add: utxos_ok_def)
  have j: "journal (cs_utxos cs) u s"
    using apply_transactions_journal [OF app [unfolded apply_block_def] journal_empty s0(1) fresh]
    by (simp add: empty_undo_def)
  show "utxo_set_ok s" by (rule journal_ok [OF j s0(1)])
  show "set_network s = cs_network cs" using journalD(1) [OF j] s0(3) by simp
  show "finite (dom (set_entries s))"
    using s0(2) by (simp add: journalD(7) [OF j] dom_restrict)
qed

lemma connect_in_memory:
  assumes m: "in_memory cs" and rev: "reversible P env cs b"
  shows "connect_block P env cs b = (cs', Inr r) \<Longrightarrow>
      in_memory cs' \<and> disconnect_last_block P env' cs' = (cs, Inr ())
      \<and> length (cs_blocks cs') = Suc (length (cs_blocks cs)) \<and> cs_network cs' = cs_network cs"
    and "connect_block P env cs b = (cs', Inl err) \<Longrightarrow> cs' = cs"
proof -
  have ok: "utxos_ok cs" "tip_ok cs" and st: "cs_storage cs = None" using m by (simp_all add: in_memory_def)
  have fresh: "fresh_txs P (cs_utxos cs) (transactions b)"
    and room: "length (cs_blocks cs) < unat (sat_add (effective_prune_depth env (cs_network cs)) 1)"
    using rev by (simp_all add: reversible_def)
  show "cs' = cs" if c: "connect_block P env cs b = (cs', Inl err)"
    using c
  proof (cases rule: connect_blockE)
    case (unapplied utxos err)
    then show ?thesis using valid_fresh_applies [OF ok(1) fresh] by (metis Inl_Inr_False prod.inject)
  next
    case (unsaved utxos undo storage err)
    then show ?thesis using st by simp
  qed simp_all
  show "in_memory cs' \<and> disconnect_last_block P env' cs' = (cs, Inr ())
      \<and> length (cs_blocks cs') = Suc (length (cs_blocks cs)) \<and> cs_network cs' = cs_network cs"
    if c: "connect_block P env cs b = (cs', Inr r)"
    using c
  proof (cases rule: connect_blockE)
    case (saved s u storage)
    have storage: "storage = None" using saved(2) st by simp
    have cs': "cs' = connected P cs None b s u"
      unfolding saved(4) storage
      by (rule prune_history_no_storage) (use room in \<open>simp_all add: connected_def\<close>)
    obtain cs2 q where d: "disconnect_last_block P env' cs' = (cs2, q)" by fastforce
    note undone = connected_undone [OF ok rev saved(1) arg_cong [where f = memory, OF cs'] d]
    have q: "q = Inr ()" "cs_storage cs2 = None" using undone(2) by (simp_all add: cs' connected_def)
    have "cs_last_prune_report cs2 = cs_last_prune_report cs" "cs_last_prune_error cs2 = cs_last_prune_error cs"
      using d by (auto simp: cs' connected_def disconnect_last_block_def persist_snapshot_for_def Let_def)
    then have "cs2 = cs" using memory_fields [OF undone(1) [OF q(1)]] q(2) st by (cases cs; cases cs2) simp
    moreover have "in_memory cs'"
      using applied_utxos_ok [OF ok(1) fresh saved(1)]
      by (simp add: in_memory_def cs' connected_def utxos_ok_def tip_ok_def)
    ultimately show ?thesis using d q(1) by (simp add: cs' connected_def)
  qed simp_all
qed

fun reversible_run :: "primitives \<Rightarrow> node_env \<Rightarrow> chainstate \<Rightarrow> block list \<Rightarrow> bool" where
  "reversible_run P env cs [] \<longleftrightarrow> True"
| "reversible_run P env cs (b # bs) \<longleftrightarrow> reversible P env cs b
     \<and> (case connect_block P env cs b of
          (cs', Inr _) \<Rightarrow> reversible_run P env cs' bs
        | (_, Inl _) \<Rightarrow> True)"

lemma connect_all_append:
  "connect_all P env (xs @ ys) cs =
     (case connect_all P env xs cs of (cs', Inl err) \<Rightarrow> (cs', Inl err) | (cs', Inr _) \<Rightarrow> connect_all P env ys cs')"
  by (induction xs arbitrary: cs) (auto split: prod.splits sum.splits)

lemma reversible_run_append:
  assumes "connect_all P env xs cs = (cs', Inr u)"
  shows "reversible_run P env cs (xs @ ys) \<longleftrightarrow> reversible_run P env cs xs \<and> reversible_run P env cs' ys"
  using assms by (induction xs arbitrary: cs) (auto split: prod.splits sum.splits)

lemma disconnect_times_Suc:
  assumes "disconnect_times P env n cs = (cs', Inr u)"
  shows "disconnect_times P env (Suc n) cs = disconnect_last_block P env cs'"
  using assms
proof (induction n arbitrary: cs)
  case 0
  then show ?case by (auto split: prod.splits sum.splits)
next
  case (Suc n)
  from Suc.prems obtain cs1 where d: "disconnect_last_block P env cs = (cs1, Inr ())"
    and rest: "disconnect_times P env n cs1 = (cs', Inr u)"
    by (auto split: prod.splits sum.splits)
  have "disconnect_times P env (Suc (Suc n)) cs = disconnect_times P env (Suc n) cs1"
    by (simp only: disconnect_times.simps(2) [of P env "Suc n"] d) simp
  then show ?case using Suc.IH [OF rest] by simp
qed

lemma run_undone:
  assumes "in_memory cs" and "reversible_run P env cs bs" and "connect_all P env bs cs = (cs', Inr u)"
  shows "in_memory cs' \<and> disconnect_times P env (length bs) cs' = (cs, Inr ())
    \<and> length (cs_blocks cs') = length (cs_blocks cs) + length bs \<and> cs_network cs' = cs_network cs"
  using assms
proof (induction bs arbitrary: cs)
  case Nil
  then show ?case by simp
next
  case (Cons b bs)
  from Cons.prems(3) obtain cs1 where c: "connect_block P env cs b = (cs1, Inr ())"
    and rest: "connect_all P env bs cs1 = (cs', Inr u)"
    by (auto split: prod.splits sum.splits)
  have rev: "reversible P env cs b" "reversible_run P env cs1 bs" using Cons.prems(2) by (simp_all add: c)
  note step = connect_in_memory(1) [OF Cons.prems(1) rev(1) c, of env]
  with Cons.IH [OF _ rev(2) rest] show ?case
    using disconnect_times_Suc [of P env "length bs" cs' cs1] by simp
qed

lemma run_length:
  assumes "in_memory cs" and "reversible_run P env cs bs" and "connect_all P env bs cs = (cs', Inr u)"
  shows "length bs \<le> u64_max"
proof (cases bs rule: rev_cases)
  case (snoc bs' b)
  obtain cs1 v where c: "connect_all P env bs' cs = (cs1, Inr v)"
    using assms(3) by (auto simp: snoc connect_all_append split: prod.splits sum.splits)
  have r: "reversible_run P env cs bs'" "reversible P env cs1 b"
    using assms(2) reversible_run_append [OF c, of "[b]"] by (simp_all add: snoc)
  have "length (cs_blocks cs) + length bs' < unat (sat_add (effective_prune_depth env (cs_network cs1)) 1)"
    using run_undone [OF assms(1) r(1) c] r(2) by (simp add: reversible_def)
  then show ?thesis using u64_unat_bound [of "sat_add (effective_prune_depth env (cs_network cs1)) 1"]
    by (simp add: snoc)
qed simp

section \<open>Switching branches\<close>

text \<open>A run that fails counts as not run: the state is the one before it.\<close>

definition all_or_nothing ::
  "primitives \<Rightarrow> node_env \<Rightarrow> block list \<Rightarrow> chainstate \<Rightarrow> chainstate \<Rightarrow> chainstate \<times> (storage_error + unit)" where
  "all_or_nothing P env bs start otherwise =
     (case connect_all P env bs start of
        (cs, Inr _) \<Rightarrow> (cs, Inr ())
      | (_, Inl err) \<Rightarrow> (otherwise, Inl err))"

lemma extend_loop_spec:
  assumes m: "in_memory cs0" and rev: "reversible_run P env cs0 (pre @ bs)"
    and pre: "connect_all P env pre cs0 = (cs, Inr u)"
  shows "extend_loop P env bs (length pre) cs = all_or_nothing P env bs cs cs0"
  using rev pre
proof (induction bs arbitrary: pre cs)
  case Nil
  then show ?case by (simp add: all_or_nothing_def)
next
  case (Cons b bs)
  have r: "reversible_run P env cs0 pre" "reversible P env cs b"
    using Cons.prems(1) reversible_run_append [OF Cons.prems(2), of "b # bs"] by simp_all
  note run = run_undone [OF m r(1) Cons.prems(2)]
  obtain cs1 q where c: "connect_block P env cs b = (cs1, q)" by fastforce
  show ?case
  proof (cases q)
    case (Inl err)
    then have "cs1 = cs" using connect_in_memory(2) [OF _ r(2)] run c by blast
    then show ?thesis using run c Inl by (simp add: all_or_nothing_def)
  next
    case (Inr v)
    have pre': "connect_all P env (pre @ [b]) cs0 = (cs1, Inr v)"
      using c Inr Cons.prems(2) by (simp add: connect_all_append)
    have "length (pre @ [b]) \<le> u64_max"
      by (rule run_length [OF m _ pre'])
        (use Cons.prems(1) reversible_run_append [OF pre', of bs] in simp)
    then have "usize_sat_add (length pre) 1 = length (pre @ [b])" by (simp add: usize_sat_add_def)
    with Cons.IH [of "pre @ [b]" cs1] pre' Cons.prems(1) c Inr show ?thesis
      by (simp add: all_or_nothing_def)
  qed
qed

lemma extend_all_or_nothing:
  assumes "in_memory cs" and "reversible_run P env cs bs"
  shows "extend_with_validated_branch P env bs cs = all_or_nothing P env bs cs cs"
  using extend_loop_spec [of cs P env "[]" bs] assms by (simp add: extend_with_validated_branch_def)

lemma switch_disconnects_spec:
  assumes "in_memory cs0" and "reversible_run P env cs0 bs" and "connect_all P env bs cs0 = (cs, Inr u)"
    and "jr_disconnected_count j + length bs \<le> usize_max"
  shows "switch_disconnects P env (length bs) j cs =
    (cs0, Inr (j\<lparr>jr_disconnected_count := jr_disconnected_count j + length bs\<rparr>))"
  using assms(2-4)
proof (induction bs arbitrary: cs j u rule: rev_induct)
  case Nil
  then show ?case by simp
next
  case (snoc b bs)
  obtain cs1 v where c: "connect_all P env bs cs0 = (cs1, Inr v)" "connect_block P env cs1 b = (cs, Inr ())"
    using snoc.prems(2) by (auto simp: connect_all_append split: prod.splits sum.splits)
  have r: "reversible_run P env cs0 bs" "reversible P env cs1 b"
    using snoc.prems(1) reversible_run_append [OF c(1), of "[b]"] by simp_all
  have "in_memory cs1" using run_undone [OF assms(1) r(1) c(1)] by simp
  from connect_in_memory(1) [OF this r(2) c(2), of env]
  have "disconnect_last_block P env cs = (cs1, Inr ())" by simp
  with snoc.IH [OF r(1) c(1), of "note_disconnect j"] snoc.prems(3) show ?case
    by (simp add: note_disconnect_def usize_sat_add_def)
qed

lemma restored_branch:
  assumes m: "in_memory cs0"
    and old: "connect_all P env old cs0 = (cs, Inr u)"
    and pre: "connect_all P env pre cs0 = (cs1, Inr v)" "reversible_run P env cs0 pre"
    and j: "jr_canonical_suffix j = old" "jr_disconnected_count j = length old"
      "jr_connected_count j = length pre"
  shows "restore_and_fail P env j err cs1 = (cs, Inl err)"
  using run_undone [OF m pre(2,1)] old
  by (simp add: restore_and_fail_def restore_original_branch_from_journal_def
      rollback_incremental_branch_switch_def disconnected_suffix_to_restore_def j)

lemma switch_connects_spec:
  assumes m: "in_memory cs0" and old: "connect_all P env old cs0 = (cs, Inr u)"
    and "reversible_run P env cs0 (pre @ bs)" and "connect_all P env pre cs0 = (cs1, Inr v)"
    and "jr_canonical_suffix j = old" "jr_disconnected_count j = length old"
      "jr_connected_count j = length pre"
  shows "\<exists>j'. switch_connects P env bs j cs1 =
    (case connect_all P env bs cs1 of (cs', Inr _) \<Rightarrow> (cs', Inr j') | (_, Inl err) \<Rightarrow> (cs, Inl err))"
  using assms(3-)
proof (induction bs arbitrary: pre cs1 j)
  case Nil
  then show ?case by simp
next
  case (Cons b bs)
  have r: "reversible_run P env cs0 pre" "reversible P env cs1 b"
    using Cons.prems(1) reversible_run_append [OF Cons.prems(2), of "b # bs"] by simp_all
  note run = run_undone [OF m r(1) Cons.prems(2)]
  obtain cs2 q where c: "connect_block P env cs1 b = (cs2, q)" by fastforce
  show ?case
  proof (cases q)
    case (Inl err)
    then have "cs2 = cs1" using connect_in_memory(2) [OF _ r(2)] run c by blast
    then show ?thesis using restored_branch [OF m old Cons.prems(2) r(1) Cons.prems(3-)] c Inl by simp
  next
    case (Inr w)
    have pre': "connect_all P env (pre @ [b]) cs0 = (cs2, Inr w)"
      using c Inr Cons.prems(2) by (simp add: connect_all_append)
    have "length (pre @ [b]) \<le> u64_max"
      by (rule run_length [OF m _ pre'])
        (use Cons.prems(1) reversible_run_append [OF pre', of bs] in simp)
    then have "jr_connected_count (note_connect j) = length (pre @ [b])"
      using Cons.prems(5) by (simp add: note_connect_def usize_sat_add_def)
    moreover have "jr_canonical_suffix (note_connect j) = old"
      "jr_disconnected_count (note_connect j) = length old"
      using Cons.prems(3,4) by (simp_all add: note_connect_def)
    ultimately show ?thesis
      using Cons.IH [of "pre @ [b]" cs2 "note_connect j"] pre' Cons.prems(1) c Inr by simp
  qed
qed

lemma switch_all_or_nothing:
  assumes m: "in_memory cs0" and old: "connect_all P env old cs0 = (cs, Inr u)"
    and "reversible_run P env cs0 old" and "reversible_run P env cs0 new"
  shows "switch_branch_incrementally P env fork_height old new cs = all_or_nothing P env new cs0 cs"
proof -
  have len: "length old \<le> usize_max" using run_length [OF m assms(3) old] by simp
  let ?j = "(journal_new fork_height old)\<lparr>jr_disconnected_count := length old\<rparr>"
  have d: "switch_disconnects P env (length old) (journal_new fork_height old) cs = (cs0, Inr ?j)"
    using switch_disconnects_spec [OF m assms(3) old, of "journal_new fork_height old"] len
    by (simp add: journal_new_def)
  obtain j' where "switch_connects P env new ?j cs0 = (case connect_all P env new cs0 of
      (cs', Inr _) \<Rightarrow> (cs', Inr j') | (_, Inl err) \<Rightarrow> (cs, Inl err))"
    using switch_connects_spec [OF m old, of "[]" new cs0 "()" ?j] assms(4)
    by (auto simp: journal_new_def)
  then show ?thesis
    by (simp add: switch_branch_incrementally_def d all_or_nothing_def split: prod.splits sum.splits)
qed

section \<open>Selecting a branch\<close>

lemma connect_all_tip:
  assumes "connect_all P env bs cs = (cs', Inr u)" and "bs \<noteq> []"
  shows "cs_tip cs' = Some (header (last bs)) \<and> cs_tip_hash cs' = block_hash P (header (last bs))
    \<and> cs_height cs' = height (header (last bs))"
  using assms
proof (induction bs arbitrary: cs)
  case (Cons b bs)
  from Cons.prems(1) obtain cs1 where c: "connect_block P env cs b = (cs1, Inr ())"
    and rest: "connect_all P env bs cs1 = (cs', Inr u)"
    by (auto split: prod.splits sum.splits)
  have keep: "cs_tip (prune_history P env x) = cs_tip x \<and> cs_tip_hash (prune_history P env x) = cs_tip_hash x
      \<and> cs_height (prune_history P env x) = cs_height x" for x
    by (simp add: prune_history_def prune_history_to_retain_def Let_def
        split: option.splits prod.splits sum.splits)
  from c have "cs_tip cs1 = Some (header b) \<and> cs_tip_hash cs1 = block_hash P (header b)
      \<and> cs_height cs1 = height (header b)"
    by (cases rule: connect_blockE) (simp_all add: keep connected_def)
  then show ?case using rest Cons.IH [OF rest] by (cases "bs = []") simp_all
qed simp

text \<open>The fork state of a chain: the state that has the canonical blocks up to the fork height.\<close>

definition fork_state ::
  "primitives \<Rightarrow> node_env \<Rightarrow> chainstate \<Rightarrow> u64 \<Rightarrow> chainstate \<Rightarrow> bool" where
  "fork_state P env cs fork_height cs0 \<longleftrightarrow> in_memory cs0
     \<and> (\<exists>old. canonical_branch_after P cs fork_height = Inr old \<and> connect_all P env old cs0 = (cs, Inr ())
          \<and> reversible_run P env cs0 old)"

lemma select_branch_cases:
  assumes "select_branch_with_max_reorg_depth P env branch max_depth cs = (cs', r)"
  obtains (rejected) err where "r = Inl err" "cs' = cs"
  | (kept) fork_height old where
      "canonical_fork_height P cs (previous_block_hash (header (hd branch))) = Inr fork_height"
      "canonical_branch_after P cs fork_height = Inr old"
      "\<not> branch_is_preferred P branch old" "cs' = cs"
      "r = Inr \<lparr>sel_outcome = KeptCurrent, sel_disconnected = []\<rparr>"
  | (extends) fork_height where "branch \<noteq> []"
      "canonical_fork_height P cs (previous_block_hash (header (hd branch))) = Inr fork_height"
      "canonical_branch_after P cs fork_height = Inr []"
      "(cs', r) = with_result \<lparr>sel_outcome = Extended, sel_disconnected = []\<rparr>
         (extend_with_validated_branch P env branch cs)"
  | (reorgs) fork_height old where "branch \<noteq> []" "old \<noteq> []"
      "canonical_fork_height P cs (previous_block_hash (header (hd branch))) = Inr fork_height"
      "canonical_branch_after P cs fork_height = Inr old"
      "sat_sub (cs_height cs) fork_height \<le> max_depth" "branch_is_preferred P branch old"
      "(cs', r) = with_result \<lparr>sel_outcome = Reorged, sel_disconnected = old\<rparr>
         (if can_switch_incrementally P (previous_block_hash (header (hd branch))) old cs
          then switch_branch_incrementally P env fork_height old branch cs
          else replace_with_validated_branch P env fork_height branch cs)"
proof (cases "branch = []")
  case True
  with assms show thesis by (intro rejected [of EmptyBranch]) (auto simp: select_branch_with_max_reorg_depth_def)
next
  case ne: False
  then have hd: "branch ! 0 = hd branch" by (simp add: hd_conv_nth)
  let ?fork = "rbind (validate_branch_sequence P branch)
    (\<lambda>_. canonical_fork_height P cs (previous_block_hash (header (hd branch))))"
  show thesis
  proof (cases ?fork)
    case (Inl err)
    with assms ne show thesis
      by (intro rejected [of err]) (auto simp: select_branch_with_max_reorg_depth_def hd)
  next
    case fork: (Inr fork_height)
    then have f: "canonical_fork_height P cs (previous_block_hash (header (hd branch))) = Inr fork_height"
      by (auto elim: rbind_InrE)
    show thesis
    proof (cases "height (header (hd branch)) = sat_add fork_height 1")
      case False
      with assms ne fork show thesis
        by (intro rejected [of InvalidBranchSequence]) (auto simp: select_branch_with_max_reorg_depth_def hd)
    next
      case next_height: True
      show thesis
      proof (cases "canonical_branch_after P cs fork_height")
        case (Inl err)
        with assms ne fork next_height show thesis
          by (intro rejected [of err]) (auto simp: select_branch_with_max_reorg_depth_def hd)
      next
        case old: (Inr old)
        note sel = assms [unfolded select_branch_with_max_reorg_depth_def hd fork if_not_P [OF ne] sum.case
            next_height not_not simp_thms if_False old]
        show thesis
        proof (cases "old = []")
          case True
          with sel ne f old show thesis by (intro extends [of fork_height]) simp_all
        next
          case nonempty: False
          show thesis
          proof (cases "sat_sub (cs_height cs) fork_height \<le> max_depth")
            case False
            with sel nonempty show thesis
              by (intro rejected [of "ReorgTooDeep (sat_sub (cs_height cs) fork_height) max_depth
                    fork_height (cs_height cs)"]) (auto simp: reorg_depth_error_def Let_def not_le)
          next
            case depth: True
            then have none: "reorg_depth_error (cs_height cs) fork_height max_depth = None"
              by (simp add: reorg_depth_error_def Let_def)
            show thesis
            proof (cases "branch_is_preferred P branch old")
              case True
              show thesis
                by (rule reorgs [OF ne nonempty f old depth True])
                  (use sel nonempty none True in \<open>simp split: if_splits\<close>)
            next
              case False
              show thesis by (rule kept [OF f old False]) (use sel nonempty none False in simp_all)
            qed
          qed
        qed
      qed
    qed
  qed
qed

lemma prune_history_tip [simp]:
  "cs_tip (prune_history P env cs) = cs_tip cs" "cs_tip_hash (prune_history P env cs) = cs_tip_hash cs"
  "cs_height (prune_history P env cs) = cs_height cs" "cs_utxos (prune_history P env cs) = cs_utxos cs"
  "cs_network (prune_history P env cs) = cs_network cs"
  by (simp_all add: prune_history_def prune_history_to_retain_def Let_def
      split: option.splits prod.splits sum.splits)

lemma rcollect_length: "rcollect f xs = Inr ys \<Longrightarrow> length ys = length xs"
  by (induction xs arbitrary: ys) (auto elim!: rbind_InrE)

lemma replacement:
  assumes "replace_with_validated_branch P env fork_height branch cs = (cs', r)"
    and "cs_storage cs = None" and "branch \<noteq> []"
  shows "r = Inl err \<Longrightarrow> cs' = cs"
    and "r = Inr u \<Longrightarrow> cs_tip cs' = Some (header (last branch))"
proof -
  show "cs' = cs" if "r = Inl err"
    using assms(1,2) that
    by (auto simp: replace_with_validated_branch_def Let_def split: sum.splits)
  show "cs_tip cs' = Some (header (last branch))" if "r = Inr u"
  proof -
    from assms(1,2) that obtain prefix validated where
      pre: "canonical_prefix_through P cs fork_height = Inr prefix"
      and val: "validate_replacement_chain P env (cs_network cs) (prefix @ branch) = Inr validated"
      and tip: "cs_tip cs' = cs_tip validated"
      by (auto simp: replace_with_validated_branch_def Let_def split: sum.splits)
    have "length prefix = Suc (unat fork_height)"
      using rcollect_length [OF pre [unfolded canonical_prefix_through_def]] by simp
    then obtain g rest where g: "prefix @ branch = g # rest @ branch" by (cases prefix) auto
    from val obtain v where "connect_all P env (rest @ branch) (chainstate_fresh P (cs_network cs))
        = (validated, Inr v)"
      unfolding g validate_replacement_chain_def by (auto split: if_splits prod.splits sum.splits)
    from connect_all_tip [OF this] assms(3) show ?thesis by (simp add: tip)
  qed
qed

lemma all_or_nothingD:
  assumes "all_or_nothing P env bs start otherwise = (cs', r)"
  shows "r = Inl err \<Longrightarrow> cs' = otherwise" and "r = Inr u \<Longrightarrow> connect_all P env bs start = (cs', Inr ())"
  using assms by (auto simp: all_or_nothing_def split: prod.splits sum.splits)

lemma with_result_eq:
  assumes "(cs', r) = with_result result op"
  shows "r = Inl err \<Longrightarrow> op = (cs', Inl err)"
    and "r = Inr q \<Longrightarrow> op = (cs', Inr ()) \<and> q = result"
  using assms by (cases op; cases "snd op"; auto simp: with_result_def)+

lemma reorganisation_result:
  assumes "in_memory cs" and "in_memory cs0" and "reversible_run P env cs0 branch" and "branch \<noteq> []"
    and "connect_all P env old cs0 = (cs, Inr ())" and "reversible_run P env cs0 old"
    and op: "(if inc then switch_branch_incrementally P env fork_height old branch cs
       else replace_with_validated_branch P env fork_height branch cs) = (cs', r)"
  shows "r = Inl err \<Longrightarrow> cs' = cs"
    and "r = Inr () \<Longrightarrow> cs_tip cs' = Some (header (last branch))
      \<and> (inc \<longrightarrow> connect_all P env branch cs0 = (cs', Inr ()))"
proof -
  note sw = switch_all_or_nothing [OF assms(2,5,6,3), of fork_height]
  have st: "cs_storage cs = None" using assms(1) by (simp add: in_memory_def)
  show "cs' = cs" if "r = Inl err"
    using op that sw all_or_nothingD(1) replacement(1) [OF _ st assms(4)]
    by (cases inc) fastforce+
  show "cs_tip cs' = Some (header (last branch)) \<and> (inc \<longrightarrow> connect_all P env branch cs0 = (cs', Inr ()))"
    if r: "r = Inr ()"
  proof (cases inc)
    case True
    then have "all_or_nothing P env branch cs0 cs = (cs', Inr ())" using op r sw by simp
    from all_or_nothingD(2) [OF this] have "connect_all P env branch cs0 = (cs', Inr ())" by simp
    with connect_all_tip [OF this assms(4)] show ?thesis by simp
  next
    case False
    then show ?thesis using op r replacement(2) [OF _ st assms(4)] by fastforce
  qed
qed


end
