(* ===== verification/Node_Runs.thy ===== *)
theory Node_Runs
  imports Reorg Chain_Startup
begin

text \<open>
  The runs of a node: the states that connecting and disconnecting reach from an empty database or
  an empty memory, with any outcome of the commits but a failure after the transaction. In each of
  them the database holds the tip and the unspent outputs of the memory, a failed step leaves the
  memory as it was, and a restart finds the state again.
\<close>

lemma memory_storage: "cs' = cs\<lparr>cs_storage := st\<rparr> \<Longrightarrow> memory cs' = memory cs"
  by (simp add: memory_def)

section \<open>Runs\<close>

text \<open>No commit fails after its transaction took effect.\<close>

definition commits_cleanly :: "chainstate \<Rightarrow> bool" where
  "commits_cleanly cs \<longleftrightarrow> (\<forall>db err. cs_storage cs = Some db \<longrightarrow> next_outcome db \<noteq> FailsAfterCommit err)"

inductive node_run :: "primitives \<Rightarrow> network \<Rightarrow> chainstate \<Rightarrow> bool" for P :: primitives and n :: network
where
  in_memory_start: "node_run P n (chainstate_fresh P n)"
| first_run: "first_start P env n db = (db', Inr cs) \<Longrightarrow> db_network db = n
    \<Longrightarrow> tab_utxos (db_tables db) = [] \<Longrightarrow> node_run P n cs"
| connecting: "node_run P n cs \<Longrightarrow> connect_block P env cs b = (cs', r) \<Longrightarrow> commits_cleanly cs
    \<Longrightarrow> fresh_txs P (cs_utxos cs) (transactions b) \<Longrightarrow> unlinked_txs P (transactions b) \<Longrightarrow> node_run P n cs'"
| disconnecting: "node_run P n cs \<Longrightarrow> disconnect_last_block P env cs = (cs', r) \<Longrightarrow> commits_cleanly cs
    \<Longrightarrow> node_run P n cs'"

text \<open>Each entry of the undo stack takes its block back, newest first.\<close>

fun undo_chain :: "primitives \<Rightarrow> network \<Rightarrow> utxo_set \<Rightarrow> block list \<Rightarrow> chain_undo list \<Rightarrow> bool" where
  "undo_chain P n s bs [] \<longleftrightarrow> True"
| "undo_chain P n s [] (u # us) \<longleftrightarrow> False"
| "undo_chain P n s (b # bs) (u # us) \<longleftrightarrow>
     (let s0 = disconnect_block s (undo_of_block u)
      in apply_block P s0 b = (s, Inr (undo_of_block u)) \<and> utxo_set_ok s0
         \<and> finite (dom (set_entries s0)) \<and> set_network s0 = n
         \<and> (\<exists>h. previous_tip u = Some h \<and> previous_tip_hash u = block_hash P h)
         \<and> undo_chain P n s0 bs us)"

definition stored_utxos :: "database \<Rightarrow> utxo_set \<Rightarrow> bool" where
  "stored_utxos db s \<longleftrightarrow> map_of (tab_utxos (db_tables db)) = set_entries s
     \<and> distinct (map fst (tab_utxos (db_tables db)))"

definition persisted :: "chainstate \<Rightarrow> bool" where
  "persisted cs \<longleftrightarrow> (\<forall>db. cs_storage cs = Some db \<longrightarrow> db_network db = cs_network cs
     \<and> load_chainstate_snapshot db = Some \<lparr>snap_height = cs_height cs, snap_tip_hash = cs_tip_hash cs,
         snap_tip_header = cs_tip cs\<rparr>
     \<and> stored_utxos db (cs_utxos cs))"

definition node_inv :: "primitives \<Rightarrow> network \<Rightarrow> chainstate \<Rightarrow> bool" where
  "node_inv P n cs \<longleftrightarrow> cs_network cs = n \<and> utxos_ok cs \<and> persisted cs
     \<and> (\<exists>h. cs_tip cs = Some h \<and> cs_tip_hash cs = block_hash P h \<and> cs_height cs = height h)
     \<and> length (cs_undo_stack cs) < length (cs_blocks cs)
     \<and> undo_chain P n (cs_utxos cs) (rev (cs_blocks cs)) (rev (cs_undo_stack cs))"

section \<open>The database side of a step\<close>

lemma distinct_delta:
  assumes "apply_utxo_delta P n b t = Inr t'" and "distinct (map fst (tab_utxos t))"
  shows "distinct (map fst (tab_utxos t'))"
proof -
  have i: "distinct (map fst (tab_utxos (fold delta_input is t)))"
    if "distinct (map fst (tab_utxos t))" for "is" and t
    using that by (induction "is" arbitrary: t) (simp_all add: delta_input_def distinct_delete)
  have o: "delta_output e t = Inr t' \<Longrightarrow> distinct (map fst (tab_utxos t)) \<Longrightarrow> distinct (map fst (tab_utxos t'))"
    for e t t' by (auto simp: delta_output_def distinct_update split: if_splits)
  have r: "rfold f xs t = Inr t' \<Longrightarrow> (\<And>x t t'. f x t = Inr t' \<Longrightarrow> distinct (map fst (tab_utxos t)) \<Longrightarrow>
      distinct (map fst (tab_utxos t'))) \<Longrightarrow> distinct (map fst (tab_utxos t)) \<Longrightarrow>
      distinct (map fst (tab_utxos t'))" for f :: "'x \<Rightarrow> tables \<Rightarrow> storage_error + tables" and xs t t'
    by (induction xs arbitrary: t) auto
  have "distinct (map fst (tab_utxos t'))"
    if "delta_transaction P n h tx t = Inr t'" "distinct (map fst (tab_utxos t))" for h tx t t'
    by (rule r [OF that(1) [unfolded delta_transaction_def]]) (use o i [OF that(2)] in blast)+
  from r [OF assms(1) [unfolded apply_utxo_delta_def] this assms(2)] show ?thesis by simp
qed

lemma write_archive_utxos:
  assumes "write_block_archive P now n hgt b loc t = Inr t'"
  shows "tab_utxos t' = tab_utxos t"
proof -
  have "tab_utxos (fold (archive_transaction P h k) xs t) = tab_utxos t" for h k xs and t :: tables
    by (induction xs arbitrary: t) (simp_all add: archive_transaction_def split: prod.splits)
  then show ?thesis
    using assms by (auto simp: write_block_archive_def Let_def elim!: rbind_InrE split: option.splits if_splits)
qed

lemma block_commit:
  assumes "commit_chainstate P now db snap utxos (Some (hgt, b)) = (db', Inr u)"
    and "apply_block P s b = (s', Inr undo)" and "stored_utxos db s" and "set_network s = db_network db"
  shows "load_chainstate_snapshot db' = Some snap \<and> stored_utxos db' s' \<and> db_network db' = db_network db"
proof -
  from commit_success [OF assms(1)] obtain arch where
    t: "commit_tables P now (db_network db) snap utxos (Some (hgt, b)) arch (db_tables db) = Inr (db_tables db')"
    and n: "db_network db' = db_network db" by blast
  then obtain t1 where t1: "tab_utxos t1 = tab_utxos (db_tables db)"
    and d: "apply_utxo_delta P (db_network db) b (t1\<lparr>meta_chainstate := Some snap\<rparr>) = Inr (db_tables db')"
    by (auto simp: commit_tables_def Let_def elim!: rbind_InrE split: option.splits dest: write_archive_utxos)
  let ?t = "t1\<lparr>meta_chainstate := Some snap\<rparr>"
  have "map_of (tab_utxos ?t) = set_entries s" using assms(3) t1 by (simp add: stored_utxos_def)
  from delta_transactions [OF assms(2) [unfolded apply_block_def] this assms(4)] d
  have "map_of (tab_utxos (db_tables db')) = set_entries s'"
    by (auto simp: apply_utxo_delta_def)
  moreover have "distinct (map fst (tab_utxos (db_tables db')))"
    by (rule distinct_delta [OF d]) (use assms(3) t1 in \<open>simp add: stored_utxos_def\<close>)
  moreover have "load_chainstate_snapshot db' = Some snap"
    using delta_keeps [OF d] by (simp add: load_chainstate_snapshot_def)
  ultimately show ?thesis using n by (simp add: stored_utxos_def)
qed

lemma utxo_entries_of:
  assumes "utxo_set_ok s" and "finite (dom (set_entries s))"
  shows "distinct (map entry_key (utxo_entries s))" and "entries_of (utxo_entries s) = set_entries s"
proof -
  let ?ks = "sorted_list_of_set (dom (set_entries s))"
  have ks: "set ?ks = dom (set_entries s)" "distinct ?ks" using assms(2) by simp_all
  have "map entry_key (utxo_entries s) = map (\<lambda>k. k) ?ks"
    unfolding utxo_entries_def map_map
    by (rule map_cong) (use ks(1) utxo_set_okD(1) [OF assms(1)] in \<open>auto simp: domIff\<close>)
  then have keys: "map entry_key (utxo_entries s) = ?ks" by simp
  then show d: "distinct (map entry_key (utxo_entries s))" using ks(2) by simp
  show "entries_of (utxo_entries s) = set_entries s"
  proof
    fix k
    show "entries_of (utxo_entries s) k = set_entries s k"
    proof (cases "set_entries s k")
      case None
      then have "k \<notin> dom (entries_of (utxo_entries s))"
        using ks(1) keys by (metis dom_entries_of domIff list.set_map)
      then show ?thesis using None by (simp add: domIff del: dom_entries_of)
    next
      case (Some e)
      then have "e \<in> set (utxo_entries s)" "entry_key e = k"
        using ks(1) utxo_set_okD(1) [OF assms(1) Some] image_eqI [of e "\<lambda>k. the (set_entries s k)" k "set ?ks"]
        by (simp_all add: utxo_entries_def domI)
      then show ?thesis using entries_of_distinct [OF d, of e] Some by simp
    qed
  qed
qed

lemma distinct_stored: "distinct (map fst al) \<Longrightarrow> distinct (map fst (fold (\<lambda>e. AList.update (entry_key e) e) es al))"
  by (induction es arbitrary: al) (simp_all add: distinct_update)

lemma snapshot_stored:
  assumes "commit_chainstate P now db snap (utxo_entries s) None = (db', Inr u)"
    and "utxo_set_ok s" and "finite (dom (set_entries s))"
  shows "load_chainstate_snapshot db' = Some snap \<and> stored_utxos db' s \<and> db_network db' = db_network db"
proof -
  note e = utxo_entries_of [OF assms(2,3)]
  from commit_success [OF assms(1)]
  have "rebuild_height_index (snap_tip_hash snap) ((db_tables db)\<lparr>meta_chainstate := Some snap,
      tab_utxos := fold (\<lambda>e. AList.update (entry_key e) e) (utxo_entries s) []\<rparr>) = Inr (db_tables db')"
    by (auto simp: archive_append_def commit_tables_def)
  from rebuild_height_index_keeps [OF this] distinct_stored [of "[]" "utxo_entries s"]
  have "distinct (map fst (tab_utxos (db_tables db')))" by simp
  with snapshot_commit [OF assms(1) e(1)] e(2) show ?thesis by (simp add: stored_utxos_def)
qed

lemma commit_network:
  assumes "commit_chainstate P now db snap utxos app = (db', r)"
  shows "db_network db' = db_network db"
proof (cases r)
  case (Inl err)
  have "db_network db1 = db_network db" if "(case archive_append P app (db\<lparr>db_outcomes :=
      tl (db_outcomes db), db_journal := True\<rparr>) of (db, Inl err) \<Rightarrow> (db, Inl err)
       | (db, Inr archive) \<Rightarrow> (db, commit_tables P now (db_network db) snap utxos app archive (db_tables db)))
       = (db1, q)" for db1 and q :: "storage_error + tables"
    using that by (auto split: prod.splits sum.splits dest: archive_append_keeps(2))
  with journaled_failure [OF assms [unfolded commit_chainstate_def Inl]] show ?thesis by fastforce
next
  case (Inr u)
  then show ?thesis using commit_success assms by blast
qed

lemma pruning_keeps_utxos:
  assumes "prune_archived_blocks m db tph depth = (db', res)"
  shows "db_network db' = db_network db \<and> load_chainstate_snapshot db' = load_chainstate_snapshot db
    \<and> stored_utxos db' s = stored_utxos db s"
proof -
  have n: "db_network db' = db_network db"
    using assms by (auto simp: prune_archived_blocks_def Let_def split: option.splits if_splits write_outcome.splits)
  have mark: "tab_utxos (fold mark_pruned rs t) = tab_utxos t \<and> meta_chainstate (fold mark_pruned rs t) = meta_chainstate t"
    for rs and t :: tables
    by (induction rs arbitrary: t) (simp_all add: mark_pruned_def)
  show ?thesis
    by (rule prune_cases [OF assms])
      (simp_all add: n mark pruned_db_def stored_utxos_def load_chainstate_snapshot_def)
qed

lemma prune_history_persisted:
  assumes "persisted cs"
  shows "persisted (prune_history P env cs)"
proof -
  let ?cs = "prune_history_to_retain P (unat (sat_add (effective_prune_depth env (cs_network cs)) 1)) cs"
  have p: "persisted ?cs" using assms by (simp add: persisted_def prune_history_to_retain_def Let_def)
  show ?thesis
  proof (cases "cs_height ?cs < effective_prune_depth env (cs_network cs) \<or> cs_storage ?cs = None")
    case True
    then show ?thesis using p by (auto simp: prune_history_def Let_def)
  next
    case False
    then obtain db where db: "cs_storage ?cs = Some db" by auto
    obtain db' res where pr: "prune_archived_blocks (env_prune_target_bytes env) db (cs_height ?cs)
        (effective_prune_depth env (cs_network cs)) = (db', res)" by fastforce
    show ?thesis
      using pruning_keeps_utxos [OF pr] p db pr False
      by (cases res) (simp_all add: prune_history_def Let_def persisted_def)
  qed
qed

section \<open>The invariant\<close>

lemma undo_chain_take:
  "undo_chain P n s bs us \<Longrightarrow> k \<le> m \<Longrightarrow> undo_chain P n s (take m bs @ xs) (take k us)"
proof (induction P n s bs us arbitrary: k m rule: undo_chain.induct)
  case (3 P n s b bs u us)
  then show ?case by (cases k; cases m) (auto simp: Let_def)
qed simp_all

lemma prune_history_undo:
  assumes "undo_chain P n (cs_utxos cs) (rev (cs_blocks cs)) (rev (cs_undo_stack cs))"
    and len: "length (cs_undo_stack cs) < length (cs_blocks cs)"
  shows "undo_chain P n (cs_utxos cs) (rev (cs_blocks (prune_history P env cs)))
      (rev (cs_undo_stack (prune_history P env cs)))"
    and "length (cs_undo_stack (prune_history P env cs)) < length (cs_blocks (prune_history P env cs))"
proof -
  define retain where "retain = unat (sat_add (effective_prune_depth env (cs_network cs)) 1)"
  let ?cs = "prune_history_to_retain P retain cs"
  have same: "cs_blocks (prune_history P env cs) = cs_blocks ?cs"
    "cs_undo_stack (prune_history P env cs) = cs_undo_stack ?cs"
    by (simp_all add: prune_history_def Let_def retain_def split: option.splits prod.splits sum.splits)
  have "undo_chain P n (cs_utxos cs) (rev (cs_blocks ?cs)) (rev (cs_undo_stack ?cs))
    \<and> length (cs_undo_stack ?cs) < length (cs_blocks ?cs)"
  proof (cases "length (cs_blocks cs) \<le> retain \<or> retain = 0")
    case True
    then show ?thesis using assms by (simp add: prune_history_to_retain_def)
  next
    case False
    define pc where "pc = length (cs_blocks cs) - retain"
    have b: "rev (cs_blocks ?cs) = take (length (cs_blocks cs) - (1 + pc)) (rev (cs_blocks cs)) @ rev (take 1 (cs_blocks cs))"
      using False by (simp add: prune_history_to_retain_def pc_def Let_def rev_drop)
    have u: "rev (cs_undo_stack ?cs) = take (length (cs_undo_stack cs) - pc) (rev (cs_undo_stack cs))"
      using False by (simp add: prune_history_to_retain_def pc_def Let_def rev_drop min_def)
    have "length (cs_undo_stack cs) - pc \<le> length (cs_blocks cs) - (1 + pc)" using len by simp
    from undo_chain_take [OF assms(1) this] have "undo_chain P n (cs_utxos cs) (rev (cs_blocks ?cs)) (rev (cs_undo_stack ?cs))"
      unfolding b u .
    moreover have "length (cs_undo_stack ?cs) < length (cs_blocks ?cs)"
      using False len by (auto simp: prune_history_to_retain_def Let_def min_def)
    ultimately show ?thesis by blast
  qed
  then show "undo_chain P n (cs_utxos cs) (rev (cs_blocks (prune_history P env cs)))
      (rev (cs_undo_stack (prune_history P env cs)))"
    "length (cs_undo_stack (prune_history P env cs)) < length (cs_blocks (prune_history P env cs))"
    by (simp_all add: same)
qed

lemma prune_history_inv:
  assumes "node_inv P n cs"
  shows "node_inv P n (prune_history P env cs)"
proof -
  have u: "undo_chain P n (cs_utxos cs) (rev (cs_blocks cs)) (rev (cs_undo_stack cs))"
    and l: "length (cs_undo_stack cs) < length (cs_blocks cs)" and p: "persisted cs"
    using assms by (simp_all add: node_inv_def)
  show ?thesis
    using assms prune_history_persisted [OF p] prune_history_undo [OF u l]
    by (simp add: node_inv_def utxos_ok_def)
qed

definition genesis_entry :: "primitives \<Rightarrow> network \<Rightarrow> utxo_entry" where
  "genesis_entry P n = utxo_entry_coinbase n (genesis_coinbase_txid P n) 0 (genesis_utxo_value n)
     (gp_reward_script (genesis_parts_for n)) 0"

lemma genesis_network [simp]: "gp_network (genesis_parts_for n) = n"
  by (cases n) simp_all

lemma fresh_parts:
  "cs_utxos (fresh_with_storage P n st) = \<lparr>set_network = n,
     set_entries = [(genesis_coinbase_txid P n, 0) \<mapsto> genesis_entry P n]\<rparr>"
  "cs_tip (fresh_with_storage P n st) = Some (genesis_header P (genesis_parts_for n))"
  "cs_tip_hash (fresh_with_storage P n st) = genesis_hash P n"
  "cs_height (fresh_with_storage P n st) = 0" "cs_network (fresh_with_storage P n st) = n"
  "cs_blocks (fresh_with_storage P n st) = [genesis_block P n]"
  "cs_undo_stack (fresh_with_storage P n st) = []" "cs_storage (fresh_with_storage P n st) = st"
  by (simp_all add: fresh_with_storage_def Let_def genesis_block_def genesis_block_from_parts_def
      genesis_coinbase_def utxo_insert_def utxo_set_new_def genesis_entry_def utxo_entry_coinbase_def
      utxo_entry_new_def entry_key_def)

lemma fresh_inv:
  assumes "persisted (fresh_with_storage P n st)"
  shows "node_inv P n (fresh_with_storage P n st)"
  using assms
  by (simp add: node_inv_def fresh_parts utxos_ok_def utxo_set_ok_def genesis_hash_def genesis_header_def)
    (simp add: genesis_entry_def utxo_entry_coinbase_def utxo_entry_new_def entry_key_def)

lemma genesis_applies:
  "apply_block P (utxo_set_new n) (genesis_block P n) = (\<lparr>set_network = n,
     set_entries = [(genesis_coinbase_txid P n, 0) \<mapsto> genesis_entry P n]\<rparr>,
     Inr \<lparr>spent = [], created = [genesis_entry P n]\<rparr>)"
  by (simp add: apply_block_def genesis_block_def genesis_block_from_parts_def genesis_coinbase_def
      spend_inputs_def create_outputs_def utxo_insert_def utxo_set_new_def genesis_entry_def Let_def
      utxo_entry_coinbase_def utxo_entry_new_def entry_key_def empty_undo_def is_coinbase_def
      genesis_header_def genesis_coinbase_txid_def genesis_utxo_value_def)

lemma first_start_inv:
  assumes "first_start P env n db = (db', Inr cs)" and "db_network db = n"
    and "tab_utxos (db_tables db) = []"
  shows "node_inv P n cs"
proof -
  let ?cs = "fresh_with_storage P n (Some db)"
  from assms(1) have c: "commit_chainstate P (env_now env) db \<lparr>snap_height = 0,
      snap_tip_hash = cs_tip_hash ?cs, snap_tip_header = cs_tip ?cs\<rparr> (utxo_entries (cs_utxos ?cs))
      (Some (0, genesis_block P n)) = (db', Inr ())" and cs: "cs = ?cs\<lparr>cs_storage := Some db'\<rparr>"
    by (auto simp: first_start_def Let_def split: prod.splits sum.splits)
  have cs': "cs = fresh_with_storage P n (Some db')" unfolding cs by (simp add: fresh_with_storage_def Let_def)
  have "stored_utxos db (utxo_set_new n)" using assms(3) by (simp add: stored_utxos_def utxo_set_new_def)
  from block_commit [OF c genesis_applies this] assms(2)
  have "persisted cs" unfolding cs' by (simp add: persisted_def fresh_parts utxo_set_new_def)
  then show ?thesis unfolding cs' by (rule fresh_inv)
qed

lemma connect_inv:
  assumes inv: "node_inv P n cs" and c: "connect_block P env cs b = (cs', r)" and cl: "commits_cleanly cs"
    and fresh: "fresh_txs P (cs_utxos cs) (transactions b)" and unl: "unlinked_txs P (transactions b)"
  shows "node_inv P n cs'"
proof -
  have ok: "utxos_ok cs" and p: "persisted cs" and n: "cs_network cs = n"
    using inv by (simp_all add: node_inv_def)
  show ?thesis
    using c
  proof (cases rule: connect_blockE)
    case (invalid err)
    then show ?thesis using inv by simp
  next
    case (unapplied utxos err)
    then show ?thesis using valid_fresh_applies [OF ok fresh] by (metis Inl_Inr_False prod.inject)
  next
    case (unsaved utxos undo storage err)
    have restored: "disconnect_block utxos undo = cs_utxos cs"
      using disconnect_exact [OF _ fresh unsaved(1)] ok unl by (simp add: utxos_ok_def)
    have "persisted cs'"
    proof (cases "cs_storage cs")
      case None
      then show ?thesis using unsaved by simp
    next
      case (Some db)
      then obtain db' where cm: "commit_chainstate P (env_now env) db \<lparr>snap_height = height (header b),
          snap_tip_hash = block_hash P (header b), snap_tip_header = Some (header b)\<rparr> []
          (Some (height (header b), b)) = (db', Inl err)" and st: "storage = Some db'"
        using unsaved(2) by (auto simp: commit_connected_def split: prod.splits)
      have "db_tables db' = db_tables db"
        using commit_failure_tables [OF cm] cl Some by (simp add: commits_cleanly_def)
      moreover have "db_network db' = db_network db" by (rule commit_network [OF cm])
      ultimately show ?thesis using p Some unfolding unsaved(4) st
        by (simp add: persisted_def restored load_chainstate_snapshot_def stored_utxos_def)
    qed
    then show ?thesis using inv unfolding unsaved(4) by (simp add: node_inv_def restored utxos_ok_def)
  next
    case (saved utxos undo storage)
    note ok' = applied_utxos_ok [OF ok fresh saved(1)]
    have restored: "disconnect_block utxos undo = cs_utxos cs"
      using disconnect_exact [OF _ fresh saved(1)] ok unl by (simp add: utxos_ok_def)
    let ?cs = "connected P cs storage b utxos undo"
    have "persisted ?cs"
    proof (cases "cs_storage cs")
      case None
      then show ?thesis using saved(2) by (simp add: persisted_def connected_def)
    next
      case (Some db)
      then obtain db' where cm: "commit_chainstate P (env_now env) db \<lparr>snap_height = height (header b),
          snap_tip_hash = block_hash P (header b), snap_tip_header = Some (header b)\<rparr> []
          (Some (height (header b), b)) = (db', Inr ())" and st: "storage = Some db'"
        using saved(2) by (auto simp: commit_connected_def split: prod.splits)
      from block_commit [OF cm saved(1)] p Some ok n show ?thesis
        by (simp add: persisted_def connected_def st utxos_ok_def)
    qed
    moreover have "undo_chain P n utxos (rev (cs_blocks ?cs)) (rev (cs_undo_stack ?cs))"
      using inv saved(1) ok by (auto simp: node_inv_def connected_def restored utxos_ok_def Let_def)
    ultimately have "node_inv P n ?cs"
      using inv ok' by (simp add: node_inv_def connected_def utxos_ok_def)
    then show ?thesis unfolding saved(4) by (rule prune_history_inv)
  qed
qed

lemma disconnect_inv:
  assumes inv: "node_inv P n cs" and d: "disconnect_last_block P env cs = (cs', r)" and cl: "commits_cleanly cs"
  shows "node_inv P n cs'" and "r = Inl err \<Longrightarrow> memory cs' = memory cs"
proof -
  have "node_inv P n cs' \<and> (\<forall>err. r = Inl err \<longrightarrow> memory cs' = memory cs)"
  proof (cases "cs_undo_stack cs" rule: rev_cases)
    case Nil
    then show ?thesis using d inv by (simp add: disconnect_last_block_def)
  next
    case (snoc us undo)
    then have "cs_blocks cs \<noteq> []" using inv by (auto simp: node_inv_def)
    then obtain bs b where bs: "cs_blocks cs = bs @ [b]" by (metis rev_exhaust)
    let ?s0 = "disconnect_block (cs_utxos cs) (undo_of_block undo)"
    from inv obtain h where re: "apply_block P ?s0 b = (cs_utxos cs, Inr (undo_of_block undo))"
      and ok0: "utxo_set_ok ?s0" "finite (dom (set_entries ?s0))" "set_network ?s0 = n"
      and prev: "previous_tip undo = Some h" "previous_tip_hash undo = block_hash P h"
      and rest: "undo_chain P n ?s0 (rev bs) (rev us)"
      by (auto simp: node_inv_def snoc bs Let_def)
    have p: "persisted cs" and n: "cs_network cs = n" using inv by (simp_all add: node_inv_def)
    obtain cs2 q where ps: "persist_snapshot_for P env (cs\<lparr>cs_utxos := ?s0\<rparr>) (height h) (block_hash P h)
        (Some h) = (cs2, q)" by fastforce
    show ?thesis
    proof (cases q)
      case (Inl err)
      from ps Inl obtain db db' where st: "cs_storage cs = Some db" "cs2 = cs\<lparr>cs_utxos := ?s0, cs_storage := Some db'\<rparr>"
        and cm: "commit_chainstate P (env_now env) db \<lparr>snap_height = height h, snap_tip_hash = block_hash P h,
          snap_tip_header = Some h\<rparr> (utxo_entries ?s0) None = (db', Inl err)"
        by (auto simp: persist_snapshot_for_def split: option.splits prod.splits)
      have cs': "cs' = cs2\<lparr>cs_utxos := cs_utxos cs\<rparr>" "r = Inl err"
        using d ps Inl by (simp_all add: disconnect_last_block_def snoc bs Let_def prev st(2) re)
      have "db_tables db' = db_tables db"
        using commit_failure_tables [OF cm] cl st(1) by (simp add: commits_cleanly_def)
      with commit_network [OF cm] p have "persisted cs'"
        unfolding cs' st(2) by (simp add: persisted_def st(1) load_chainstate_snapshot_def stored_utxos_def)
      moreover have "memory cs' = memory cs" unfolding cs' st(2) by (rule memory_eqI) simp_all
      ultimately show ?thesis using inv memory_fields [of cs' cs]
        by (simp add: node_inv_def utxos_ok_def)
    next
      case (Inr x)
      have cs': "cs' = cs2\<lparr>cs_undo_stack := us, cs_blocks := bs,
          cs_index := (cs_index cs)(block_hash P (header b) := None), cs_tip := Some h,
          cs_tip_hash := block_hash P h, cs_height := height h\<rparr>" "r = Inr ()"
        using d ps Inr by (simp_all add: disconnect_last_block_def snoc bs Let_def prev)
      have cs2: "cs2 = cs\<lparr>cs_utxos := ?s0, cs_storage := cs_storage cs2\<rparr>"
        using persist_keeps(1) [OF ps] by simp
      have "persisted cs'"
      proof (cases "cs_storage cs")
        case None
        then show ?thesis using ps unfolding cs' by (auto simp: persisted_def persist_snapshot_for_def)
      next
        case (Some db)
        with ps Inr obtain db' where st: "cs2 = cs\<lparr>cs_utxos := ?s0, cs_storage := Some db'\<rparr>"
          and cm: "commit_chainstate P (env_now env) db \<lparr>snap_height = height h,
            snap_tip_hash = block_hash P h, snap_tip_header = Some h\<rparr> (utxo_entries ?s0) None = (db', Inr ())"
          by (auto simp: persist_snapshot_for_def split: prod.splits)
        from snapshot_stored [OF cm ok0(1,2)] p Some show ?thesis
          unfolding cs' st by (simp add: persisted_def)
      qed
      then show ?thesis
        using inv rest ok0 n unfolding cs'
        by (subst (asm) cs2, subst cs2) (simp add: node_inv_def utxos_ok_def snoc bs)
    qed
  qed
  then show "node_inv P n cs'" "r = Inl err \<Longrightarrow> memory cs' = memory cs" by simp_all
qed

lemma node_run_inv: "node_run P n cs \<Longrightarrow> node_inv P n cs"
proof (induction rule: node_run.induct)
  case in_memory_start
  show ?case unfolding chainstate_fresh_def by (rule fresh_inv) (simp add: persisted_def fresh_parts)
next
  case (first_run env db db' cs)
  then show ?case by (rule first_start_inv)
next
  case (connecting cs env b cs' r)
  then show ?case by (blast intro: connect_inv)
next
  case (disconnecting cs env cs' r)
  then show ?case by (blast intro: disconnect_inv(1))
qed



section \<open>A failure after the transaction\<close>

lemma late_commit_tables:
  assumes "commit_chainstate P now (db\<lparr>db_outcomes := Succeeds # os\<rparr>) snap utxos app = (db1, Inr u)"
  shows "\<exists>db2. commit_chainstate P now (db\<lparr>db_outcomes := FailsAfterCommit err # os\<rparr>) snap utxos app
      = (db2, Inl err) \<and> db_tables db2 = db_tables db1"
  using assms unfolding commit_chainstate_def journaled_def
  by (auto simp: next_outcome_def Let_def split: prod.splits sum.splits)

text \<open>C27: a commit that fails after its transaction splits memory and disk. When the commit journal
  cannot be removed, connecting a block that would otherwise succeed reports the error and leaves
  the memory at the old tip, while the snapshot in the database is already at the new one.\<close>

theorem late_failure_leaves_disk_ahead:
  assumes "utxos_ok cs" and "fresh_txs P (cs_utxos cs) (transactions b)" and "unlinked_txs P (transactions b)"
    and "connect_block P env (cs\<lparr>cs_storage := Some (db\<lparr>db_outcomes := Succeeds # os\<rparr>)\<rparr>) b = (cs1, Inr ())"
  shows "\<exists>db'. connect_block P env (cs\<lparr>cs_storage := Some (db\<lparr>db_outcomes := FailsAfterCommit err # os\<rparr>)\<rparr>) b
        = (cs\<lparr>cs_storage := Some db'\<rparr>, Inl err)
      \<and> load_chainstate_snapshot db' = Some \<lparr>snap_height = height (header b),
          snap_tip_hash = block_hash P (header b), snap_tip_header = Some (header b)\<rparr>"
  using assms(4)
proof (cases rule: connect_blockE)
  case (saved s u storage)
  let ?snap = "\<lparr>snap_height = height (header b), snap_tip_hash = block_hash P (header b),
    snap_tip_header = Some (header b)\<rparr>"
  from saved(2) obtain db1 where c: "commit_chainstate P (env_now env) (db\<lparr>db_outcomes := Succeeds # os\<rparr>)
      ?snap [] (Some (height (header b), b)) = (db1, Inr ())"
    by (auto simp: commit_connected_def split: prod.splits)
  obtain db2 where late: "commit_chainstate P (env_now env) (db\<lparr>db_outcomes := FailsAfterCommit err # os\<rparr>)
      ?snap [] (Some (height (header b), b)) = (db2, Inl err)" and t: "db_tables db2 = db_tables db1"
    using late_commit_tables [OF c] by blast
  from commit_success [OF c] have "meta_chainstate (db_tables db1) = Some ?snap"
    by (auto simp: commit_tables_def Let_def elim!: rbind_InrE dest: delta_keeps)
  then have "load_chainstate_snapshot db2 = Some ?snap" by (simp add: load_chainstate_snapshot_def t)
  moreover have "disconnect_block s u = cs_utxos cs"
    using disconnect_exact [of "cs_utxos cs" P b s u] assms(1-3) saved(1) by (simp add: utxos_ok_def)
  then have "connect_block P env (cs\<lparr>cs_storage := Some (db\<lparr>db_outcomes := FailsAfterCommit err # os\<rparr>)\<rparr>) b
      = (cs\<lparr>cs_storage := Some db2\<rparr>, Inl err)"
    using saved(1,5) late
    by (simp add: connect_block_def commit_connected_def next_difficulty_target_for_timestamp_def)
  ultimately show ?thesis by blast
qed simp_all

section \<open>Restart\<close>

lemma insert_entries_spec:
  assumes "distinct (map entry_key es)" and "\<forall>e\<in>set es. utxo_network e = set_network s"
    and "entry_key ` set es \<inter> dom (set_entries s) = {}"
  shows "insert_entries es s = Inr (s\<lparr>set_entries := set_entries s ++ entries_of es\<rparr>)"
  using assms
proof (induction es arbitrary: s)
  case (Cons e es)
  let ?s = "s\<lparr>set_entries := (set_entries s)(entry_key e \<mapsto> e)\<rparr>"
  have new: "set_entries s (entry_key e) = None" using Cons.prems(3) by auto
  then have "utxo_insert s e = (?s, Inr ())" using Cons.prems(2) by (simp add: utxo_insert_def)
  moreover have "insert_entries es ?s = Inr (?s\<lparr>set_entries := set_entries ?s ++ entries_of es\<rparr>)"
  proof (rule Cons.IH)
    have "entry_key e \<notin> entry_key ` set es" using Cons.prems(1) by simp
    moreover have "entry_key ` set es \<inter> dom (set_entries s) = {}" using Cons.prems(3) by auto
    ultimately show "entry_key ` set es \<inter> dom (set_entries ?s) = {}" by auto
  qed (use Cons.prems in simp_all)
  moreover have "(set_entries s)(entry_key e \<mapsto> e) ++ entries_of es = set_entries s ++ entries_of (e # es)"
  proof -
    have "entries_of es (entry_key e) = None"
    proof -
      have "entry_key e \<notin> dom (entries_of es)" using Cons.prems(1) by simp
      then show ?thesis by (simp only: domIff not_not)
    qed
    then show ?thesis by (auto simp: map_add_def fun_eq_iff split: option.splits)
  qed
  ultimately show ?case by (simp del: entries_of_simps map_add_upd)
qed simp

lemma stored_utxos_load:
  assumes st: "stored_utxos db s" and ok: "utxo_set_ok s" and n: "set_network s = n"
  shows "insert_entries (load_utxos db) (utxo_set_new n) = Inr s"
proof -
  let ?t = "tab_utxos (db_tables db)"
  have m: "map_of ?t = set_entries s" "distinct (map fst ?t)" using st by (simp_all add: stored_utxos_def)
  have k: "entry_key (snd x) = fst x \<and> utxo_network (snd x) = n" if "x \<in> set ?t" for x
    using utxo_set_okD [OF ok, of "fst x" "snd x"] that m n by (metis map_of_is_SomeI prod.collapse)
  then have keys: "map entry_key (load_utxos db) = map fst ?t" by (simp add: load_utxos_def)
  have "entries_of (load_utxos db) = map_of ?t"
    unfolding entries_of_def load_utxos_def map_map comp_def
    using k by (intro arg_cong [where f = map_of] map_idI) auto
  moreover have "insert_entries (load_utxos db) (utxo_set_new n)
      = Inr ((utxo_set_new n)\<lparr>set_entries := set_entries (utxo_set_new n) ++ entries_of (load_utxos db)\<rparr>)"
  proof (rule insert_entries_spec)
    show "distinct (map entry_key (load_utxos db))" unfolding keys by (rule m(2))
    show "\<forall>e\<in>set (load_utxos db). utxo_network e = set_network (utxo_set_new n)"
      using k by (auto simp: load_utxos_def utxo_set_new_def)
  qed (simp add: utxo_set_new_def)
  ultimately show ?thesis using m(1) n by (simp add: utxo_set_new_def)
qed


end
