(* ===== verification/Chain_Examples.thy ===== *)
theory Chain_Examples
  imports Node_Runs Validation_Examples
begin

text \<open>
  A small chain on the regression network: two competing blocks on genesis, each with a coinbase
  only. The digests are the last eight bytes of the message, so the nonce is the block hash.
\<close>

section \<open>Blocks\<close>

definition tail_primitives :: primitives where
  "tail_primitives = short_primitives\<lparr>sha3_384 := \<lambda>m. replicate 40 0 @ drop (length m) (replicate 8 0 @ m)\<rparr>"

lemma tail_primitives_widths [simp]: "digest_widths tail_primitives"
  by (simp add: tail_primitives_def short_primitives_def digest_widths_def del: drop_append)

lemma tail_digest: "sha3_384 tail_primitives m = replicate 40 0 @ drop (length m) (replicate 8 0 @ m)"
  by (simp add: tail_primitives_def)

lemma tail_digest_end: "length e = 8 \<Longrightarrow> sha3_384 tail_primitives (m @ e) = replicate 40 0 @ e"
  by (simp add: tail_digest)

definition child_coinbase :: transaction where
  "child_coinbase = \<lparr>tx_version = 1, inputs = [],
     outputs = [\<lparr>value_atoms = get_block_reward_atoms 1, locking_script = payer_lock\<rparr>],
     lock_time = 1, witness = [], tx_pow_nonce = 0, tx_pow_bits = 0\<rparr>"

definition child_header :: "u64 \<Rightarrow> block_header" where
  "child_header k = \<lparr>hdr_version = 1, network_id = Regnet, height = 1,
     previous_block_hash = genesis_hash tail_primitives Regnet,
     hdr_merkle_root = merkle_root tail_primitives [child_coinbase],
     hdr_witness_root = witness_root tail_primitives [child_coinbase],
     founders_hash_sha3_384 = FOUNDERS_HASH_SHA3_384,
     founders_hash_sha3_512 = FOUNDERS_HASH_SHA3_512, timestamp = 1773360600,
     difficulty_target_or_bits = min_difficulty_target DIFFICULTY_PROFILE, nonce = k\<rparr>"

definition child :: "u64 \<Rightarrow> block" where
  "child k = default_block\<lparr>header := child_header k, transactions := [child_coinbase]\<rparr>"

lemma child_parts [simp]:
  "header (child k) = child_header k" "transactions (child k) = [child_coinbase]"
  by (simp_all add: child_def)

definition child_env :: node_env where
  "child_env = \<lparr>env_now = 1773360600, env_prune_depth = None, env_max_reorg_depth = None,
     env_prune_target_bytes = None\<rparr>"

lemma tail_roots [simp]:
  "length (merkle_root tail_primitives [tx]) = 48" "length (witness_root tail_primitives [tx]) = 48"
proof -
  have one: "layer_root tail_primitives [x] = x" for x by (subst layer_root.simps) simp
  show "length (merkle_root tail_primitives [tx]) = 48" by (simp add: merkle_root_def one txid_def)
  show "length (witness_root tail_primitives [tx]) = 48"
    by (simp add: witness_root_def one witness_commitment_hash_def Let_def split: option.splits)
qed

lemma header_bytes_end:
  "header_canonical_bytes h = header_canonical_bytes_without_nonce h @ u64_le (nonce h)"
  by (simp add: header_canonical_bytes_def header_canonical_bytes_without_nonce_def)

lemma tail_hash:
  assumes "header_ok h"
  shows "block_hash tail_primitives h = replicate 40 0 @ u64_le (nonce h)"
  unfolding block_hash_canonical [OF assms] header_bytes_end by (rule tail_digest_end) simp

lemma regnet_genesis_ok: "header_ok (genesis_header tail_primitives (genesis_parts_for Regnet))"
  by (simp add: header_ok_def genesis_header_def length_founders_hashes profile_targets)

lemma genesis_hash_tail: "genesis_hash tail_primitives Regnet = replicate 40 0 @ u64_le 64646"
  using tail_hash [OF regnet_genesis_ok] unfolding genesis_hash_def
  by (simp add: genesis_header_def)

lemma child_header_ok: "header_ok (child_header k)"
  by (simp add: header_ok_def child_header_def length_founders_hashes profile_targets genesis_hash_tail)

lemma child_hash: "block_hash tail_primitives (child_header k) = replicate 40 0 @ u64_le k"
  using tail_hash [OF child_header_ok, of k] by (simp add: child_header_def)

lemma replicate_append_less:
  fixes x :: "'a::order"
  shows "replicate n x @ xs < replicate n x @ ys \<longleftrightarrow> xs < ys"
  by (induction n) simp_all

lemma hashes_differ:
  "block_hash tail_primitives (child_header 1) \<noteq> genesis_hash tail_primitives Regnet"
  "block_hash tail_primitives (child_header 2) \<noteq> genesis_hash tail_primitives Regnet"
  "block_hash tail_primitives (child_header 1) < block_hash tail_primitives (child_header 2)"
proof -
  have "le_of_nat 8 1 = [1, 0, 0, 0, 0, 0, 0, 0]" "le_of_nat 8 2 = [2, 0, 0, 0, 0, 0, 0, 0]" by code_simp+
  then show "block_hash tail_primitives (child_header 1) < block_hash tail_primitives (child_header 2)"
    by (simp add: child_hash u64_le_def replicate_append_less)
qed (simp_all add: child_hash genesis_hash_tail int_bytes_inject)

lemma child_txid: "txid tail_primitives child_coinbase \<noteq> genesis_coinbase_txid tail_primitives Regnet"
proof -
  have "drop 44 (txid tail_primitives child_coinbase) = u32_le 1"
    by (simp add: txid_def tail_digest child_coinbase_def update_base_hasher_def)
  moreover have "length TESTNET_GENESIS_REWARD_SCRIPT = 32" by (simp add: TESTNET_GENESIS_REWARD_SCRIPT_def)
  then have "drop 44 (genesis_coinbase_txid tail_primitives Regnet) = u32_le 0"
    by (simp add: genesis_coinbase_txid_def txid_def tail_digest genesis_coinbase_def update_base_hasher_def)
  moreover have "u32_le 1 \<noteq> u32_le 0" by (simp add: int_bytes_inject)
  ultimately show ?thesis by auto
qed

section \<open>Validation\<close>

lemma child_coinbase_size: "tx_base_size_bytes child_coinbase = 58" "tx_full_size_bytes child_coinbase = 73"
  by (simp_all add: child_coinbase_def tx_base_size_bytes_def tx_full_size_bytes_def)

lemma child_metrics:
  "size_metrics (child k) = \<lparr>base_size_bytes = 397, raw_size_bytes = 412, weight_bytes = 1603, vsize_bytes = 401\<rparr>"
proof -
  have add: "usize_sat_add a b = a + b" if "a + b < 10000" for a b
    using that by (simp add: usize_sat_add_def)
  have mul: "usize_sat_mul a 3 = a * 3" if "a < 10000" for a
    using that by (simp add: usize_sat_mul_def)
  show ?thesis
    unfolding size_metrics_def child_parts foldl_Cons foldl_Nil prod.case Let_def child_coinbase_size
    by (simp add: add mul)
qed

lemma child_static:
  "validate_block_static_header_precheck_with_schedule (child k) 1 Regnet SCHEDULED_ACTIVATIONS = Inr ()"
proof -
  have "is_supported_block_version_with_schedule 1 1 SCHEDULED_ACTIVATIONS"
    using rules_default [of 1]
    by (simp add: is_supported_block_version_with_schedule_def
        block_version_at_height_with_schedule_def rules_at_height_def ACTIVE_RULESET_V1_def)
  moreover have "validate_block_size_metrics (child k) = Inr ()"
    by (simp add: validate_block_size_metrics_def child_metrics)
  ultimately show ?thesis
    by (simp add: validate_block_static_header_precheck_with_schedule_def
        validate_block_common_header_with_schedule_def easiest_target_in_bounds)
      (simp add: child_header_def easiest_target_in_bounds)
qed

lemma child_meets_target:
  "meets_target (block_hash tail_primitives (child_header k)) (min_difficulty_target DIFFICULTY_PROFILE)"
proof -
  have "be_to_nat (u64_le k) < 256 ^ 8" using be_to_nat_bound [of "u64_le k"] by simp
  then have "be_to_nat (replicate 40 0 @ u64_le k) < 2 ^ 64" by (simp add: be_to_nat_leading_zeros)
  moreover have "(2 :: nat) ^ 64 \<le> HI" by simp
  ultimately have "be_to_nat (replicate 40 0 @ u64_le k) \<le> HI" by linarith
  moreover have "length (replicate 40 0 @ u64_le k) = 48" by simp
  ultimately show ?thesis
    unfolding meets_target_def child_hash
    by (subst lex_le_iff_be) (simp_all only: profile_targets)
qed

lemma child_context:
  "validate_contextual_header_precheck tail_primitives 1773360600 (child k)
     (genesis_hash tail_primitives Regnet) (min_difficulty_target DIFFICULTY_PROFILE)
     [genesis_block tail_primitives Regnet] = Inr ()"
proof -
  have "minimum_next_block_timestamp [genesis_block tail_primitives Regnet] = Some 1773360490"
    by (simp add: minimum_next_block_timestamp_def median_time_past_from_blocks_def
        median_time_past_blocks_def POW_PROFILE_def usize_sat_add_def median_u64_def Let_def
        genesis_block_def genesis_block_from_parts_def genesis_header_def sat_add_def)
  then show ?thesis
    using child_meets_target
    by (simp add: validate_contextual_header_precheck_def) (simp add: child_header_def sat_add_def)
qed

lemma child_shape:
  "validate_coinbase_transaction_shape_with_schedule child_coinbase 1 SCHEDULED_ACTIVATIONS = Inr ()"
  by (simp add: validate_coinbase_transaction_shape_with_schedule_def child_coinbase_def
      is_coinbase_def version_one_supported payment_lock_ok)

lemma child_collect:
  "collect_prepared_block_transactions_with_schedule tail_primitives (child k) 1 Regnet
     SCHEDULED_ACTIVATIONS = Inr []"
  by (simp add: collect_prepared_block_transactions_with_schedule_def child_shape
      txids_are_unique_def block_inputs_are_unique_def)
    (simp add: child_coinbase_def)

lemma child_valid:
  "validate_block_with_context tail_primitives 1773360600 (child k) 1 Regnet
     (genesis_hash tail_primitives Regnet) (min_difficulty_target DIFFICULTY_PROFILE)
     [genesis_block tail_primitives Regnet] s = Inr ()"
proof -
  have reward: "checked_add (block_subsidy_atoms_for_network Regnet 1) 0 = Some (get_block_reward_atoms 1)"
    by (simp add: block_subsidy_atoms_for_network_def checked_add_def u64_unat_bound)
  have cb: "validate_coinbase_transaction_with_schedule child_coinbase
      (get_block_reward_atoms 1) 1 SCHEDULED_ACTIVATIONS = Inr ()"
    by (simp add: validate_coinbase_transaction_with_schedule_def child_shape
        checked_output_value_atoms_def checked_add_def)
      (simp add: child_coinbase_def checked_add_def u64_unat_bound)
  have "validate_block_body_commitments tail_primitives (child k) = Inr ()"
    by (simp add: validate_block_body_commitments_def child_header_def)
  then show ?thesis
    by (simp add: validate_block_with_context_def validate_block_with_context_and_schedule_def
        child_static child_context child_collect reward cb
        verify_transaction_signatures_parallel_prepared_def)
qed

section \<open>Two branches in memory\<close>

definition root_state :: chainstate where
  "root_state = chainstate_fresh tail_primitives Regnet"

lemmas root_parts = fresh_parts [of tail_primitives Regnet None, folded chainstate_fresh_def root_state_def]

lemma child_target:
  "next_difficulty_target_for_timestamp cs ts = min_difficulty_target DIFFICULTY_PROFILE"
  if "cs_blocks cs = [genesis_block tail_primitives Regnet]" "cs_network cs = Regnet"
  using that
  by (simp add: next_difficulty_target_for_timestamp_def target_for_next_block_with_timestamp_def
      next_target_from_blocks_def strip_genesis_def POW_PROFILE_def Let_def)

lemma root_inv: "node_inv tail_primitives Regnet root_state"
  using node_run_inv [OF node_run.in_memory_start] by (simp add: root_state_def)

lemma root_in_memory: "in_memory root_state"
  using root_inv by (auto simp: in_memory_def root_parts node_inv_def tip_ok_def)

lemma child_fresh:
  "fresh_txs tail_primitives (cs_utxos root_state) (transactions (child k))"
  "unlinked_txs tail_primitives (transactions (child k))"
  using child_txid by (simp_all add: fresh_txs_def unlinked_txs_def root_parts) (simp add: child_coinbase_def)

lemma root_index: "cs_index root_state = [genesis_hash tail_primitives Regnet \<mapsto> 0]"
  by (simp add: root_state_def chainstate_fresh_def fresh_with_storage_def Let_def
      build_block_index_by_hash_def genesis_hash_def genesis_block_def genesis_block_from_parts_def)

lemma child_reversible:
  assumes "k = 1 \<or> k = 2"
  shows "reversible tail_primitives child_env root_state (child k)"
  using assms child_fresh hashes_differ
  by (auto simp: reversible_def root_index root_parts effective_prune_depth_def sat_add_def)

lemma child_applies:
  obtains s u where "apply_block tail_primitives (cs_utxos root_state) (child k) = (s, Inr u)"
proof -
  have ok: "utxos_ok root_state" using root_in_memory by (simp add: in_memory_def)
  have n: "cs_network root_state = Regnet" by (simp add: root_parts)
  show thesis
    using valid_fresh_applies [OF ok child_fresh(1) child_valid [folded n]] that by blast
qed

lemma child_connects:
  assumes "k = 1 \<or> k = 2"
  obtains s u where "apply_block tail_primitives (cs_utxos root_state) (child k) = (s, Inr u)"
    and "connect_block tail_primitives child_env root_state (child k)
      = (connected tail_primitives root_state None (child k) s u, Inr ())"
proof -
  obtain s u where app: "apply_block tail_primitives (cs_utxos root_state) (child k) = (s, Inr u)"
    by (rule child_applies)
  have "prune_history tail_primitives child_env (connected tail_primitives root_state None (child k) s u)
      = connected tail_primitives root_state None (child k) s u"
    by (rule prune_history_no_storage)
      (simp_all add: connected_def root_parts effective_prune_depth_def sat_add_def)
  moreover have "validate_block_with_context tail_primitives (env_now child_env) (child k)
      (sat_add (cs_height root_state) 1) (cs_network root_state) (cs_tip_hash root_state)
      (next_difficulty_target_for_timestamp root_state (timestamp (header (child k))))
      (cs_blocks root_state) (cs_utxos root_state) = Inr ()"
    using child_valid by (simp add: root_parts child_target child_env_def sat_add_def)
  ultimately have "connect_block tail_primitives child_env root_state (child k)
      = (connected tail_primitives root_state None (child k) s u, Inr ())"
    using app by (simp add: connect_block_def root_parts connected_def)
  with app that show thesis by blast
qed

lemma one_block_chain:
  assumes "k = 1 \<or> k = 2" and cs: "cs = connected tail_primitives root_state None (child k) s u"
  shows "canonical_fork_height tail_primitives cs (genesis_hash tail_primitives Regnet) = Inr 0"
    and "canonical_branch_after tail_primitives cs 0 = Inr [child k]"
    and "can_switch_incrementally tail_primitives (genesis_hash tail_primitives Regnet) [child k] cs"
    and "cs_height cs = 1"
proof -
  have idx: "cs_index cs (genesis_hash tail_primitives Regnet) = Some 0"
    using hashes_differ assms(1) by (auto simp: cs connected_def root_index)
  have bs: "cs_blocks cs = [genesis_block tail_primitives Regnet, child k]"
    by (simp add: cs connected_def root_parts)
  have g: "height (header (genesis_block tail_primitives Regnet)) = 0"
    "block_hash tail_primitives (header (genesis_block tail_primitives Regnet)) = genesis_hash tail_primitives Regnet"
    by (simp_all add: genesis_block_def genesis_block_from_parts_def genesis_hash_def) (simp add: genesis_header_def)
  have h: "height (child_header k) = 1" by (simp add: child_header_def)
  show "cs_height cs = 1" by (simp add: cs connected_def h)
  have at: "require_block_by_height tail_primitives cs 0 = Inr (genesis_block tail_primitives Regnet)"
    "require_block_by_height tail_primitives cs 1 = Inr (child k)"
    by (simp_all add: require_block_by_height_def block_by_height_def memory_block_index_for_height_def
        bs g h nth_option_def checked_sub_def Let_def ok_or_def)
  show "canonical_fork_height tail_primitives cs (genesis_hash tail_primitives Regnet) = Inr 0"
    by (simp add: canonical_fork_height_def known_block_height_def idx bs g nth_option_def at ok_or_def)
  show "canonical_branch_after tail_primitives cs 0 = Inr [child k]"
    using at(2) by (simp add: canonical_branch_after_def \<open>cs_height cs = 1\<close>)
  show "can_switch_incrementally tail_primitives (genesis_hash tail_primitives Regnet) [child k] cs"
    by (simp add: can_switch_incrementally_def bs g upt_rec) (simp add: cs connected_def)
qed

lemma child_preferred: "branch_is_preferred tail_primitives [child 1] [child 2]"
proof -
  have "accumulated_chain_work [child 1] = accumulated_chain_work [child 2]"
    by (simp add: accumulated_chain_work_def child_header_def)
  moreover have "height (child_header 1) = height (child_header 2)" by (simp add: child_header_def)
  ultimately show ?thesis
    using hashes_differ(3)
    by (simp add: branch_is_preferred_def compare_branch_work_def cmp_def tip_def less_option_def) auto
qed


section \<open>A node with a database\<close>

text \<open>The archive of the database already holds genesis and both blocks, as after a disconnect.\<close>

definition regnet_record :: "bytes \<Rightarrow> bytes \<times> block_archive_record" where
  "regnet_record h = (h, example_record h 0)"

definition regnet_database :: "write_outcome list \<Rightarrow> database" where
  "regnet_database outcomes = \<lparr>db_network = Regnet, db_store = \<lparr>store_network = Regnet, store_files = []\<rparr>,
     db_tables = empty_tables\<lparr>tab_blocks := map regnet_record [genesis_hash tail_primitives Regnet,
       block_hash tail_primitives (child_header 1), block_hash tail_primitives (child_header 2)]\<rparr>,
     db_journal = False, db_outcomes = outcomes\<rparr>"

lemma known_block_commits:
  assumes "load_block_record db (block_hash P (header b)) \<noteq> None" and "network_id (header b) = db_network db"
    and "next_outcome db = Succeeds" and "apply_block P s b = (s', Inr u)" and "stored_utxos db s"
    and "set_network s = db_network db"
  shows "\<exists>db' us. commit_chainstate P now db snap utxos (Some (hgt, b)) = (db', Inr ())
    \<and> db_tables db' = (db_tables db)\<lparr>meta_chainstate := Some snap, tab_utxos := us\<rparr>
    \<and> db_outcomes db' = tl (db_outcomes db) \<and> db_network db' = db_network db"
proof -
  have "map_of (tab_utxos ((db_tables db)\<lparr>meta_chainstate := Some snap\<rparr>)) = set_entries s"
    using assms(5) by (simp add: stored_utxos_def)
  from delta_transactions [OF assms(4) [unfolded apply_block_def] this assms(6)] obtain us where
    "apply_utxo_delta P (db_network db) b ((db_tables db)\<lparr>meta_chainstate := Some snap\<rparr>)
      = Inr ((db_tables db)\<lparr>meta_chainstate := Some snap, tab_utxos := us\<rparr>)"
    by (auto simp: apply_utxo_delta_def)
  moreover have "archive_append P (Some (hgt, b)) (db\<lparr>db_outcomes := tl (db_outcomes db), db_journal := True\<rparr>)
      = (db\<lparr>db_outcomes := tl (db_outcomes db), db_journal := True\<rparr>, Inr None)"
    using assms(1,2) by (simp add: archive_append_def load_block_record_def)
  ultimately show ?thesis
    using assms(3) by (auto simp: commit_chainstate_def journaled_def commit_tables_def Let_def)
qed

lemma regnet_starts:
  obtains db where "first_start tail_primitives child_env Regnet (regnet_database (Succeeds # os))
      = (db, Inr (fresh_with_storage tail_primitives Regnet (Some db)))"
    and "db_outcomes db = os" and "db_network db = Regnet"
    and "load_block_record db (block_hash tail_primitives (child_header 1)) \<noteq> None"
proof -
  let ?db = "regnet_database (Succeeds # os)" and ?b = "genesis_block tail_primitives Regnet"
  let ?cs = "fresh_with_storage tail_primitives Regnet (Some ?db)"
  have g: "header ?b = genesis_header tail_primitives (genesis_parts_for Regnet)"
    by (simp only: genesis_block_def genesis_block_from_parts_def block.select_convs)
  have hash: "block_hash tail_primitives (header ?b) = genesis_hash tail_primitives Regnet"
    by (simp only: g genesis_hash_def)
  have "load_block_record ?db (block_hash tail_primitives (header ?b)) \<noteq> None"
    unfolding hash by (simp add: regnet_database_def regnet_record_def load_block_record_def)
  moreover have "network_id (header ?b) = db_network ?db"
    by (simp add: g genesis_header_def regnet_database_def)
  moreover have "next_outcome ?db = Succeeds" by (simp add: next_outcome_def regnet_database_def)
  moreover have "stored_utxos ?db (utxo_set_new Regnet)"
    by (simp add: stored_utxos_def regnet_database_def empty_tables_def utxo_set_new_def)
  moreover have "set_network (utxo_set_new Regnet) = db_network ?db"
    by (simp add: regnet_database_def utxo_set_new_def)
  ultimately obtain db us where c: "commit_chainstate tail_primitives (env_now child_env) ?db
      \<lparr>snap_height = 0, snap_tip_hash = cs_tip_hash ?cs, snap_tip_header = cs_tip ?cs\<rparr>
      (utxo_entries (cs_utxos ?cs)) (Some (0, ?b)) = (db, Inr ())"
    and db: "tab_blocks (db_tables db) = tab_blocks (db_tables ?db)"
      "db_outcomes db = tl (db_outcomes ?db)" "db_network db = db_network ?db"
    using known_block_commits [OF _ _ _ genesis_applies] by fastforce
  show thesis
  proof (rule that [of db])
    show "first_start tail_primitives child_env Regnet ?db
        = (db, Inr (fresh_with_storage tail_primitives Regnet (Some db)))"
      using c by (simp add: first_start_def Let_def) (simp add: fresh_with_storage_def Let_def)
    show "load_block_record db (block_hash tail_primitives (child_header 1)) \<noteq> None"
      by (simp add: load_block_record_def db(1)) (simp add: regnet_database_def regnet_record_def)
  qed (simp_all add: db(2,3) regnet_database_def)
qed

lemma stored_child:
  fixes db :: database
  defines "cs \<equiv> fresh_with_storage tail_primitives Regnet (Some db)"
  obtains s u where "apply_block tail_primitives (cs_utxos cs) (child 1) = (s, Inr u)"
    and "connect_block tail_primitives child_env cs (child 1)
      = (case commit_connected tail_primitives child_env (Some db) (child 1) of
           (storage, Inl err) \<Rightarrow> (cs\<lparr>cs_utxos := disconnect_block s u, cs_storage := storage\<rparr>, Inl err)
         | (storage, Inr _) \<Rightarrow> (connected tail_primitives cs storage (child 1) s u, Inr ()))"
proof -
  note parts = fresh_parts [of tail_primitives Regnet "Some db", folded cs_def]
  have "cs_utxos cs = cs_utxos root_state" by (simp add: parts root_parts)
  then obtain s u where app: "apply_block tail_primitives (cs_utxos cs) (child 1) = (s, Inr u)"
    using child_applies by metis
  have h: "height (child_header 1) = 1" by (simp add: child_header_def)
  have "prune_history tail_primitives child_env (connected tail_primitives cs storage (child 1) s u)
      = connected tail_primitives cs storage (child 1) s u" for storage
    by (simp add: prune_history_def prune_history_to_retain_def connected_def parts h Let_def
        effective_prune_depth_def sat_add_def)
  moreover have "validate_block_with_context tail_primitives (env_now child_env) (child 1)
      (sat_add (cs_height cs) 1) (cs_network cs) (cs_tip_hash cs)
      (next_difficulty_target_for_timestamp cs (timestamp (header (child 1))))
      (cs_blocks cs) (cs_utxos cs) = Inr ()"
    using child_valid by (simp add: parts child_target child_env_def sat_add_def)
  ultimately have "connect_block tail_primitives child_env cs (child 1)
      = (case commit_connected tail_primitives child_env (Some db) (child 1) of
           (storage, Inl err) \<Rightarrow> (cs\<lparr>cs_utxos := disconnect_block s u, cs_storage := storage\<rparr>, Inl err)
         | (storage, Inr _) \<Rightarrow> (connected tail_primitives cs storage (child 1) s u, Inr ()))"
    using app by (simp add: connect_block_def parts(8) connected_def split: prod.splits sum.splits)
  with app that show thesis by blast
qed

lemma child_fresh_stored:
  "fresh_txs tail_primitives (cs_utxos (fresh_with_storage tail_primitives Regnet st)) (transactions (child k))"
  using child_fresh(1) by (simp add: fresh_parts root_parts)

lemma stored_run:
  obtains db cs where "node_run tail_primitives Regnet cs" and "cs_storage cs = Some db" and "cs_height cs = 1"
    and "cs_tip_hash cs = block_hash tail_primitives (child_header 1)"
proof -
  obtain db where st: "first_start tail_primitives child_env Regnet (regnet_database [Succeeds])
      = (db, Inr (fresh_with_storage tail_primitives Regnet (Some db)))"
    and db: "db_outcomes db = []" "db_network db = Regnet"
      "load_block_record db (block_hash tail_primitives (child_header 1)) \<noteq> None" by (rule regnet_starts)
  define cs where "cs = fresh_with_storage tail_primitives Regnet (Some db)"
  have run: "node_run tail_primitives Regnet cs"
    unfolding cs_def by (rule node_run.first_run [OF st]) (simp_all add: regnet_database_def empty_tables_def)
  obtain s u where app: "apply_block tail_primitives (cs_utxos cs) (child 1) = (s, Inr u)"
    and c: "connect_block tail_primitives child_env cs (child 1)
      = (case commit_connected tail_primitives child_env (Some db) (child 1) of
           (storage, Inl err) \<Rightarrow> (cs\<lparr>cs_utxos := disconnect_block s u, cs_storage := storage\<rparr>, Inl err)
         | (storage, Inr _) \<Rightarrow> (connected tail_primitives cs storage (child 1) s u, Inr ()))"
    unfolding cs_def by (rule stored_child)
  have "stored_utxos db (cs_utxos cs)" "set_network (cs_utxos cs) = db_network db"
    using node_run_inv [OF run] db(2) by (simp_all add: node_inv_def persisted_def cs_def fresh_parts)
  moreover have "load_block_record db (block_hash tail_primitives (header (child 1))) \<noteq> None"
    "network_id (header (child 1)) = db_network db" "next_outcome db = Succeeds"
    using db by (simp_all add: next_outcome_def) (simp add: child_header_def)
  ultimately obtain db' where
    "commit_connected tail_primitives child_env (Some db) (child 1) = (Some db', Inr ())"
    using known_block_commits [OF _ _ _ app, of db "env_now child_env" "\<lparr>snap_height = height (header (child 1)),
        snap_tip_hash = block_hash tail_primitives (header (child 1)),
        snap_tip_header = Some (header (child 1))\<rparr>" "[]" "height (header (child 1))"]
    unfolding commit_connected_def by fastforce
  with c have c': "connect_block tail_primitives child_env cs (child 1)
      = (connected tail_primitives cs (Some db') (child 1) s u, Inr ())" by simp
  have "commits_cleanly cs" by (simp add: commits_cleanly_def cs_def fresh_parts next_outcome_def db)
  from node_run.connecting [OF run c' this] child_fresh(2) child_fresh_stored
  have "node_run tail_primitives Regnet (connected tail_primitives cs (Some db') (child 1) s u)"
    by (simp add: cs_def)
  then show thesis by (rule that) (simp_all add: connected_def child_header_def)
qed




theorem late_failure_leaves_disk_ahead_witness:
  "\<exists>cs cs' db. connect_block tail_primitives child_env cs (child 1) = (cs', Inl (Io NotFound))
     \<and> cs_tip_hash cs' = genesis_hash tail_primitives Regnet \<and> cs_storage cs' = Some db
     \<and> load_chainstate_snapshot db = Some \<lparr>snap_height = 1,
         snap_tip_hash = block_hash tail_primitives (child_header 1), snap_tip_header = Some (child_header 1)\<rparr>"
proof -
  obtain db where st: "first_start tail_primitives child_env Regnet (regnet_database [Succeeds])
      = (db, Inr (fresh_with_storage tail_primitives Regnet (Some db)))"
    and db: "db_outcomes db = []" "db_network db = Regnet"
      "load_block_record db (block_hash tail_primitives (child_header 1)) \<noteq> None" by (rule regnet_starts)
  define cs where "cs = fresh_with_storage tail_primitives Regnet (Some db)"
  let ?db = "db\<lparr>db_outcomes := [Succeeds]\<rparr>"
  have run: "node_run tail_primitives Regnet cs"
    unfolding cs_def by (rule node_run.first_run [OF st]) (simp_all add: regnet_database_def empty_tables_def)
  have at: "cs\<lparr>cs_storage := Some d\<rparr> = fresh_with_storage tail_primitives Regnet (Some d)" for d
    by (simp add: cs_def fresh_with_storage_def Let_def)
  obtain s u where app: "apply_block tail_primitives (cs_utxos cs) (child 1) = (s, Inr u)"
    and c: "connect_block tail_primitives child_env (cs\<lparr>cs_storage := Some ?db\<rparr>) (child 1)
      = (case commit_connected tail_primitives child_env (Some ?db) (child 1) of
           (storage, Inl err) \<Rightarrow> (cs\<lparr>cs_utxos := disconnect_block s u, cs_storage := storage\<rparr>, Inl err)
         | (storage, Inr _) \<Rightarrow> (connected tail_primitives (cs\<lparr>cs_storage := Some ?db\<rparr>) storage (child 1) s u, Inr ()))"
    by (rule stored_child [of ?db, folded at]) simp
  have inv: "utxos_ok cs" "stored_utxos ?db (cs_utxos cs)" "set_network (cs_utxos cs) = db_network ?db"
    using node_run_inv [OF run] db(2)
    by (simp_all add: node_inv_def persisted_def cs_def fresh_parts stored_utxos_def)
  have "load_block_record ?db (block_hash tail_primitives (header (child 1))) \<noteq> None"
    "network_id (header (child 1)) = db_network ?db" "next_outcome ?db = Succeeds"
    using db by (simp_all add: next_outcome_def load_block_record_def) (simp add: child_header_def)
  from known_block_commits [OF this app inv(2,3), of "env_now child_env" "\<lparr>snap_height = height (header (child 1)),
        snap_tip_hash = block_hash tail_primitives (header (child 1)),
        snap_tip_header = Some (header (child 1))\<rparr>" "[]" "height (header (child 1))"]
  obtain db' where "commit_connected tail_primitives child_env (Some ?db) (child 1) = (Some db', Inr ())"
    unfolding commit_connected_def by fastforce
  with c obtain cs1 where c1: "connect_block tail_primitives child_env (cs\<lparr>cs_storage := Some ?db\<rparr>) (child 1)
      = (cs1, Inr ())" by simp
  have "fresh_txs tail_primitives (cs_utxos cs) (transactions (child 1))"
    unfolding cs_def by (rule child_fresh_stored)
  from late_failure_leaves_disk_ahead [OF inv(1) this child_fresh(2) c1, of "Io NotFound"] obtain db2 where
    "connect_block tail_primitives child_env (cs\<lparr>cs_storage := Some (db\<lparr>db_outcomes := [FailsAfterCommit (Io NotFound)]\<rparr>)\<rparr>)
      (child 1) = (cs\<lparr>cs_storage := Some db2\<rparr>, Inl (Io NotFound))"
    "load_chainstate_snapshot db2 = Some \<lparr>snap_height = height (child_header 1),
       snap_tip_hash = block_hash tail_primitives (child_header 1), snap_tip_header = Some (child_header 1)\<rparr>"
    by auto
  moreover have "cs_tip_hash cs = genesis_hash tail_primitives Regnet" "height (child_header 1) = 1"
    by (simp_all add: cs_def fresh_parts) (simp add: child_header_def)
  ultimately show ?thesis by force
qed

end
