(* ===== verification/Spec2Isabelle.thy ===== *)
theory Spec2Isabelle
  imports Validation_Examples Genesis Reload Chain_Examples
begin

text \<open>
  Verification of the Atho node: the consensus rules and the chain storage of a proof-of-work chain
  of unspent transaction outputs. Paths are relative to \<^verbatim>\<open>src/crates\<close>.

  \<^bold>\<open>The program.\<close> \<^verbatim>\<open>atho-core\<close> holds transactions, blocks, addresses, the emission schedule,
  retargeting, the ruleset activations and the transaction proof of work. \<^verbatim>\<open>atho-storage\<close> validates
  transactions and blocks against the set of unspent outputs, applies them with undo data, keeps
  the chain in memory, and stores blocks in flat files and everything else in LMDB. The chain
  state calls validation, then the set, then the database.

  \<^bold>\<open>Theories.\<close>
  \<^item> \<open>Atho_Prelude\<close>: Rust integers, results and the shared facts. \<open>Encoding\<close>: byte encodings, with
    the locale \<open>codec\<close> (what a reader promises about its writer), interpreted for every field,
    witness, transaction, header and block entry.
  \<^item> \<open>Network\<close>: \<^verbatim>\<open>network.rs\<close>, \<^verbatim>\<open>constants.rs\<close>, \<^verbatim>\<open>consensus/params.rs\<close>, and the record
    \<open>primitives\<close> of the hash functions and the signature check.
  \<^item> \<open>Transaction\<close>, \<open>Block\<close>, \<open>Address\<close>, \<open>Genesis\<close>: the files of those names. The decoders accept
    exactly the encodings, and identifiers, digests and roots commit to their contents as long as
    the hash has no collision among the values involved.
  \<^item> \<open>Subsidy\<close>, \<open>Rules\<close>, \<open>Pow\<close>, \<open>Tx_Policy\<close>: \<^verbatim>\<open>consensus/*.rs\<close>. The closed form of the issued
    amount is the sum of the rewards, targets stay within their bounds, branch preference is a
    strict ranking, and the nonce searches only return valid nonces.
  \<^item> \<open>Utxo_Store\<close>, \<open>Utxo\<close>: \<^verbatim>\<open>atho-storage/src/utxo.rs\<close>. The locale \<open>utxo_store\<close> states what block
    processing needs of a store and is interpreted by the set; the locale \<open>utxo_simulation\<close> relates
    a store to the set and is interpreted in \<open>Validation\<close> by the overlay that tries a block.
  \<^item> \<open>Validation\<close>: \<^verbatim>\<open>validation.rs\<close> with \<^verbatim>\<open>atho-crypto/src/falcon.rs\<close>. An accepted transaction is
    funded and signed; an accepted block applies and mints what the schedule allows.
  \<^item> \<open>Block_Files\<close>, \<open>Database\<close>, \<open>Archive\<close>: \<^verbatim>\<open>block_files.rs\<close> and \<^verbatim>\<open>db.rs\<close>. Appended and committed
    blocks load again, also after pruning and the repair of a torn tail; the stored outputs follow
    the set in memory; the retry loop ends; and two ways in which an index loses a block.
  \<^item> \<open>Chainstate\<close>, \<open>Chain_Startup\<close>: \<^verbatim>\<open>chainstate.rs\<close> with the start-up checks of \<^verbatim>\<open>db.rs\<close>; the
    record \<open>chainstate\<close> is the struct, its operations are state transformers with a result.
    \<open>Reorg\<close>: a selection of a branch is all or nothing in memory. \<open>Node_Runs\<close>: the step relation
    \<open>node_run\<close> and its invariant, by which the database follows the memory and a restart finds the
    state again. \<open>Reload\<close>: the number of reloaded blocks suffices for the tip and not for a
    reorganisation. The definitions of \<open>Chain_Startup\<close> beyond loading (headers for peers,
    checkpoints, snapshot bundles, consistency check, recovery) have no theorems yet.
  \<^item> \<open>Validation_Examples\<close>, \<open>Chain_Examples\<close>, and the last sections of other theories: concrete
    inputs on which the hypotheses of the theorems hold.

  \<^bold>\<open>Conventions.\<close> Integers of the code are words of their width, \<open>usize\<close> is a natural number.
  Errors are \<open>Inl\<close>; each early return is a branch. LMDB tables are association lists and files are
  byte lists. The clock, the environment and the outcomes of commits (success, or a failure before,
  inside or after the transaction) are inputs. \<open>node_run\<close> excludes failures after the transaction;
  \<open>Node_Runs\<close> shows what such a failure does.

  \<^bold>\<open>Bounds.\<close> The walk that rebuilds the height index has the number of records as fuel, which is
  enough where parents are linked by height (\<open>rebuild_walk_enough_fuel\<close>); the walk over recent
  blocks is bounded by its limit and the collection of headers by the requested number, as in the
  code. Loops without such a bound (\<open>write_with_retry\<close>, \<open>regenerate_genesis_header\<close>, \<open>search_nonce\<close>)
  are partial functions in which not returning is \<open>None\<close>.

  \<^bold>\<open>Not modelled.\<close> LMDB, the byte form of its records and the hash and signature algorithms are
  outside the sources or parameters. Peer records, the renaming of quarantined files and the
  assertions on genesis are left out. The pool of pending transactions, block templates,
  synchronisation, the peer-to-peer protocol, the remote interface, the wallet, the desktop
  application and the GPU miner are not covered; several of them have state and rules of their own.
\<close>

end
